(* ===== verification/GoLib.thy ===== *)
theory GoLib
  imports Main "HOL-Library.Char_ord" "HOL-Library.List_Lexorder" "HOL-Library.AList"
begin

text \<open>
  What the components share: Go's basic values as HOL values, the parts of its standard
  library the sources call (strings, strconv), the result type of fallible code, and the
  generic lemmas on lists, maps and results that carry the component proofs.
\<close>

section \<open>Values\<close>

text \<open>
  A Go string is a byte sequence: a \<open>char list\<close>, each \<open>char\<close> one byte. A
  \<open>time.Time\<close> and a \<open>time.Duration\<close> are a number of nanoseconds, \<open>0\<close> the zero
  time. An \<open>int64\<close> is an \<open>int\<close>; where an overflow can matter the sum goes through
  \<open>wrap64\<close>, two's complement at 64 bits.
\<close>

type_synonym gotime = int
type_synonym int64 = int

definition ord :: "char \<Rightarrow> nat" where
  "ord c = of_char c"

definition max_int64 :: int where
  "max_int64 = 9223372036854775807"

definition wrap64 :: "int \<Rightarrow> int" where
  "wrap64 x = (x + 9223372036854775808) mod 18446744073709551616 - 9223372036854775808"

definition is_int64 :: "int \<Rightarrow> bool" where
  "is_int64 x \<longleftrightarrow> -9223372036854775808 \<le> x \<and> x \<le> 9223372036854775807"

lemma wrap64_id [simp]: "is_int64 x \<Longrightarrow> wrap64 x = x"
  by (simp add: wrap64_def is_int64_def)

lemma is_int64_wrap64 [simp]: "is_int64 (wrap64 x)"
  unfolding wrap64_def is_int64_def by (smt (verit) pos_mod_bound pos_mod_sign)

text \<open>Sums that wrap at each step wrap once at the end.\<close>

lemma wrap64_add: "wrap64 (wrap64 a + b) = wrap64 (a + b)"
  unfolding wrap64_def by (simp add: mod_simps algebra_simps)

abbreviation second :: gotime where
  "second \<equiv> 1000000000"

section \<open>Results\<close>

text \<open>A Go function returning \<open>(value, error)\<close> returns a sum: \<open>Inl\<close> the error, \<open>Inr\<close> the value.\<close>

fun bind_res :: "'e + 'a \<Rightarrow> ('a \<Rightarrow> 'e + 'b) \<Rightarrow> 'e + 'b" where
  "bind_res (Inl e) f = Inl e"
| "bind_res (Inr a) f = f a"

fun is_ok :: "'e + 'a \<Rightarrow> bool" where
  "is_ok (Inl _) = False"
| "is_ok (Inr _) = True"

lemma bind_res_Inr_iff: "bind_res m f = Inr b \<longleftrightarrow> (\<exists>a. m = Inr a \<and> f a = Inr b)"
  by (cases m) auto

lemma is_ok_iff: "is_ok m \<longleftrightarrow> (\<exists>a. m = Inr a)"
  by (cases m) auto

text \<open>A loop over a slice whose body can fail stops at the first error.\<close>

fun fold_res :: "('a \<Rightarrow> 's \<Rightarrow> 'e + 's) \<Rightarrow> 'a list \<Rightarrow> 's \<Rightarrow> 'e + 's" where
  "fold_res f [] s = Inr s"
| "fold_res f (x # xs) s = bind_res (f x s) (fold_res f xs)"

lemma fold_res_invariant:
  assumes "fold_res f xs s = Inr t" and "I s"
    and "\<And>x s t. x \<in> set xs \<Longrightarrow> f x s = Inr t \<Longrightarrow> I s \<Longrightarrow> I t"
  shows "I t"
  using assms
proof (induction xs arbitrary: s)
  case Nil
  then show ?case by simp
next
  case (Cons x xs)
  then obtain s' where "f x s = Inr s'" and "fold_res f xs s' = Inr t"
    by (auto simp: bind_res_Inr_iff)
  with Cons show ?case by (meson list.set_intros)
qed

section \<open>Package strings\<close>

fun has_prefix :: "string \<Rightarrow> string \<Rightarrow> bool" where
  "has_prefix s [] = True"
| "has_prefix [] (c # p) = False"
| "has_prefix (x # s) (c # p) = (x = c \<and> has_prefix s p)"

definition has_suffix :: "string \<Rightarrow> string \<Rightarrow> bool" where
  "has_suffix s p = has_prefix (rev s) (rev p)"

definition cut_prefix :: "string \<Rightarrow> string \<Rightarrow> string option" where
  "cut_prefix s p = (if has_prefix s p then Some (drop (length p) s) else None)"

definition cut_suffix :: "string \<Rightarrow> string \<Rightarrow> string option" where
  "cut_suffix s p = (if has_suffix s p then Some (take (length s - length p) s) else None)"

definition trim_prefix :: "string \<Rightarrow> string \<Rightarrow> string" where
  "trim_prefix s p = (if has_prefix s p then drop (length p) s else s)"

definition trim_suffix :: "string \<Rightarrow> string \<Rightarrow> string" where
  "trim_suffix s p = (if has_suffix s p then take (length s - length p) s else s)"

text \<open>\<open>cut s sep\<close>: the parts before and after the first \<open>sep\<close>.\<close>

fun cut :: "string \<Rightarrow> string \<Rightarrow> (string \<times> string) option" where
  "cut [] sep = (if sep = [] then Some ([], []) else None)"
| "cut (c # s) sep =
     (if has_prefix (c # s) sep then Some ([], drop (length sep) (c # s))
      else map_option (\<lambda>(a, b). (c # a, b)) (cut s sep))"

fun split_on :: "char \<Rightarrow> string \<Rightarrow> string list" where
  "split_on c [] = [[]]"
| "split_on c (x # s) =
     (if x = c then [] # split_on c s
      else case split_on c s of [] \<Rightarrow> [[x]] | w # ws \<Rightarrow> (x # w) # ws)"

fun join_with :: "string \<Rightarrow> string list \<Rightarrow> string" where
  "join_with sep [] = []"
| "join_with sep [w] = w"
| "join_with sep (w # ws) = w @ sep @ join_with sep ws"

text \<open>White space and letter case over ASCII, the only range the sources' inputs use them on.\<close>

definition is_space :: "char \<Rightarrow> bool" where
  "is_space c \<longleftrightarrow> ord c \<in> {9, 10, 11, 12, 13, 32}"

definition trim_left :: "(char \<Rightarrow> bool) \<Rightarrow> string \<Rightarrow> string" where
  "trim_left p s = dropWhile p s"

definition trim_right :: "(char \<Rightarrow> bool) \<Rightarrow> string \<Rightarrow> string" where
  "trim_right p s = rev (dropWhile p (rev s))"

definition trim_chars :: "(char \<Rightarrow> bool) \<Rightarrow> string \<Rightarrow> string" where
  "trim_chars p s = trim_right p (trim_left p s)"

abbreviation trim_space :: "string \<Rightarrow> string" where
  "trim_space \<equiv> trim_chars is_space"

definition lower_char :: "char \<Rightarrow> char" where
  "lower_char c = (if 65 \<le> ord c \<and> ord c \<le> 90 then char_of (ord c + 32) else c)"

definition to_lower :: "string \<Rightarrow> string" where
  "to_lower s = map lower_char s"

definition equal_fold :: "string \<Rightarrow> string \<Rightarrow> bool" where
  "equal_fold s t \<longleftrightarrow> to_lower s = to_lower t"

definition is_digit :: "char \<Rightarrow> bool" where
  "is_digit c \<longleftrightarrow> 48 \<le> ord c \<and> ord c \<le> 57"

section \<open>Package strconv\<close>

fun digits_value :: "string \<Rightarrow> int \<Rightarrow> int option" where
  "digits_value [] acc = Some acc"
| "digits_value (c # s) acc =
     (if is_digit c then digits_value s (10 * acc + int (ord c - 48)) else None)"

text \<open>\<open>ParseInt(s, 10, 64)\<close>: an optional sign, at least one digit, the value in range.\<close>

definition parse_int :: "string \<Rightarrow> int option" where
  "parse_int s =
     (let (neg, ds) = (case s of [] \<Rightarrow> (False, [])
                       | c # r \<Rightarrow> if c = CHR ''-'' then (True, r)
                                  else if c = CHR ''+'' then (False, r) else (False, s))
      in if ds = [] then None
         else case digits_value ds 0 of
                None \<Rightarrow> None
              | Some n \<Rightarrow> let v = (if neg then - n else n) in if is_int64 v then Some v else None)"

fun nat_digits :: "nat \<Rightarrow> string" where
  "nat_digits n = (if n < 10 then [char_of (48 + n)] else nat_digits (n div 10) @ [char_of (48 + n mod 10)])"

declare nat_digits.simps [simp del]

definition format_int :: "int \<Rightarrow> string" where
  "format_int n = (if n < 0 then CHR ''-'' # nat_digits (nat (- n)) else nat_digits (nat n))"

section \<open>Lemmas on strings\<close>

lemma has_prefix_iff: "has_prefix s p \<longleftrightarrow> (\<exists>t. s = p @ t)"
  by (induction s p rule: has_prefix.induct) auto

lemma has_prefix_append [simp]: "has_prefix (p @ s) p"
  by (auto simp: has_prefix_iff)

lemma cut_prefix_append [simp]: "cut_prefix (p @ s) p = Some s"
  by (simp add: cut_prefix_def)

lemma cut_prefix_Some: "cut_prefix s p = Some t \<longleftrightarrow> s = p @ t"
  by (auto simp: cut_prefix_def has_prefix_iff)

lemma cut_suffix_Some: "cut_suffix s p = Some t \<longleftrightarrow> s = t @ p"
proof -
  have "has_suffix s p \<longleftrightarrow> (\<exists>t. s = t @ p)"
    by (simp add: has_suffix_def has_prefix_iff) (metis rev_append rev_rev_ident)
  then show ?thesis by (auto simp: cut_suffix_def)
qed

lemma cut_append_char: "c \<notin> set a \<Longrightarrow> cut (a @ c # b) [c] = Some (a, b)"
  by (induction a) auto

lemma cut_None_char: "cut s [c] = None \<longleftrightarrow> c \<notin> set s"
  by (induction s) auto

lemma cut_Some_char: "cut s [c] = Some (a, b) \<Longrightarrow> s = a @ c # b \<and> c \<notin> set a"
proof (induction s arbitrary: a)
  case Nil
  then show ?case by simp
next
  case (Cons x s)
  then show ?case by (cases "x = c") (auto split: if_splits)
qed

lemma split_on_no_sep: "c \<notin> set s \<Longrightarrow> split_on c s = [s]"
  by (induction s) auto

lemma split_on_nonempty [simp]: "split_on c s \<noteq> []"
  by (induction s) (auto split: list.splits)

lemma split_on_sep_free: "w \<in> set (split_on c s) \<Longrightarrow> c \<notin> set w"
  by (induction s arbitrary: w) (auto split: list.splits if_splits)

lemma join_split: "join_with [c] (split_on c s) = s"
proof (induction s)
  case Nil
  then show ?case by simp
next
  case (Cons x s)
  obtain w ws where w: "split_on c s = w # ws" by (meson neq_Nil_conv split_on_nonempty)
  with Cons show ?case by (cases ws) auto
qed

section \<open>Lemmas on association lists\<close>

lemmas map_of_update [simp] = update_conv'
lemmas map_of_delete [simp] = delete_conv'

lemma map_of_filter_key: "map_of (filter (\<lambda>kv. P (fst kv)) al) k = (if P k then map_of al k else None)"
  by (induction al) auto

end
