(* ===== verification/Sha256.thy ===== *)
theory Sha256
  imports GoLib "HOL-Library.Word"
begin

text \<open>
  The SHA-256 function of Go's standard library (crypto/sha256), which the content store
  addresses every blob by. It is written out over 32-bit words, so no property of the
  store rests on an assumed hash: the only facts used are that a digest has 64 characters
  and that each of them is a lower-case hexadecimal digit.
\<close>

unbundle bit_operations_syntax

section \<open>Constants\<close>

definition sha_k :: "32 word list" where
  "sha_k =
    [1116352408, 1899447441, 3049323471, 3921009573, 961987163, 1508970993, 2453635748, 2870763221,
     3624381080, 310598401, 607225278, 1426881987, 1925078388, 2162078206, 2614888103, 3248222580,
     3835390401, 4022224774, 264347078, 604807628, 770255983, 1249150122, 1555081692, 1996064986,
     2554220882, 2821834349, 2952996808, 3210313671, 3336571891, 3584528711, 113926993, 338241895,
     666307205, 773529912, 1294757372, 1396182291, 1695183700, 1986661051, 2177026350, 2456956037,
     2730485921, 2820302411, 3259730800, 3345764771, 3516065817, 3600352804, 4094571909, 275423344,
     430227734, 506948616, 659060556, 883997877, 958139571, 1322822218, 1537002063, 1747873779,
     1955562222, 2024104815, 2227730452, 2361852424, 2428436474, 2756734187, 3204031479, 3329325298]"

record sha_state =
  sh_a :: "32 word"
  sh_b :: "32 word"
  sh_c :: "32 word"
  sh_d :: "32 word"
  sh_e :: "32 word"
  sh_f :: "32 word"
  sh_g :: "32 word"
  sh_h :: "32 word"

definition sha_init :: sha_state where
  "sha_init = \<lparr>sh_a = 1779033703, sh_b = 3144134277, sh_c = 1013904242, sh_d = 2773480762,
               sh_e = 1359893119, sh_f = 2600822924, sh_g = 528734635, sh_h = 1541459225\<rparr>"

section \<open>Padding, message schedule, compression\<close>

definition byte_of :: "char \<Rightarrow> 32 word" where
  "byte_of c = word_of_nat (of_char c)"

definition byte_at :: "int \<Rightarrow> nat \<Rightarrow> char" where
  "byte_at n k = char_of (nat ((n div 256 ^ k) mod 256))"

definition sha_pad :: "string \<Rightarrow> string" where
  "sha_pad m =
     (let l = length m; z = (119 - l mod 64) mod 64
      in m @ [char_of (128 :: nat)] @ replicate z (char_of (0 :: nat))
           @ map (byte_at (8 * int l)) [7, 6, 5, 4, 3, 2, 1, 0])"

fun words_of :: "string \<Rightarrow> 32 word list" where
  "words_of (a # b # c # d # rest) =
     (push_bit 24 (byte_of a) OR push_bit 16 (byte_of b) OR push_bit 8 (byte_of c) OR byte_of d)
       # words_of rest"
| "words_of _ = []"

text \<open>The schedule is kept newest first: entry \<open>k\<close> of the list is \<open>W(t - 1 - k)\<close>.\<close>

definition sched_next :: "32 word list \<Rightarrow> 32 word" where
  "sched_next w =
     (let w15 = w ! 14; w2 = w ! 1;
          s0 = word_rotr 7 w15 XOR word_rotr 18 w15 XOR drop_bit 3 w15;
          s1 = word_rotr 17 w2 XOR word_rotr 19 w2 XOR drop_bit 10 w2
      in w ! 15 + s0 + w ! 6 + s1)"

fun sched :: "nat \<Rightarrow> 32 word list \<Rightarrow> 32 word list" where
  "sched 0 w = w"
| "sched (Suc n) w = sched n (sched_next w # w)"

definition sha_round :: "32 word \<times> 32 word \<Rightarrow> sha_state \<Rightarrow> sha_state" where
  "sha_round kw s =
     (let s1 = word_rotr 6 (sh_e s) XOR word_rotr 11 (sh_e s) XOR word_rotr 25 (sh_e s);
          ch = (sh_e s AND sh_f s) XOR (NOT (sh_e s) AND sh_g s);
          t1 = sh_h s + s1 + ch + fst kw + snd kw;
          s0 = word_rotr 2 (sh_a s) XOR word_rotr 13 (sh_a s) XOR word_rotr 22 (sh_a s);
          mj = (sh_a s AND sh_b s) XOR (sh_a s AND sh_c s) XOR (sh_b s AND sh_c s)
      in \<lparr>sh_a = t1 + s0 + mj, sh_b = sh_a s, sh_c = sh_b s, sh_d = sh_c s,
          sh_e = sh_d s + t1, sh_f = sh_e s, sh_g = sh_f s, sh_h = sh_g s\<rparr>)"

definition sha_add :: "sha_state \<Rightarrow> sha_state \<Rightarrow> sha_state" where
  "sha_add s t =
     \<lparr>sh_a = sh_a s + sh_a t, sh_b = sh_b s + sh_b t, sh_c = sh_c s + sh_c t, sh_d = sh_d s + sh_d t,
      sh_e = sh_e s + sh_e t, sh_f = sh_f s + sh_f t, sh_g = sh_g s + sh_g t, sh_h = sh_h s + sh_h t\<rparr>"

definition sha_block :: "string \<Rightarrow> sha_state \<Rightarrow> sha_state" where
  "sha_block b s = sha_add s (fold sha_round (zip sha_k (rev (sched 48 (rev (words_of b))))) s)"

fun sha_blocks :: "nat \<Rightarrow> string \<Rightarrow> sha_state \<Rightarrow> sha_state" where
  "sha_blocks 0 m s = s"
| "sha_blocks (Suc n) m s = sha_blocks n (drop 64 m) (sha_block (take 64 m) s)"

section \<open>The digest in lower-case hexadecimal\<close>

definition hex_digit :: "nat \<Rightarrow> char" where
  "hex_digit n = char_of (if n mod 16 < 10 then 48 + n mod 16 else 87 + n mod 16)"

definition hex_word :: "32 word \<Rightarrow> string" where
  "hex_word w = map (\<lambda>k. hex_digit (unat (drop_bit k w AND 15))) [28, 24, 20, 16, 12, 8, 4, 0]"

definition sha256_hex :: "string \<Rightarrow> string" where
  "sha256_hex m =
     (let p = sha_pad m; s = sha_blocks (length p div 64) p sha_init
      in hex_word (sh_a s) @ hex_word (sh_b s) @ hex_word (sh_c s) @ hex_word (sh_d s)
           @ hex_word (sh_e s) @ hex_word (sh_f s) @ hex_word (sh_g s) @ hex_word (sh_h s))"

lemma length_hex_word [simp]: "length (hex_word w) = 8"
  by (simp add: hex_word_def)

lemma length_sha256_hex [simp]: "length (sha256_hex m) = 64"
  by (simp add: sha256_hex_def Let_def)

lemma sha256_hex_nonempty [simp]: "sha256_hex m \<noteq> []"
  by (metis length_sha256_hex list.size(3) zero_neq_numeral)

definition lower_hex :: "char \<Rightarrow> bool" where
  "lower_hex c \<longleftrightarrow> (48 \<le> ord c \<and> ord c \<le> 57) \<or> (97 \<le> ord c \<and> ord c \<le> 102)"

lemma lower_hex_digit [simp]: "lower_hex (hex_digit n)"
proof -
  have b: "n mod 16 < 16" by simp
  then have "(if n mod 16 < 10 then 48 + n mod 16 else 87 + n mod 16) < 256" by auto
  then have "ord (hex_digit n) = (if n mod 16 < 10 then 48 + n mod 16 else 87 + n mod 16)"
    unfolding hex_digit_def ord_def by (simp only: of_char_of) simp
  with b show ?thesis by (auto simp: lower_hex_def split: if_splits)
qed

lemma lower_hex_word: "list_all lower_hex (hex_word w)"
  by (simp add: hex_word_def)

lemma lower_hex_sha256: "list_all lower_hex (sha256_hex m)"
  by (simp add: sha256_hex_def Let_def lower_hex_word)

end
