(* ===== verification/Fs.thy ===== *)
theory Fs
  imports GoLib
begin

text \<open>
  The operating system's files, as far as package blob uses them: directories, names,
  inodes with hard links, and the durability of an inode's data. A system call that can
  fail for a reason outside the model (a full disk, a permission) asks a fault oracle.
\<close>

section \<open>Paths\<close>

text \<open>An absolute, cleaned path is the list of its segments; \<open>join_seg\<close> is one argument of filepath.Join.\<close>

type_synonym path = "string list"

definition clean_step :: "path \<Rightarrow> string \<Rightarrow> path" where
  "clean_step p s = (if s = [] \<or> s = ''.'' then p else if s = ''..'' then butlast p else p @ [s])"

definition join_seg :: "path \<Rightarrow> string \<Rightarrow> path" where
  "join_seg p s = foldl clean_step p (split_on (CHR ''/'') s)"

definition path_dir :: "path \<Rightarrow> path" where
  "path_dir p = butlast p"

definition path_base :: "path \<Rightarrow> string" where
  "path_base p = (if p = [] then ''/'' else last p)"

definition under :: "path \<Rightarrow> path \<Rightarrow> bool" where
  "under d p \<longleftrightarrow> take (length d) p = d \<and> length d < length p"

text \<open>A segment that is one ordinary path component is appended as it is.\<close>

definition plain_seg :: "string \<Rightarrow> bool" where
  "plain_seg s \<longleftrightarrow> s \<noteq> [] \<and> s \<noteq> ''.'' \<and> s \<noteq> ''..'' \<and> CHR ''/'' \<notin> set s"

lemma join_seg_plain [simp]: "plain_seg s \<Longrightarrow> join_seg p s = p @ [s]"
  by (simp add: join_seg_def plain_seg_def split_on_no_sep clean_step_def)

lemma under_append [simp]: "under d (d @ xs) \<longleftrightarrow> xs \<noteq> []"
  by (auto simp: under_def)

lemma under_iff: "under d p \<longleftrightarrow> (\<exists>xs. xs \<noteq> [] \<and> p = d @ xs)"
  by (metis append_take_drop_id drop_eq_Nil not_le under_append under_def)

section \<open>System calls and their faults\<close>

datatype syscall = SysAbs | SysMkdir | SysCreateTemp | SysOpen | SysStat | SysSync | SysClose
  | SysChmod | SysLink | SysCrossDevice | SysSyncDir | SysChtimes | SysRemove | SysReadDir | SysCopy
  | SysRename

type_synonym faults = "syscall \<Rightarrow> bool"

abbreviation no_faults :: faults where
  "no_faults \<equiv> (\<lambda>_. False)"

datatype io = IoOk | IoExist | IoNotExist | IoFail

section \<open>Inodes, names, directories\<close>

record inode =
  ino_data :: string
  ino_mtime :: gotime
  ino_mode :: nat
  ino_synced :: bool

record fs =
  fs_names :: "(path \<times> nat) list"
  fs_inodes :: "nat \<Rightarrow> inode"
  fs_next :: nat
  fs_dirs :: "path list"

definition lookup_name :: "fs \<Rightarrow> path \<Rightarrow> nat option" where
  "lookup_name s p = map_of (fs_names s) p"

definition set_inode :: "nat \<Rightarrow> (inode \<Rightarrow> inode) \<Rightarrow> fs \<Rightarrow> fs" where
  "set_inode i f s = s\<lparr>fs_inodes := (fs_inodes s)(i := f (fs_inodes s i))\<rparr>"

text \<open>
  os.MkdirAll: every prefix becomes a directory, unless one of them is a file.
\<close>

fun prefixes_of :: "path \<Rightarrow> path list" where
  "prefixes_of [] = []"
| "prefixes_of (x # p) = [x] # map ((#) x) (prefixes_of p)"

lemma in_prefixes: "q \<in> set (prefixes_of p) \<longleftrightarrow> q \<noteq> [] \<and> (\<exists>r. p = q @ r)"
  by (induction p arbitrary: q) (auto simp: Cons_eq_append_conv)

definition mkdir_all :: "faults \<Rightarrow> path \<Rightarrow> fs \<Rightarrow> fs option" where
  "mkdir_all flt p s =
     (if flt SysMkdir \<or> (\<exists>q \<in> set (prefixes_of p). lookup_name s q \<noteq> None) then None
      else Some (s\<lparr>fs_dirs := prefixes_of p @ fs_dirs s\<rparr>))"

definition new_file :: "path \<Rightarrow> inode \<Rightarrow> fs \<Rightarrow> fs" where
  "new_file p i s = s\<lparr>fs_names := (p, fs_next s) # fs_names s,
                      fs_inodes := (fs_inodes s)(fs_next s := i), fs_next := Suc (fs_next s)\<rparr>"

text \<open>os.Link: the new name must be free, the old one must exist.\<close>

definition os_link :: "faults \<Rightarrow> path \<Rightarrow> path \<Rightarrow> fs \<Rightarrow> fs \<times> io" where
  "os_link flt src dst s =
     (if lookup_name s dst \<noteq> None \<or> dst \<in> set (fs_dirs s) then (s, IoExist)
      else if flt SysLink then (s, IoFail)
      else case lookup_name s src of
             None \<Rightarrow> (s, IoNotExist)
           | Some i \<Rightarrow> (s\<lparr>fs_names := (dst, i) # fs_names s\<rparr>, IoOk))"

text \<open>os.Remove of a file.\<close>

definition os_remove :: "faults \<Rightarrow> path \<Rightarrow> fs \<Rightarrow> fs \<times> io" where
  "os_remove flt p s =
     (if flt SysRemove then (s, IoFail)
      else case lookup_name s p of
             None \<Rightarrow> (s, if p \<in> set (fs_dirs s) then IoFail else IoNotExist)
           | Some _ \<Rightarrow> (s\<lparr>fs_names := AList.delete p (fs_names s)\<rparr>, IoOk))"

text \<open>os.Rename of a file: the new name is taken over.\<close>

definition os_rename :: "faults \<Rightarrow> path \<Rightarrow> path \<Rightarrow> fs \<Rightarrow> fs \<times> io" where
  "os_rename flt src dst s =
     (if flt SysRename \<or> dst \<in> set (fs_dirs s) then (s, IoFail)
      else case lookup_name s src of
             None \<Rightarrow> (s, IoNotExist)
           | Some i \<Rightarrow> (s\<lparr>fs_names := (dst, i) # AList.delete dst (AList.delete src (fs_names s))\<rparr>, IoOk))"

text \<open>fsync of a file, os.Chmod and os.Chtimes of a name.\<close>

definition fsync_inode :: "nat \<Rightarrow> fs \<Rightarrow> fs" where
  "fsync_inode i s = set_inode i (ino_synced_update (\<lambda>_. True)) s"

definition os_chmod :: "path \<Rightarrow> nat \<Rightarrow> fs \<Rightarrow> fs" where
  "os_chmod p m s = (case lookup_name s p of None \<Rightarrow> s | Some i \<Rightarrow> set_inode i (ino_mode_update (\<lambda>_. m)) s)"

definition os_chtimes :: "faults \<Rightarrow> path \<Rightarrow> gotime \<Rightarrow> fs \<Rightarrow> fs \<times> io" where
  "os_chtimes flt p t s =
     (case lookup_name s p of
        None \<Rightarrow> (s, IoNotExist)
      | Some i \<Rightarrow> if flt SysChtimes then (s, IoFail) else (set_inode i (ino_mtime_update (\<lambda>_. t)) s, IoOk))"

section \<open>What each call leaves alone\<close>

lemma lookup_new_file [simp]:
  "lookup_name (new_file p i s) q = (if q = p then Some (fs_next s) else lookup_name s q)"
  by (simp add: lookup_name_def new_file_def)

lemma lookup_set_inode [simp]: "lookup_name (set_inode i f s) q = lookup_name s q"
  by (simp add: lookup_name_def set_inode_def)

lemma set_inode_simps [simp]:
  "fs_names (set_inode i f s) = fs_names s" "fs_next (set_inode i f s) = fs_next s"
  "fs_dirs (set_inode i f s) = fs_dirs s"
  "fs_inodes (set_inode i f s) j = (if j = i then f (fs_inodes s i) else fs_inodes s j)"
  by (simp_all add: set_inode_def)

lemma lookup_mkdir_all: "mkdir_all flt p s = Some t \<Longrightarrow> lookup_name t q = lookup_name s q"
  by (auto simp: mkdir_all_def lookup_name_def split: if_splits)

lemma mkdir_all_frame:
  "mkdir_all flt p s = Some t \<Longrightarrow> fs_names t = fs_names s \<and> fs_inodes t = fs_inodes s \<and> fs_next t = fs_next s"
  by (auto simp: mkdir_all_def split: if_splits)

lemma os_link_frame:
  "os_link flt src dst s = (t, r) \<Longrightarrow> fs_inodes t = fs_inodes s \<and> fs_next t = fs_next s \<and> fs_dirs t = fs_dirs s"
  by (auto simp: os_link_def split: if_splits option.splits)

lemma os_link_lookup:
  "os_link flt src dst s = (t, r) \<Longrightarrow>
     lookup_name t q = (if r = IoOk \<and> q = dst then lookup_name s src else lookup_name s q)"
  by (auto simp: os_link_def lookup_name_def split: if_splits option.splits)

lemma os_link_Ok: "os_link flt src dst s = (t, IoOk) \<Longrightarrow> lookup_name s dst = None \<and> lookup_name s src \<noteq> None"
  by (auto simp: os_link_def split: if_splits option.splits)

lemma os_link_not_Ok: "os_link flt src dst s = (t, r) \<Longrightarrow> r \<noteq> IoOk \<Longrightarrow> t = s"
  by (auto simp: os_link_def split: if_splits option.splits)

lemma os_remove_frame:
  "os_remove flt p s = (t, r) \<Longrightarrow> fs_inodes t = fs_inodes s \<and> fs_next t = fs_next s \<and> fs_dirs t = fs_dirs s"
  by (auto simp: os_remove_def split: if_splits option.splits)

lemma os_remove_lookup:
  "os_remove flt p s = (t, r) \<Longrightarrow> lookup_name t q = (if r = IoOk \<and> q = p then None else lookup_name s q)"
  by (auto simp: os_remove_def lookup_name_def split: if_splits option.splits)

lemma os_remove_subset: "os_remove flt p s = (t, r) \<Longrightarrow> lookup_name t q = Some i \<Longrightarrow> lookup_name s q = Some i"
  by (auto simp: os_remove_lookup split: if_splits)

lemma os_rename_frame:
  "os_rename flt src dst s = (t, r) \<Longrightarrow> fs_inodes t = fs_inodes s \<and> fs_next t = fs_next s \<and> fs_dirs t = fs_dirs s"
  by (auto simp: os_rename_def split: if_splits option.splits)

lemma os_rename_lookup:
  "os_rename flt src dst s = (t, r) \<Longrightarrow> q \<noteq> src \<Longrightarrow> q \<noteq> dst \<Longrightarrow> lookup_name t q = lookup_name s q"
  by (auto simp: os_rename_def lookup_name_def split: if_splits option.splits)

lemma fsync_simps [simp]:
  "lookup_name (fsync_inode i s) q = lookup_name s q" "fs_next (fsync_inode i s) = fs_next s"
  "fs_dirs (fsync_inode i s) = fs_dirs s" "fs_names (fsync_inode i s) = fs_names s"
  by (simp_all add: fsync_inode_def)

lemma os_chmod_simps [simp]:
  "lookup_name (os_chmod p m s) q = lookup_name s q" "fs_next (os_chmod p m s) = fs_next s"
  "fs_dirs (os_chmod p m s) = fs_dirs s" "fs_names (os_chmod p m s) = fs_names s"
  "ino_data (fs_inodes (os_chmod p m s) i) = ino_data (fs_inodes s i)"
  "ino_synced (fs_inodes (os_chmod p m s) i) = ino_synced (fs_inodes s i)"
  by (simp_all add: os_chmod_def split: option.splits)

lemma os_chtimes_frame:
  "os_chtimes flt p m s = (t, r) \<Longrightarrow>
     lookup_name t q = lookup_name s q \<and> fs_next t = fs_next s \<and> fs_dirs t = fs_dirs s
     \<and> ino_data (fs_inodes t i) = ino_data (fs_inodes s i)
     \<and> ino_synced (fs_inodes t i) = ino_synced (fs_inodes s i)"
  by (auto simp: os_chtimes_def split: option.splits if_splits)

end
