(* ===== verification/Digest.thy ===== *)
theory Digest
  imports Sha256 Fs
begin

text \<open>
  Package blob (go/internal/blob): digests (digest.go) and the package's errors. A digest is
  the lower-case hexadecimal form of a SHA-256; every digest parsed from the network is one.
\<close>

section \<open>digest.go\<close>

type_synonym digest = string

datatype blob_error =
    ErrBlobNotFound digest
  | ErrInvalidDigest
  | ErrWriteAfterClose
  | ErrCommitAfterClose
  | ErrInvalidSegment string
  | ErrImportNotRegular path
  | ErrImportSize digest int int
  | ErrSourceChanged path
  | ErrBlobIO syscall

definition digest_len :: nat where
  "digest_len = 64"

definition upper_hex :: "char \<Rightarrow> bool" where
  "upper_hex c \<longleftrightarrow> 65 \<le> ord c \<and> ord c \<le> 70"

fun normalise_hex :: "string \<Rightarrow> string option" where
  "normalise_hex [] = Some []"
| "normalise_hex (c # s) =
     (if lower_hex c then map_option ((#) c) (normalise_hex s)
      else if upper_hex c then map_option ((#) (char_of (ord c + 32))) (normalise_hex s)
      else None)"

definition parse_hex64 :: "string \<Rightarrow> blob_error + digest" where
  "parse_hex64 s =
     (if length s \<noteq> digest_len then Inl ErrInvalidDigest
      else case normalise_hex s of None \<Rightarrow> Inl ErrInvalidDigest | Some d \<Rightarrow> Inr d)"

definition parse_digest :: "string \<Rightarrow> blob_error + digest" where
  "parse_digest s =
     (case cut s '':'' of
        Some (algo, hex) \<Rightarrow> if algo \<noteq> ''sha256'' then Inl ErrInvalidDigest else parse_hex64 hex
      | None \<Rightarrow> parse_hex64 s)"

definition digest_bytes :: "string \<Rightarrow> digest" where
  "digest_bytes body = sha256_hex body"

definition parse_digest_name :: "string \<Rightarrow> digest option" where
  "parse_digest_name s = (case parse_digest s of Inl _ \<Rightarrow> None | Inr d \<Rightarrow> Some d)"

definition digest_valid :: "digest \<Rightarrow> bool" where
  "digest_valid d \<longleftrightarrow> length d = digest_len \<and> list_all lower_hex d"

definition digest_prefixed :: "digest \<Rightarrow> string" where
  "digest_prefixed d = ''sha256:'' @ d"

lemma ord_char_of: "n < 256 \<Longrightarrow> ord (char_of n) = n"
  by (simp add: ord_def)

lemma lower_of_upper_hex: "upper_hex c \<Longrightarrow> lower_hex (char_of (ord c + 32))"
  by (simp add: upper_hex_def lower_hex_def ord_char_of)

lemma normalise_hex_lower: "normalise_hex s = Some d \<Longrightarrow> list_all lower_hex d \<and> length d = length s"
  by (induction s arbitrary: d) (auto split: if_splits simp: lower_of_upper_hex)

lemma normalise_hex_id: "list_all lower_hex s \<Longrightarrow> normalise_hex s = Some s"
  by (induction s) auto

lemma lower_hex_not_special:
  "lower_hex c \<Longrightarrow> c \<noteq> CHR ''/'' \<and> c \<noteq> CHR '':'' \<and> c \<noteq> CHR ''.'' \<and> c \<noteq> CHR 0x5C \<and> c \<noteq> CHR 0x00"
  by (auto simp: lower_hex_def ord_def)

lemma parse_hex64_valid: "parse_hex64 s = Inr d \<Longrightarrow> digest_valid d"
  by (auto simp: parse_hex64_def digest_valid_def dest: normalise_hex_lower split: if_splits option.splits)

lemma parse_digest_valid: "parse_digest s = Inr d \<Longrightarrow> digest_valid d"
  by (auto simp: parse_digest_def dest: parse_hex64_valid split: option.splits if_splits)

lemma valid_no_special:
  "digest_valid d \<Longrightarrow> CHR ''/'' \<notin> set d \<and> CHR '':'' \<notin> set d \<and> CHR ''.'' \<notin> set d"
  using lower_hex_not_special by (fastforce simp: digest_valid_def list_all_iff)

lemma parse_digest_id: "digest_valid d \<Longrightarrow> parse_digest d = Inr d"
proof -
  assume v: "digest_valid d"
  then have "cut d '':'' = None" by (simp add: cut_None_char valid_no_special)
  with v show ?thesis
    by (simp add: parse_digest_def parse_hex64_def digest_valid_def normalise_hex_id)
qed

lemma parse_digest_prefixed: "digest_valid d \<Longrightarrow> parse_digest (digest_prefixed d) = Inr d"
proof -
  assume v: "digest_valid d"
  have "cut (''sha256'' @ CHR '':'' # d) '':'' = Some (''sha256'', d)"
    by (rule cut_append_char) simp
  with v show ?thesis
    by (simp add: parse_digest_def digest_prefixed_def parse_hex64_def digest_valid_def normalise_hex_id)
qed

lemma digest_bytes_valid [simp]: "digest_valid (digest_bytes m)"
  by (simp add: digest_valid_def digest_bytes_def digest_len_def lower_hex_sha256)

lemma digest_valid_nonempty: "digest_valid d \<Longrightarrow> d \<noteq> []"
  by (auto simp: digest_valid_def digest_len_def)

end
