(* ===== verification/Blob.thy ===== *)
theory Blob
  imports Digest
begin

text \<open>
  Package blob (go/internal/blob): the content-addressed store
  (store.go) and its writers (writer.go). The store's state is the file system of theory
  Fs under its root; a writer is the open staging file it belongs to. The theorems say
  that a digest parsed from the network names one plain path component, that every state
  the store reaches holds, under each digest, exactly bytes with that digest, and that
  published bytes never change in place, crashes included.
\<close>

section \<open>store.go\<close>

record stat =
  st_size :: int64
  st_mtime :: gotime

record store =
  so_root :: path
  so_blobs :: path
  so_staging :: path
  so_managed :: path

definition blob_mode :: nat where
  "blob_mode = 420"

definition stat_of :: "inode \<Rightarrow> stat" where
  "stat_of i = \<lparr>st_size = int (length (ino_data i)), st_mtime = ino_mtime i\<rparr>"

text \<open>\<open>rt\<close> is what filepath.Abs made of the configured root.\<close>

definition store_open :: "faults \<Rightarrow> path \<Rightarrow> fs \<Rightarrow> fs \<times> (blob_error + store)" where
  "store_open flt rt s =
     (if flt SysAbs then (s, Inl (ErrBlobIO SysAbs))
      else
        let st = \<lparr>so_root = rt, so_blobs = join_seg (join_seg rt ''blobs'') ''sha256'',
                  so_staging = join_seg (join_seg rt ''blobs'') ''staging'',
                  so_managed = join_seg rt ''managed''\<rparr>
        in case mkdir_all flt (so_blobs st) s of
             None \<Rightarrow> (s, Inl (ErrBlobIO SysMkdir))
           | Some s1 \<Rightarrow> (case mkdir_all flt (so_staging st) s1 of
               None \<Rightarrow> (s1, Inl (ErrBlobIO SysMkdir))
             | Some s2 \<Rightarrow> (case mkdir_all flt (so_managed st) s2 of
                 None \<Rightarrow> (s2, Inl (ErrBlobIO SysMkdir))
               | Some s3 \<Rightarrow> (s3, Inr st))))"

definition store_path :: "store \<Rightarrow> digest \<Rightarrow> blob_error + path" where
  "store_path st d =
     (if \<not> digest_valid d then Inl ErrInvalidDigest
      else Inr (join_seg (join_seg (join_seg (so_blobs st) (take 2 d)) (take 2 (drop 2 d))) d))"

text \<open>os.Stat of a path: \<open>None\<close> is any error, \<open>Some None\<close> a directory.\<close>

definition os_stat :: "faults \<Rightarrow> fs \<Rightarrow> path \<Rightarrow> inode option option" where
  "os_stat flt s p =
     (if flt SysStat then None
      else case lookup_name s p of
             Some i \<Rightarrow> Some (Some (fs_inodes s i))
           | None \<Rightarrow> if p \<in> set (fs_dirs s) then Some None else None)"

definition blob_open :: "faults \<Rightarrow> store \<Rightarrow> fs \<Rightarrow> digest \<Rightarrow> blob_error + string \<times> stat" where
  "blob_open flt st s d =
     (case store_path st d of
        Inl e \<Rightarrow> Inl e
      | Inr p \<Rightarrow>
          if flt SysOpen then Inl (ErrBlobIO SysOpen)
          else case lookup_name s p of
                 None \<Rightarrow> Inl (if p \<in> set (fs_dirs s) then ErrBlobIO SysOpen else ErrBlobNotFound d)
               | Some i \<Rightarrow>
                   if flt SysStat then Inl (ErrBlobIO SysStat)
                   else Inr (ino_data (fs_inodes s i), stat_of (fs_inodes s i)))"

definition blob_stat :: "faults \<Rightarrow> store \<Rightarrow> fs \<Rightarrow> digest \<Rightarrow> stat option" where
  "blob_stat flt st s d =
     (case store_path st d of
        Inl _ \<Rightarrow> None
      | Inr p \<Rightarrow> (case os_stat flt s p of
          None \<Rightarrow> None
        | Some None \<Rightarrow> None
        | Some (Some i) \<Rightarrow> Some (stat_of i)))"

definition blob_exists :: "faults \<Rightarrow> store \<Rightarrow> fs \<Rightarrow> digest \<Rightarrow> bool" where
  "blob_exists flt st s d \<longleftrightarrow> blob_stat flt st s d \<noteq> None"

definition blob_delete :: "faults \<Rightarrow> store \<Rightarrow> fs \<Rightarrow> digest \<Rightarrow> fs \<times> (blob_error + unit)" where
  "blob_delete flt st s d =
     (case store_path st d of
        Inl e \<Rightarrow> (s, Inl e)
      | Inr p \<Rightarrow> (case os_remove flt p s of
          (s', r) \<Rightarrow> if r = IoOk \<or> r = IoNotExist then (s', Inr ()) else (s', Inl (ErrBlobIO SysRemove))))"

text \<open>
  WithBlob and DeleteIf hold the lifecycle lock around their callback, so the callback's
  own effect on the state it closes over is a function of that state (\<open>'x\<close>).
\<close>

definition with_blob ::
  "(blob_error \<Rightarrow> 'e) \<Rightarrow> faults \<Rightarrow> store \<Rightarrow> fs \<Rightarrow> digest \<Rightarrow> (stat \<Rightarrow> 'x \<Rightarrow> 'x \<times> ('e + unit)) \<Rightarrow> 'x
     \<Rightarrow> 'x \<times> ('e + unit)" where
  "with_blob wrap flt st s d publish x =
     (case blob_stat flt st s d of
        None \<Rightarrow> (x, Inl (wrap (ErrBlobNotFound d)))
      | Some m \<Rightarrow> publish m x)"

definition delete_if ::
  "(blob_error \<Rightarrow> 'e) \<Rightarrow> faults \<Rightarrow> store \<Rightarrow> fs \<Rightarrow> digest \<Rightarrow> (stat \<Rightarrow> 'e + bool) \<Rightarrow> fs \<times> ('e + bool)" where
  "delete_if wrap flt st s d eligible =
     (case blob_stat flt st s d of
        None \<Rightarrow> (s, Inr False)
      | Some m \<Rightarrow> (case eligible m of
          Inl e \<Rightarrow> (s, Inl e)
        | Inr False \<Rightarrow> (s, Inr False)
        | Inr True \<Rightarrow> (case blob_delete flt st s d of
            (s', Inl e) \<Rightarrow> (s', Inl (wrap e))
          | (s', Inr _) \<Rightarrow> (s', Inr True))))"

text \<open>Walk visits the files below blobs/sha256 in path order; other names are skipped.\<close>

definition walk_entries :: "store \<Rightarrow> fs \<Rightarrow> (digest \<times> stat) list" where
  "walk_entries st s =
     List.map_filter
       (\<lambda>(p, i). map_option (\<lambda>d. (d, stat_of (fs_inodes s i))) (parse_digest_name (path_base p)))
       (sort_key fst (filter (\<lambda>(p, i). under (so_blobs st) p) (fs_names s)))"

definition walk :: "(digest \<times> stat \<Rightarrow> 'x \<Rightarrow> 'e + 'x) \<Rightarrow> store \<Rightarrow> fs \<Rightarrow> 'x \<Rightarrow> 'e + 'x" where
  "walk fn st s x = fold_res fn (walk_entries st s) x"

definition usage :: "store \<Rightarrow> fs \<Rightarrow> 'e + int64 \<times> int64" where
  "usage st s = walk (\<lambda>(d, m) (count, bytes). Inr (count + 1, bytes + st_size m)) st s (0, 0)"

text \<open>CleanStaging removes the direct children of the staging directory that end in .part.\<close>

definition staging_parts :: "store \<Rightarrow> fs \<Rightarrow> path list" where
  "staging_parts st s =
     filter (\<lambda>p. path_dir p = so_staging st \<and> p \<noteq> [] \<and> has_suffix (path_base p) ''.part'')
       (sort (map fst (fs_names s)))"

fun remove_all :: "faults \<Rightarrow> path list \<Rightarrow> fs \<Rightarrow> fs \<times> nat" where
  "remove_all flt [] s = (s, 0)"
| "remove_all flt (p # ps) s =
     (case os_remove flt p s of (s1, r) \<Rightarrow>
       (case remove_all flt ps s1 of (s2, n) \<Rightarrow> (s2, (if r = IoOk then Suc n else n))))"

definition clean_staging :: "faults \<Rightarrow> store \<Rightarrow> fs \<Rightarrow> fs \<times> (blob_error + nat)" where
  "clean_staging flt st s =
     (if flt SysReadDir then (s, Inl (ErrBlobIO SysReadDir))
      else if so_staging st \<notin> set (fs_dirs s) then (s, Inr 0)
      else case remove_all flt (staging_parts st s) s of (s', n) \<Rightarrow> (s', Inr n))"

definition safe_segment :: "string \<Rightarrow> blob_error + unit" where
  "safe_segment s =
     (if s = [] \<or> s = ''.'' \<or> s = ''..'' then Inl (ErrInvalidSegment s)
      else if CHR ''/'' \<in> set s \<or> CHR 0x5C \<in> set s \<or> CHR 0x00 \<in> set s then Inl (ErrInvalidSegment s)
      else Inr ())"

definition managed_dir :: "faults \<Rightarrow> store \<Rightarrow> fs \<Rightarrow> string \<Rightarrow> string \<Rightarrow> fs \<times> (blob_error + path)" where
  "managed_dir flt st s eco project =
     (case safe_segment eco of
        Inl e \<Rightarrow> (s, Inl e)
      | Inr _ \<Rightarrow> (case safe_segment project of
          Inl e \<Rightarrow> (s, Inl e)
        | Inr _ \<Rightarrow>
            let p = join_seg (join_seg (so_managed st) eco) project
            in case mkdir_all flt p s of
                 None \<Rightarrow> (s, Inl (ErrBlobIO SysMkdir))
               | Some s' \<Rightarrow> (s', Inr p)))"

section \<open>writer.go\<close>

text \<open>
  The hash state of a writer is the bytes hashed so far (\<open>w_hashed\<close>); its digest is theirs.
\<close>

record writer =
  w_name :: path
  w_ino :: nat
  w_hashed :: string
  w_written :: int64
  w_closed :: bool

text \<open>
  os.CreateTemp picks an unused name; \<open>rnd\<close> is the random part it drew. A fresh staging
  file has mode 0600 and is not durable yet.
\<close>

definition writer_create :: "faults \<Rightarrow> store \<Rightarrow> fs \<Rightarrow> string \<Rightarrow> gotime \<Rightarrow> fs \<times> (blob_error + writer)" where
  "writer_create flt st s rnd now =
     (let p = so_staging st @ [rnd @ ''.part'']
      in if flt SysCreateTemp \<or> CHR ''/'' \<in> set rnd \<or> lookup_name s p \<noteq> None \<or> p \<in> set (fs_dirs s)
         then (s, Inl (ErrBlobIO SysCreateTemp))
         else (new_file p \<lparr>ino_data = [], ino_mtime = now, ino_mode = 384, ino_synced = False\<rparr> s,
               Inr \<lparr>w_name = p, w_ino = fs_next s, w_hashed = [], w_written = 0, w_closed = False\<rparr>))"

text \<open>
  Write: the file accepts the first \<open>n\<close> bytes; it reports an error when that is not all
  of them. Exactly the accepted bytes are hashed and counted.
\<close>

definition writer_write ::
  "nat \<Rightarrow> gotime \<Rightarrow> fs \<Rightarrow> writer \<Rightarrow> string \<Rightarrow> fs \<times> writer \<times> (blob_error + unit) \<times> nat" where
  "writer_write accept now s w p =
     (if w_closed w then (s, w, Inl ErrWriteAfterClose, 0)
      else
        let n = min accept (length p);
            s' = (if n > 0
                  then set_inode (w_ino w)
                         (\<lambda>i. i\<lparr>ino_data := ino_data i @ take n p, ino_mtime := now, ino_synced := False\<rparr>) s
                  else s);
            w' = (if n > 0 then w\<lparr>w_hashed := w_hashed w @ take n p, w_written := w_written w + int n\<rparr> else w)
        in (s', w', if n < length p then Inl (ErrBlobIO SysCopy) else Inr (), n))"

definition writer_digest :: "writer \<Rightarrow> digest" where
  "writer_digest w = digest_bytes (w_hashed w)"

text \<open>
  commit, with the file-system states it goes through: the list starts with the state
  commit was called in and ends with the state it leaves, so a crash during the commit
  finds one of them. \<open>os.Remove(staging)\<close> may fail, which leaves the staging file behind.
\<close>

definition drop_staging :: "faults \<Rightarrow> writer \<Rightarrow> fs \<Rightarrow> fs" where
  "drop_staging flt w s = fst (os_remove flt (w_name w) s)"

definition publish_name ::
  "bool \<Rightarrow> faults \<Rightarrow> gotime \<Rightarrow> path \<Rightarrow> path \<Rightarrow> fs \<Rightarrow> fs list \<times> io \<times> io" where
  "publish_name refresh flt now staging target s =
     (case os_link flt staging target s of (s1, link) \<Rightarrow>
        if link = IoOk then ([s1], IoOk, if flt SysSyncDir then IoFail else IoOk)
        else if link = IoExist then
          (if refresh then
             (case os_chtimes flt target now s1 of (s2, r) \<Rightarrow>
                ([s1, s2], IoExist, if r = IoNotExist then IoOk else r))
           else ([s1], IoExist, IoOk))
        else ([s1], link, IoOk))"

definition commit_run ::
  "bool \<Rightarrow> faults \<Rightarrow> gotime \<Rightarrow> store \<Rightarrow> fs \<Rightarrow> writer \<Rightarrow> fs list \<times> writer \<times> (blob_error + digest \<times> int64)" where
  "commit_run refresh flt now st s w =
     (if w_closed w then ([s], w, Inl ErrCommitAfterClose)
      else
        let w' = w\<lparr>w_closed := True\<rparr>; drop = drop_staging flt w; d = writer_digest w
        in if flt SysSync then ([s, drop s], w', Inl (ErrBlobIO SysSync))
           else
             let s1 = fsync_inode (w_ino w) s
             in if flt SysClose then ([s, s1, drop s1], w', Inl (ErrBlobIO SysClose))
                else case store_path st d of
                       Inl e \<Rightarrow> ([s, s1, drop s1], w', Inl e)
                     | Inr target \<Rightarrow> (case mkdir_all flt (path_dir target) s1 of
                         None \<Rightarrow> ([s, s1, drop s1], w', Inl (ErrBlobIO SysMkdir))
                       | Some s2 \<Rightarrow>
                           if flt SysChmod then ([s, s1, s2, drop s2], w', Inl (ErrBlobIO SysChmod))
                           else
                             let s3 = os_chmod (w_name w) blob_mode s2
                             in case publish_name refresh flt now (w_name w) target s3 of
                                  (ss, link, pub) \<Rightarrow>
                                    let sl = last ss; tr = [s, s1, s2, s3] @ ss @ [drop sl]
                                    in if link = IoOk then
                                         (if pub \<noteq> IoOk then (tr, w', Inl (ErrBlobIO SysSyncDir))
                                          else (tr, w', Inr (d, w_written w)))
                                       else if link = IoExist then
                                         (if pub \<noteq> IoOk then (tr, w', Inl (ErrBlobIO SysChtimes))
                                          else (tr, w', Inr (d, w_written w)))
                                       else (tr, w', Inl (ErrBlobIO SysLink))))"

definition writer_commit_with ::
  "bool \<Rightarrow> faults \<Rightarrow> gotime \<Rightarrow> store \<Rightarrow> fs \<Rightarrow> writer \<Rightarrow> fs \<times> writer \<times> (blob_error + digest \<times> int64)" where
  "writer_commit_with refresh flt now st s w =
     (case commit_run refresh flt now st s w of (tr, w', r) \<Rightarrow> (last tr, w', r))"

definition writer_commit ::
  "faults \<Rightarrow> gotime \<Rightarrow> store \<Rightarrow> fs \<Rightarrow> writer \<Rightarrow> fs \<times> writer \<times> (blob_error + digest \<times> int64)" where
  "writer_commit = writer_commit_with True"

definition writer_commit_imported ::
  "faults \<Rightarrow> gotime \<Rightarrow> store \<Rightarrow> fs \<Rightarrow> writer \<Rightarrow> fs \<times> writer \<times> (blob_error + digest \<times> int64)" where
  "writer_commit_imported = writer_commit_with False"

definition writer_abort :: "faults \<Rightarrow> fs \<Rightarrow> writer \<Rightarrow> fs \<times> writer \<times> (blob_error + unit)" where
  "writer_abort flt s w =
     (if w_closed w then (s, w, Inr ())
      else case os_remove flt (w_name w) s of
             (s', r) \<Rightarrow> (s', w\<lparr>w_closed := True\<rparr>,
                         if r = IoOk \<or> r = IoNotExist then Inr () else Inl (ErrBlobIO SysRemove)))"

text \<open>
  ImportKnown trusts the caller's digest. A source on the same file system becomes a hard
  link; on another one (\<open>SysCrossDevice\<close>) it is copied through a temporary, and
  \<open>copied\<close> is what that copy read.
\<close>

definition import_known ::
  "faults \<Rightarrow> gotime \<Rightarrow> store \<Rightarrow> fs \<Rightarrow> digest \<Rightarrow> path \<Rightarrow> string \<Rightarrow> string \<Rightarrow> fs \<times> (blob_error + stat)" where
  "import_known flt now st s d source copied rnd =
     (if \<not> digest_valid d then (s, Inl ErrInvalidDigest)
      else case os_stat flt s source of
        None \<Rightarrow> (s, Inl (ErrBlobIO SysStat))
      | Some None \<Rightarrow> (s, Inl (ErrImportNotRegular source))
      | Some (Some info) \<Rightarrow>
        (case store_path st d of
          Inl e \<Rightarrow> (s, Inl e)
        | Inr target \<Rightarrow>
          (case mkdir_all flt (path_dir target) s of
            None \<Rightarrow> (s, Inl (ErrBlobIO SysMkdir))
          | Some s1 \<Rightarrow>
            (case lookup_name s1 target of
              Some i \<Rightarrow>
                if st_size (stat_of (fs_inodes s1 i)) \<noteq> st_size (stat_of info)
                then (s1, Inl (ErrImportSize d (st_size (stat_of (fs_inodes s1 i))) (st_size (stat_of info))))
                else (s1, Inr (stat_of (fs_inodes s1 i)))
            | None \<Rightarrow>
              if \<not> flt SysCrossDevice then
                (case os_link flt source target s1 of (s2, r) \<Rightarrow>
                   if r = IoOk then
                     (if flt SysSyncDir then (fst (os_remove flt target s2), Inl (ErrBlobIO SysSyncDir))
                      else (s2, Inr (stat_of info)))
                   else (s2, Inl (ErrBlobIO SysLink)))
              else if flt SysOpen then (s1, Inl (ErrBlobIO SysOpen))
              else
                let tmp = path_dir target @ [''.import-'' @ rnd]
                in if flt SysCreateTemp \<or> lookup_name s1 tmp \<noteq> None then (s1, Inl (ErrBlobIO SysCreateTemp))
                   else
                     let i = fs_next s1;
                         s2 = new_file tmp \<lparr>ino_data = copied, ino_mtime = now, ino_mode = 384,
                                            ino_synced = False\<rparr> s1;
                         done = (\<lambda>x. fst (os_remove flt tmp x))
                     in if flt SysCopy \<or> flt SysSync \<or> flt SysClose then (done s2, Inl (ErrBlobIO SysCopy))
                        else if int (length copied) \<noteq> st_size (stat_of info)
                        then (done (fsync_inode i s2), Inl (ErrSourceChanged source))
                        else if flt SysChmod then (done (fsync_inode i s2), Inl (ErrBlobIO SysChmod))
                        else
                          (case os_link flt tmp target (os_chmod tmp blob_mode (fsync_inode i s2)) of
                            (s3, r) \<Rightarrow>
                              if r \<noteq> IoOk \<and> r \<noteq> IoExist then (done s3, Inl (ErrBlobIO SysLink))
                              else if flt SysSyncDir then (done s3, Inl (ErrBlobIO SysSyncDir))
                              else (done s3, Inr \<lparr>st_size = int (length copied), st_mtime = ino_mtime info\<rparr>))))))"


section \<open>Paths of digests\<close>

definition store_wf :: "store \<Rightarrow> bool" where
  "store_wf st \<longleftrightarrow>
     so_blobs st = so_root st @ [''blobs'', ''sha256''] \<and>
     so_staging st = so_root st @ [''blobs'', ''staging''] \<and>
     so_managed st = so_root st @ [''managed'']"

lemma store_open_wf: "store_open flt rt s = (s', Inr st) \<Longrightarrow> store_wf st \<and> so_root st = rt"
  by (auto simp: store_open_def store_wf_def plain_seg_def Let_def split: if_splits option.splits)

lemma plain_seg_hex: "list_all lower_hex s \<Longrightarrow> s \<noteq> [] \<Longrightarrow> plain_seg s"
  using lower_hex_not_special by (fastforce simp: plain_seg_def list_all_iff)

lemma valid_parts:
  assumes "digest_valid d"
  shows "plain_seg d" "plain_seg (take 2 d)" "plain_seg (take 2 (drop 2 d))"
proof -
  have l: "list_all lower_hex d" and n: "length d = 64"
    using assms by (auto simp: digest_valid_def digest_len_def)
  have "list_all lower_hex (take 2 d)" "list_all lower_hex (take 2 (drop 2 d))"
    using l by (auto simp: list_all_iff dest: in_set_takeD in_set_dropD)
  moreover have "take 2 d \<noteq> []" "take 2 (drop 2 d) \<noteq> []" "d \<noteq> []" using n by auto
  ultimately show "plain_seg d" "plain_seg (take 2 d)" "plain_seg (take 2 (drop 2 d))"
    using l by (auto intro: plain_seg_hex)
qed

lemma store_path_valid:
  "digest_valid d \<Longrightarrow> store_path st d = Inr (so_blobs st @ [take 2 d, take 2 (drop 2 d), d])"
  by (simp add: store_path_def valid_parts)

lemma store_path_Inr_iff:
  "store_path st d = Inr p \<longleftrightarrow> digest_valid d \<and> p = so_blobs st @ [take 2 d, take 2 (drop 2 d), d]"
  by (cases "digest_valid d") (auto simp: store_path_valid, simp add: store_path_def)

lemma store_path_inj: "store_path st d = Inr p \<Longrightarrow> store_path st e = Inr p \<Longrightarrow> d = e"
  by (simp add: store_path_Inr_iff)

lemma store_path_under: "store_path st d = Inr p \<Longrightarrow> under (so_blobs st) p"
  by (auto simp: store_path_Inr_iff)

lemma staging_not_under: "store_wf st \<Longrightarrow> \<not> under (so_blobs st) (so_staging st @ [x])"
  by (auto simp: store_wf_def under_def)

section \<open>Integrity of the store\<close>

definition fs_inv :: "store \<Rightarrow> fs \<Rightarrow> bool" where
  "fs_inv st s \<longleftrightarrow>
     (\<forall>p i. lookup_name s p = Some i \<longrightarrow> i < fs_next s) \<and>
     (\<forall>p i. lookup_name s p = Some i \<longrightarrow> under (so_blobs st) p \<longrightarrow>
        ino_synced (fs_inodes s i) \<and> store_path st (digest_bytes (ino_data (fs_inodes s i))) = Inr p)"

definition same_content :: "fs \<Rightarrow> fs \<Rightarrow> bool" where
  "same_content s t \<longleftrightarrow>
     (\<forall>i. ino_data (fs_inodes t i) = ino_data (fs_inodes s i)
        \<and> (ino_synced (fs_inodes s i) \<longrightarrow> ino_synced (fs_inodes t i)))"

definition shrinks :: "fs \<Rightarrow> fs \<Rightarrow> bool" where
  "shrinks s t \<longleftrightarrow>
     same_content s t \<and> fs_next t = fs_next s
     \<and> (\<forall>q i. lookup_name t q = Some i \<longrightarrow> lookup_name s q = Some i)"

lemma shrinks_refl [simp]: "shrinks s s"
  by (simp add: shrinks_def same_content_def)

lemma shrinks_trans: "shrinks s t \<Longrightarrow> shrinks t u \<Longrightarrow> shrinks s u"
  by (auto simp: shrinks_def same_content_def)

lemma shrinks_inv: "fs_inv st s \<Longrightarrow> shrinks s t \<Longrightarrow> fs_inv st t"
  unfolding fs_inv_def shrinks_def same_content_def by fastforce

lemma shrinks_remove: "os_remove flt p s = (t, r) \<Longrightarrow> shrinks s t"
  unfolding shrinks_def same_content_def
  by (auto dest: os_remove_frame simp: os_remove_lookup split: if_splits)

lemma shrinks_drop [simp]: "shrinks s (drop_staging flt w s)"
  unfolding drop_staging_def by (metis prod.collapse shrinks_remove)

lemma shrinks_fsync [simp]: "shrinks s (fsync_inode i s)"
  by (simp add: shrinks_def same_content_def fsync_inode_def)

lemma shrinks_mkdir: "mkdir_all flt p s = Some t \<Longrightarrow> shrinks s t"
  by (auto simp: shrinks_def same_content_def lookup_mkdir_all dest: mkdir_all_frame)

lemma shrinks_chmod [simp]: "shrinks s (os_chmod p m s)"
  by (simp add: shrinks_def same_content_def)

lemma shrinks_chtimes: "os_chtimes flt p m s = (t, r) \<Longrightarrow> shrinks s t"
  using os_chtimes_frame [of flt p m s t r] by (simp add: shrinks_def same_content_def)

lemma link_inv:
  assumes "os_link flt src dst s = (t, r)" and "fs_inv st s"
    and "lookup_name s src = Some i" and "ino_synced (fs_inodes s i)"
    and "store_path st (digest_bytes (ino_data (fs_inodes s i))) = Inr dst"
  shows "fs_inv st t"
  using assms os_link_frame [OF assms(1)] os_link_lookup [OF assms(1)]
  unfolding fs_inv_def by (auto split: if_splits)

text \<open>An open writer: its staging file is its own, and holds what it hashed.\<close>

definition writer_ok :: "store \<Rightarrow> fs \<Rightarrow> writer \<Rightarrow> bool" where
  "writer_ok st s w \<longleftrightarrow>
     w_ino w < fs_next s \<and> (\<exists>x. w_name w = so_staging st @ [x])
     \<and> (\<forall>p. lookup_name s p = Some (w_ino w) \<longleftrightarrow> p = w_name w)
     \<and> ino_data (fs_inodes s (w_ino w)) = w_hashed w \<and> w_written w = int (length (w_hashed w))"

lemma publish_inv:
  assumes "publish_name refresh flt now src dst s = (ss, link, pub)" and "fs_inv st s"
    and "lookup_name s src = Some i" and "ino_synced (fs_inodes s i)"
    and "store_path st (digest_bytes (ino_data (fs_inodes s i))) = Inr dst"
  shows "list_all (fs_inv st) ss \<and> ss \<noteq> []"
proof -
  obtain s1 l where l: "os_link flt src dst s = (s1, l)" by fastforce
  have "fs_inv st s1" using link_inv [OF l assms(2-5)] .
  then show ?thesis using assms(1) l
    by (auto simp: publish_name_def split: if_splits prod.splits dest!: shrinks_chtimes intro: shrinks_inv)
qed

lemma commit_trace_nonempty: "fst (commit_run refresh flt now st s w) \<noteq> []"
  by (auto simp: commit_run_def Let_def split: sum.splits option.splits prod.splits)

lemma commit_trace_inv:
  assumes "fs_inv st s" and "writer_ok st s w \<or> w_closed w"
  shows "list_all (fs_inv st) (fst (commit_run refresh flt now st s w))"
proof (cases "w_closed w")
  case True
  then show ?thesis using assms by (simp add: commit_run_def)
next
  case False
  with assms have ok: "writer_ok st s w" by simp
  let ?s1 = "fsync_inode (w_ino w) s"
  have d [simp]: "fs_inv st t \<Longrightarrow> fs_inv st (drop_staging flt w t)" for t
    by (rule shrinks_inv [OF _ shrinks_drop])
  have i1: "fs_inv st ?s1" by (rule shrinks_inv [OF assms(1)]) simp
  have body: "list_all (fs_inv st) ([s, ?s1, s2, os_chmod (w_name w) blob_mode s2] @ ss @ [drop_staging flt w (last ss)])"
    if m: "mkdir_all flt (path_dir target) ?s1 = Some s2"
      and t: "store_path st (writer_digest w) = Inr target"
      and p: "publish_name refresh flt now (w_name w) target (os_chmod (w_name w) blob_mode s2) = (ss, link, pub)"
    for s2 target ss link pub
  proof -
    let ?s3 = "os_chmod (w_name w) blob_mode s2"
    have i2: "fs_inv st s2" using i1 m by (blast intro: shrinks_inv shrinks_mkdir)
    then have i3: "fs_inv st ?s3" by (rule shrinks_inv) simp
    have n: "lookup_name ?s3 (w_name w) = Some (w_ino w)"
      using ok m by (simp add: writer_ok_def lookup_mkdir_all)
    have y: "ino_synced (fs_inodes ?s3 (w_ino w))"
      and "ino_data (fs_inodes ?s3 (w_ino w)) = w_hashed w"
      using ok mkdir_all_frame [OF m] by (simp_all add: writer_ok_def fsync_inode_def)
    then have "store_path st (digest_bytes (ino_data (fs_inodes ?s3 (w_ino w)))) = Inr target"
      using t by (simp only: writer_digest_def)
    from publish_inv [OF p i3 n y this] have "list_all (fs_inv st) ss \<and> ss \<noteq> []" .
    with i1 i2 i3 assms(1) show ?thesis by (simp add: list_all_iff)
  qed
  show ?thesis
    using False assms(1) i1 body shrinks_inv [OF i1 shrinks_mkdir]
    by (auto simp: commit_run_def Let_def split: sum.splits option.splits prod.splits)
qed


section \<open>The store at work: writers, deletions, crashes\<close>

record blob_sys =
  bs_fs :: fs
  bs_writers :: "nat \<Rightarrow> writer option"

definition crash_of :: "fs \<Rightarrow> fs \<Rightarrow> bool" where
  "crash_of s t \<longleftrightarrow>
     fs_next t = fs_next s
     \<and> (\<forall>p i. lookup_name t p = Some i \<longrightarrow> lookup_name s p = Some i)
     \<and> (\<forall>i. ino_synced (fs_inodes s i) \<longrightarrow> fs_inodes t i = fs_inodes s i)"

inductive blob_step :: "store \<Rightarrow> blob_sys \<Rightarrow> blob_sys \<Rightarrow> bool" for st where
  step_create: "bs_writers s k = None \<Longrightarrow> writer_create flt st (bs_fs s) rnd now = (f, Inr w) \<Longrightarrow>
     blob_step st s (s\<lparr>bs_fs := f, bs_writers := (bs_writers s)(k \<mapsto> w)\<rparr>)"
| step_write: "bs_writers s k = Some w \<Longrightarrow> writer_write n now (bs_fs s) w p = (f, w', r, m) \<Longrightarrow>
     blob_step st s (s\<lparr>bs_fs := f, bs_writers := (bs_writers s)(k \<mapsto> w')\<rparr>)"
| step_commit: "bs_writers s k = Some w \<Longrightarrow>
     writer_commit_with refresh flt now st (bs_fs s) w = (f, w', r) \<Longrightarrow>
     blob_step st s (s\<lparr>bs_fs := f, bs_writers := (bs_writers s)(k \<mapsto> w')\<rparr>)"
| step_abort: "bs_writers s k = Some w \<Longrightarrow> writer_abort flt (bs_fs s) w = (f, w', r) \<Longrightarrow>
     blob_step st s (s\<lparr>bs_fs := f, bs_writers := (bs_writers s)(k \<mapsto> w')\<rparr>)"
| step_delete: "blob_delete flt st (bs_fs s) d = (f, r) \<Longrightarrow> blob_step st s (s\<lparr>bs_fs := f\<rparr>)"
| step_managed: "managed_dir flt st (bs_fs s) eco project = (f, r) \<Longrightarrow> blob_step st s (s\<lparr>bs_fs := f\<rparr>)"
| step_crash: "crash_of (bs_fs s) f \<Longrightarrow> blob_step st s \<lparr>bs_fs = f, bs_writers = (\<lambda>_. None)\<rparr>"
| step_crash_commit: "bs_writers s k = Some w \<Longrightarrow>
     g \<in> set (fst (commit_run refresh flt now st (bs_fs s) w)) \<Longrightarrow> crash_of g f \<Longrightarrow>
     blob_step st s \<lparr>bs_fs = f, bs_writers = (\<lambda>_. None)\<rparr>"
| step_startup: "bs_writers s = (\<lambda>_. None) \<Longrightarrow> clean_staging flt st (bs_fs s) = (f, r) \<Longrightarrow>
     blob_step st s (s\<lparr>bs_fs := f\<rparr>)"

inductive blob_reaches :: "store \<Rightarrow> blob_sys \<Rightarrow> blob_sys \<Rightarrow> bool" for st where
  reach_refl: "blob_reaches st s s"
| reach_step: "blob_reaches st s t \<Longrightarrow> blob_step st t u \<Longrightarrow> blob_reaches st s u"

definition sys_inv :: "store \<Rightarrow> blob_sys \<Rightarrow> bool" where
  "sys_inv st s \<longleftrightarrow>
     fs_inv st (bs_fs s) \<and>
     (\<forall>k w. bs_writers s k = Some w \<longrightarrow> \<not> w_closed w \<longrightarrow> writer_ok st (bs_fs s) w) \<and>
     (\<forall>j k v w. bs_writers s j = Some v \<longrightarrow> bs_writers s k = Some w \<longrightarrow> \<not> w_closed v \<longrightarrow> \<not> w_closed w
        \<longrightarrow> j \<noteq> k \<longrightarrow> w_ino v \<noteq> w_ino w)"

text \<open>Taking names away, other than a writer's own, leaves the writer as it was.\<close>

definition keeps_staging :: "store \<Rightarrow> fs \<Rightarrow> fs \<Rightarrow> bool" where
  "keeps_staging st s t \<longleftrightarrow> (\<forall>x. lookup_name t (so_staging st @ [x]) = lookup_name s (so_staging st @ [x]))"

lemma writer_ok_shrinks:
  "writer_ok st s w \<Longrightarrow> shrinks s t \<Longrightarrow> lookup_name t (w_name w) = lookup_name s (w_name w) \<Longrightarrow> writer_ok st t w"
proof -
  assume ok: "writer_ok st s w" and sh: "shrinks s t" and n: "lookup_name t (w_name w) = lookup_name s (w_name w)"
  have "lookup_name t p = Some (w_ino w) \<longleftrightarrow> p = w_name w" for p
    using ok sh n unfolding writer_ok_def shrinks_def by metis
  with ok sh show ?thesis by (simp add: writer_ok_def shrinks_def same_content_def)
qed

text \<open>What a commit does to every inode and name, whichever way it ends.\<close>

lemma publish_frame:
  assumes "publish_name refresh flt now src dst s = (ss, link, pub)"
  shows "\<forall>t \<in> set ss. same_content s t \<and> fs_next t = fs_next s
           \<and> (\<forall>q. q \<noteq> dst \<longrightarrow> lookup_name t q = lookup_name s q)
           \<and> (lookup_name t dst = lookup_name s dst
              \<or> lookup_name s dst = None \<and> lookup_name t dst = lookup_name s src)"
    and "ss \<noteq> []"
proof -
  obtain s1 l where l: "os_link flt src dst s = (s1, l)" by fastforce
  have f: "fs_inodes s1 = fs_inodes s" "fs_next s1 = fs_next s" using os_link_frame [OF l] by auto
  have n: "lookup_name s1 q = (if l = IoOk \<and> q = dst then lookup_name s src else lookup_name s q)" for q
    by (rule os_link_lookup [OF l])
  have o: "l = IoOk \<Longrightarrow> lookup_name s dst = None" using l os_link_Ok by blast
  have c: "os_chtimes flt dst now s1 = (s2, r) \<Longrightarrow>
             same_content s1 s2 \<and> fs_next s2 = fs_next s1 \<and> lookup_name s2 q = lookup_name s1 q" for s2 r q
    using os_chtimes_frame [of flt dst now s1 s2 r] by (simp add: same_content_def)
  show "\<forall>t \<in> set ss. same_content s t \<and> fs_next t = fs_next s
           \<and> (\<forall>q. q \<noteq> dst \<longrightarrow> lookup_name t q = lookup_name s q)
           \<and> (lookup_name t dst = lookup_name s dst
              \<or> lookup_name s dst = None \<and> lookup_name t dst = lookup_name s src)"
    using assms l f n o c
    by (auto simp: publish_name_def same_content_def split: if_splits prod.splits)
  show "ss \<noteq> []" using assms by (auto simp: publish_name_def split: if_splits prod.splits)
qed

definition commit_rel :: "store \<Rightarrow> writer \<Rightarrow> fs \<Rightarrow> fs \<Rightarrow> bool" where
  "commit_rel st w s t \<longleftrightarrow>
     same_content s t \<and> fs_next t = fs_next s
     \<and> (\<forall>q. q \<noteq> w_name w \<longrightarrow> \<not> under (so_blobs st) q \<longrightarrow> lookup_name t q = lookup_name s q)
     \<and> (\<forall>q. under (so_blobs st) q \<longrightarrow>
          lookup_name t q = lookup_name s q \<or> lookup_name s q = None \<and> lookup_name t q = lookup_name s (w_name w))
     \<and> (lookup_name t (w_name w) = None \<or> lookup_name t (w_name w) = lookup_name s (w_name w))"

lemma commit_rel_names:
  "same_content s t \<Longrightarrow> fs_next t = fs_next s \<Longrightarrow> (\<And>q. lookup_name t q = lookup_name s q) \<Longrightarrow> commit_rel st w s t"
  by (simp add: commit_rel_def)

lemma commit_rel_drop:
  assumes "commit_rel st w s t" and "\<not> under (so_blobs st) (w_name w)"
  shows "commit_rel st w s (drop_staging flt w t)"
proof -
  obtain u r where u: "os_remove flt (w_name w) t = (u, r)" by fastforce
  have "same_content s u" "fs_next u = fs_next s"
    using assms os_remove_frame [OF u] by (auto simp: commit_rel_def same_content_def)
  with assms show ?thesis
    unfolding commit_rel_def drop_staging_def u fst_conv os_remove_lookup [OF u] by auto
qed

lemma commit_rel_publish:
  assumes "publish_name refresh flt now (w_name w) target s3 = (ss, link, pub)"
    and "commit_rel st w s s3" and "\<And>q. lookup_name s3 q = lookup_name s q"
    and "under (so_blobs st) target" and "\<not> under (so_blobs st) (w_name w)" and "t \<in> set ss"
  shows "commit_rel st w s t"
proof -
  have "same_content s3 t" "fs_next t = fs_next s3"
    and n: "\<And>q. q \<noteq> target \<Longrightarrow> lookup_name t q = lookup_name s3 q"
    and d: "lookup_name t target = lookup_name s3 target
            \<or> lookup_name s3 target = None \<and> lookup_name t target = lookup_name s3 (w_name w)"
    using publish_frame(1) [OF assms(1)] assms(6) by auto
  then have "same_content s t" "fs_next t = fs_next s"
    using assms(2) by (auto simp: commit_rel_def same_content_def)
  moreover have "w_name w \<noteq> target" using assms(4,5) by auto
  ultimately show ?thesis
    unfolding commit_rel_def using n d assms(3,4,5) by metis
qed

lemma commit_frame:
  assumes "\<not> under (so_blobs st) (w_name w)"
  shows "\<forall>t \<in> set (fst (commit_run refresh flt now st s w)). commit_rel st w s t"
proof -
  let ?s1 = "fsync_inode (w_ino w) s"
  let ?ch = "\<lambda>s2. os_chmod (w_name w) blob_mode s2"
  have r0: "commit_rel st w s s" and r1: "commit_rel st w s ?s1"
    by (auto intro!: commit_rel_names simp: same_content_def fsync_inode_def)
  have r2: "commit_rel st w s s2 \<and> commit_rel st w s (?ch s2) \<and> lookup_name (?ch s2) q = lookup_name s q"
    if m: "mkdir_all flt p ?s1 = Some s2" for p s2 q
  proof -
    have "same_content s s2" "fs_next s2 = fs_next s" "\<And>q. lookup_name s2 q = lookup_name s q"
      using mkdir_all_frame [OF m] lookup_mkdir_all [OF m] r1 by (auto simp: commit_rel_def same_content_def)
    then show ?thesis by (auto intro!: commit_rel_names simp: same_content_def)
  qed
  have r3: "\<forall>t \<in> set ss. commit_rel st w s t" and r4: "commit_rel st w s (drop_staging flt w (last ss))"
    if m: "mkdir_all flt (path_dir target) ?s1 = Some s2" and t: "store_path st d = Inr target"
      and p: "publish_name refresh flt now (w_name w) target (?ch s2) = (ss, link, pub)" for target s2 ss link pub d
  proof -
    show a: "\<forall>t \<in> set ss. commit_rel st w s t"
      using commit_rel_publish [OF p, of st s] r2 [OF m] store_path_under [OF t] assms by blast
    have "last ss \<in> set ss" using publish_frame(2) [OF p] by simp
    with a show "commit_rel st w s (drop_staging flt w (last ss))"
      using commit_rel_drop assms by blast
  qed
  show ?thesis
    unfolding commit_run_def Let_def
    using r0 r1 r2 r3 r4 commit_rel_drop [OF _ assms]
    by (simp split: sum.split option.split prod.split)
qed

lemma writer_ok_commit:
  assumes "commit_rel st w s t" and "writer_ok st s v" and "writer_ok st s w"
    and "w_ino v \<noteq> w_ino w" and wf: "store_wf st"
  shows "writer_ok st t v"
proof -
  obtain x where x: "w_name v = so_staging st @ [x]" using assms(2) by (auto simp: writer_ok_def)
  then have nv: "\<not> under (so_blobs st) (w_name v)" using staging_not_under [OF wf] by simp
  have lw: "lookup_name s (w_name w) = Some (w_ino w)" and lv: "lookup_name s (w_name v) = Some (w_ino v)"
    and uv: "\<And>p. lookup_name s p = Some (w_ino v) \<Longrightarrow> p = w_name v"
    using assms(2,3) by (auto simp: writer_ok_def)
  have ne: "w_name v \<noteq> w_name w" using lw lv assms(4) by auto
  have "lookup_name t p = Some (w_ino v) \<longleftrightarrow> p = w_name v" for p
  proof
    assume "p = w_name v"
    with ne nv lv assms(1) show "lookup_name t p = Some (w_ino v)" by (simp add: commit_rel_def)
  next
    assume p: "lookup_name t p = Some (w_ino v)"
    show "p = w_name v"
      using p uv lw assms(1,4) unfolding commit_rel_def by (metis option.inject option.distinct(1))
  qed
  with assms(1,2) show ?thesis by (simp add: writer_ok_def commit_rel_def same_content_def)
qed

lemma writer_okD:
  assumes "writer_ok st s w"
  shows "w_ino w < fs_next s" "lookup_name s (w_name w) = Some (w_ino w)"
    "lookup_name s p = Some (w_ino w) \<Longrightarrow> p = w_name w"
  using assms by (simp_all add: writer_ok_def)

lemma writer_ok_not_under: "writer_ok st s w \<Longrightarrow> store_wf st \<Longrightarrow> \<not> under (so_blobs st) (w_name w)"
  unfolding writer_ok_def using staging_not_under by metis

lemma sys_invI:
  assumes "fs_inv st f"
    and "\<And>k w. ws k = Some w \<Longrightarrow> \<not> w_closed w \<Longrightarrow> writer_ok st f w"
    and "\<And>j k v w. ws j = Some v \<Longrightarrow> ws k = Some w \<Longrightarrow> \<not> w_closed v \<Longrightarrow> \<not> w_closed w \<Longrightarrow> j \<noteq> k \<Longrightarrow> w_ino v \<noteq> w_ino w"
  shows "sys_inv st \<lparr>bs_fs = f, bs_writers = ws\<rparr>"
  using assms unfolding sys_inv_def by (simp only: blob_sys.simps) blast

lemma sys_inv_no_writers: "fs_inv st f \<Longrightarrow> sys_inv st \<lparr>bs_fs = f, bs_writers = (\<lambda>_. None)\<rparr>"
  by (rule sys_invI) simp_all

lemma crash_inv: "fs_inv st s \<Longrightarrow> crash_of s t \<Longrightarrow> fs_inv st t"
  unfolding fs_inv_def crash_of_def by metis

lemma create_inv:
  assumes "sys_inv st s" and wf: "store_wf st"
    and c: "writer_create flt st (bs_fs s) rnd now = (f, Inr w)"
  shows "fs_inv st f" and "writer_ok st f w"
    and "\<And>v. writer_ok st (bs_fs s) v \<Longrightarrow> writer_ok st f v \<and> w_ino v \<noteq> w_ino w"
proof -
  let ?p = "so_staging st @ [rnd @ ''.part'']"
  let ?i = "\<lparr>ino_data = [], ino_mtime = now, ino_mode = 384, ino_synced = False\<rparr>"
  have f: "f = new_file ?p ?i (bs_fs s)" and n: "lookup_name (bs_fs s) ?p = None"
    and w: "w = \<lparr>w_name = ?p, w_ino = fs_next (bs_fs s), w_hashed = [], w_written = 0, w_closed = False\<rparr>"
    using c by (auto simp: writer_create_def Let_def split: if_splits)
  have inv: "fs_inv st (bs_fs s)" using assms(1) by (simp add: sys_inv_def)
  have old: "lookup_name (bs_fs s) p = Some i \<Longrightarrow> i < fs_next (bs_fs s)" for p i
    using inv by (simp add: fs_inv_def)
  have inos: "fs_inodes f i = (if i = fs_next (bs_fs s) then ?i else fs_inodes (bs_fs s) i)"
    and nx: "fs_next f = Suc (fs_next (bs_fs s))" for i
    by (simp_all add: f new_file_def)
  have lk: "lookup_name f q = (if q = ?p then Some (fs_next (bs_fs s)) else lookup_name (bs_fs s) q)" for q
    by (simp add: f)
  have np: "\<not> under (so_blobs st) ?p" using staging_not_under [OF wf] by simp
  show "fs_inv st f"
    unfolding fs_inv_def
  proof (intro conjI allI impI)
    fix p i assume p: "lookup_name f p = Some i"
    show "i < fs_next f" using p old lk nx by (fastforce split: if_splits)
    assume u: "under (so_blobs st) p"
    then have "p \<noteq> ?p" using np by metis
    then have q: "lookup_name (bs_fs s) p = Some i" using p lk by simp
    then have "i \<noteq> fs_next (bs_fs s)" using old by fastforce
    then show "ino_synced (fs_inodes f i)" "store_path st (digest_bytes (ino_data (fs_inodes f i))) = Inr p"
      using q u inv by (simp_all add: inos fs_inv_def)
  qed
  have "lookup_name f q = Some (fs_next (bs_fs s)) \<longleftrightarrow> q = ?p" for q
    using old [of q "fs_next (bs_fs s)"] by (auto simp: lk)
  then show "writer_ok st f w" by (simp add: writer_ok_def w nx inos)
  fix v assume v: "writer_ok st (bs_fs s) v"
  then have "w_ino v \<noteq> fs_next (bs_fs s)" "w_name v \<noteq> ?p"
    using n writer_okD(1,2) [OF v] by auto
  then show "writer_ok st f v \<and> w_ino v \<noteq> w_ino w"
    using v by (simp add: writer_ok_def w nx inos lk)
qed

lemma write_inv:
  assumes "fs_inv st s" and "writer_ok st s w" and "store_wf st" and o: "\<not> w_closed w"
    and c: "writer_write n now s w p = (f, w', r, m)"
  shows "fs_inv st f" and "writer_ok st f w'" and "w_ino w' = w_ino w"
    and "\<And>v. writer_ok st s v \<Longrightarrow> w_ino v \<noteq> w_ino w \<Longrightarrow> writer_ok st f v"
proof -
  have np: "\<not> under (so_blobs st) (w_name w)"
    by (rule writer_ok_not_under [OF assms(2,3)])
  have lk: "lookup_name f q = lookup_name s q" and nx: "fs_next f = fs_next s" for q
    using c o by (auto simp: writer_write_def Let_def)
  have ino: "i \<noteq> w_ino w \<Longrightarrow> fs_inodes f i = fs_inodes s i" for i
    using c o by (auto simp: writer_write_def Let_def)
  show "w_ino w' = w_ino w" using c o by (auto simp: writer_write_def Let_def)
  have "lookup_name s p = Some i \<Longrightarrow> under (so_blobs st) p \<Longrightarrow> i \<noteq> w_ino w" for p i
    using writer_okD(3) [OF assms(2)] np by metis
  then have "lookup_name s p = Some i \<Longrightarrow> under (so_blobs st) p \<Longrightarrow> fs_inodes f i = fs_inodes s i" for p i
    using ino by simp
  with assms(1) show "fs_inv st f" unfolding fs_inv_def lk nx by simp
  have d: "ino_data (fs_inodes s (w_ino w)) = w_hashed w" and l: "w_written w = int (length (w_hashed w))"
    using assms(2) by (simp_all add: writer_ok_def)
  have "w_name w' = w_name w" "w_ino w' = w_ino w"
    and "ino_data (fs_inodes f (w_ino w)) = w_hashed w'" "w_written w' = int (length (w_hashed w'))"
    using c o d l by (auto simp: writer_write_def Let_def)
  with assms(2) show "writer_ok st f w'" by (simp add: writer_ok_def lk nx)
  show "writer_ok st f v" if "writer_ok st s v" "w_ino v \<noteq> w_ino w" for v
    using that by (simp add: writer_ok_def lk nx ino)
qed

lemma shrinks_delete: "blob_delete flt st s d = (f, r) \<Longrightarrow> shrinks s f"
  by (auto simp: blob_delete_def split: sum.splits prod.splits if_splits dest: shrinks_remove)

lemma delete_keeps_staging:
  assumes "store_wf st" and "blob_delete flt st s d = (f, r)"
  shows "lookup_name f (so_staging st @ [x]) = lookup_name s (so_staging st @ [x])"
proof (cases "store_path st d")
  case (Inr p)
  then have "p \<noteq> so_staging st @ [x]"
    using store_path_under staging_not_under [OF assms(1)] by metis
  with Inr assms(2) show ?thesis
    by (auto simp: blob_delete_def os_remove_lookup split: prod.splits if_splits)
qed (use assms in \<open>simp add: blob_delete_def\<close>)

lemma shrinks_remove_all: "remove_all flt ps s = (f, n) \<Longrightarrow> shrinks s f"
proof (induction ps arbitrary: s n)
  case (Cons p ps)
  then show ?case by (auto split: prod.splits intro: shrinks_trans shrinks_remove)
qed simp

lemma shrinks_clean: "clean_staging flt st s = (f, r) \<Longrightarrow> shrinks s f"
  by (auto simp: clean_staging_def split: if_splits prod.splits dest: shrinks_remove_all)

lemma managed_frame:
  "managed_dir flt st s eco project = (f, r) \<Longrightarrow> shrinks s f \<and> lookup_name f q = lookup_name s q"
  by (auto simp: managed_dir_def Let_def lookup_mkdir_all shrinks_mkdir split: sum.splits option.splits)

lemma writers_after:
  assumes inv: "sys_inv st s" and k: "bs_writers s k = w0"
    and f: "fs_inv st f"
    and own: "\<not> w_closed w' \<Longrightarrow> writer_ok st f w'"
    and others: "\<And>j v. bs_writers s j = Some v \<Longrightarrow> j \<noteq> k \<Longrightarrow> \<not> w_closed v \<Longrightarrow> writer_ok st f v"
    and diff: "\<And>j v. bs_writers s j = Some v \<Longrightarrow> j \<noteq> k \<Longrightarrow> \<not> w_closed v \<Longrightarrow> \<not> w_closed w' \<Longrightarrow> w_ino v \<noteq> w_ino w'"
  shows "sys_inv st (s\<lparr>bs_fs := f, bs_writers := (bs_writers s)(k \<mapsto> w')\<rparr>)"
proof -
  have "sys_inv st \<lparr>bs_fs = f, bs_writers = (bs_writers s)(k \<mapsto> w')\<rparr>"
  proof (rule sys_invI [OF f])
    fix j v assume "((bs_writers s)(k \<mapsto> w')) j = Some v" "\<not> w_closed v"
    then show "writer_ok st f v" using own others by (auto split: if_splits)
  next
    fix i j v w
    assume "((bs_writers s)(k \<mapsto> w')) i = Some v" "((bs_writers s)(k \<mapsto> w')) j = Some w"
      "\<not> w_closed v" "\<not> w_closed w" "i \<noteq> j"
    moreover have "bs_writers s i = Some v \<Longrightarrow> bs_writers s j = Some w \<Longrightarrow> w_ino v \<noteq> w_ino w"
      using inv calculation(3-5) unfolding sys_inv_def by blast
    ultimately show "w_ino v \<noteq> w_ino w" using diff by (metis (no_types, lifting) fun_upd_apply option.inject)
  qed
  then show ?thesis by (cases s) simp
qed

lemma sys_inv_shrinks:
  assumes "sys_inv st s" and "shrinks (bs_fs s) f"
    and "\<And>k w. bs_writers s k = Some w \<Longrightarrow> \<not> w_closed w \<Longrightarrow> writer_ok st (bs_fs s) w \<Longrightarrow>
           lookup_name f (w_name w) = lookup_name (bs_fs s) (w_name w)"
  shows "sys_inv st (s\<lparr>bs_fs := f\<rparr>)"
proof -
  have "sys_inv st \<lparr>bs_fs = f, bs_writers = bs_writers s\<rparr>"
  proof (rule sys_invI)
    show "fs_inv st f" using assms shrinks_inv by (auto simp: sys_inv_def)
    show "writer_ok st f w" if "bs_writers s k = Some w" "\<not> w_closed w" for k w
      using assms that writer_ok_shrinks unfolding sys_inv_def by metis
    show "w_ino v \<noteq> w_ino w" if "bs_writers s j = Some v" "bs_writers s k = Some w"
      "\<not> w_closed v" "\<not> w_closed w" "j \<noteq> k" for j k v w
      using assms(1) that unfolding sys_inv_def by blast
  qed
  then show ?thesis by (cases s) simp
qed

lemma sys_invD:
  assumes "sys_inv st s"
  shows "fs_inv st (bs_fs s)"
    and "bs_writers s k = Some w \<Longrightarrow> \<not> w_closed w \<Longrightarrow> writer_ok st (bs_fs s) w"
    and "bs_writers s j = Some v \<Longrightarrow> bs_writers s k = Some w \<Longrightarrow> \<not> w_closed v \<Longrightarrow> \<not> w_closed w \<Longrightarrow>
         j \<noteq> k \<Longrightarrow> w_ino v \<noteq> w_ino w"
  using assms unfolding sys_inv_def by blast+

lemma commit_with_trace:
  assumes "writer_commit_with refresh flt now st s w = (f, w', r)"
  shows "f \<in> set (fst (commit_run refresh flt now st s w))" and "w_closed w'" and "w_closed w \<Longrightarrow> f = s \<and> w' = w"
  using assms commit_trace_nonempty [of refresh flt now st s w]
  by (auto simp: writer_commit_with_def commit_run_def Let_def split: sum.splits option.splits prod.splits if_splits)

lemma commit_step_inv:
  assumes inv: "sys_inv st s" and wf: "store_wf st" and k: "bs_writers s k = Some w"
    and c: "writer_commit_with refresh flt now st (bs_fs s) w = (f, w', r)"
  shows "sys_inv st (s\<lparr>bs_fs := f, bs_writers := (bs_writers s)(k \<mapsto> w')\<rparr>)"
proof (cases "w_closed w")
  case True
  with commit_with_trace [OF c] k have "s\<lparr>bs_fs := f, bs_writers := (bs_writers s)(k \<mapsto> w')\<rparr> = s"
    by (simp add: fun_upd_idem)
  then show ?thesis using inv by simp
next
  case False
  have ok: "writer_ok st (bs_fs s) w" by (rule sys_invD(2) [OF inv k False])
  have tr: "f \<in> set (fst (commit_run refresh flt now st (bs_fs s) w))" by (rule commit_with_trace(1) [OF c])
  have rel: "commit_rel st w (bs_fs s) f"
    using commit_frame [OF writer_ok_not_under [OF ok wf]] tr by blast
  show ?thesis
  proof (rule writers_after [OF inv refl])
    show "fs_inv st f"
      using commit_trace_inv [OF sys_invD(1) [OF inv] disjI1 [OF ok]] tr unfolding list_all_iff by blast
    show "writer_ok st f v" if "bs_writers s j = Some v" "j \<noteq> k" "\<not> w_closed v" for j v
      by (rule writer_ok_commit [OF rel _ ok _ wf])
        (use that k False sys_invD [OF inv] in blast)+
  qed (use commit_with_trace [OF c] in simp_all)
qed

lemma abort_step_inv:
  assumes inv: "sys_inv st s" and wf: "store_wf st" and k: "bs_writers s k = Some w"
    and c: "writer_abort flt (bs_fs s) w = (f, w', r)"
  shows "sys_inv st (s\<lparr>bs_fs := f, bs_writers := (bs_writers s)(k \<mapsto> w')\<rparr>)"
proof (cases "w_closed w")
  case True
  with c k have "s\<lparr>bs_fs := f, bs_writers := (bs_writers s)(k \<mapsto> w')\<rparr> = s"
    by (simp add: writer_abort_def fun_upd_idem)
  then show ?thesis using inv by simp
next
  case False
  have ok: "writer_ok st (bs_fs s) w" by (rule sys_invD(2) [OF inv k False])
  obtain q where q: "os_remove flt (w_name w) (bs_fs s) = (f, q)" and cl: "w_closed w'"
    using c False by (auto simp: writer_abort_def split: prod.splits)
  show ?thesis
  proof (rule writers_after [OF inv refl])
    show "fs_inv st f" by (rule shrinks_inv [OF sys_invD(1) [OF inv] shrinks_remove [OF q]])
    show "writer_ok st f v" if v: "bs_writers s j = Some v" "j \<noteq> k" "\<not> w_closed v" for j v
    proof (rule writer_ok_shrinks [OF _ shrinks_remove [OF q]])
      show okv: "writer_ok st (bs_fs s) v" by (rule sys_invD(2) [OF inv v(1,3)])
      have "w_ino v \<noteq> w_ino w" using sys_invD(3) [OF inv v(1) k v(3) False v(2)] .
      then have "w_name v \<noteq> w_name w" using writer_okD(2) [OF okv] writer_okD(2) [OF ok] by auto
      then show "lookup_name f (w_name v) = lookup_name (bs_fs s) (w_name v)"
        by (simp add: os_remove_lookup [OF q])
    qed
  qed (use cl in simp_all)
qed

theorem blob_step_inv:
  assumes "blob_step st s t" and wf: "store_wf st" and "sys_inv st s"
  shows "sys_inv st t"
  using assms(1,3)
proof (induction rule: blob_step.induct)
  case (step_create s k flt rnd now f w)
  note inv = step_create.prems
  show ?case
    by (rule writers_after [OF inv refl])
      (use create_inv [OF inv wf step_create.hyps(2)] sys_invD(2) [OF inv] in blast)+
next
  case (step_write s k w n now p f w' r m)
  note inv = step_write.prems
  show ?case
  proof (cases "w_closed w")
    case True
    with step_write.hyps have "s\<lparr>bs_fs := f, bs_writers := (bs_writers s)(k \<mapsto> w')\<rparr> = s"
      by (simp add: writer_write_def fun_upd_idem)
    then show ?thesis using inv by simp
  next
    case False
    note ok = sys_invD(2) [OF inv step_write.hyps(1) False]
    note wi = write_inv [OF sys_invD(1) [OF inv] ok wf False step_write.hyps(2)]
    show ?thesis
      by (rule writers_after [OF inv refl])
        (use wi sys_invD(2,3) [OF inv] step_write.hyps(1) False in metis)+
  qed
next
  case (step_commit s k w refresh flt now f w' r)
  then show ?case using commit_step_inv wf by blast
next
  case (step_abort s k w flt f w' r)
  then show ?case using abort_step_inv wf by blast
next
  case (step_delete flt s d f r)
  show ?case
    by (rule sys_inv_shrinks [OF step_delete.prems shrinks_delete [OF step_delete.hyps]])
      (use delete_keeps_staging [OF wf step_delete.hyps] in \<open>auto simp: writer_ok_def\<close>)
next
  case (step_managed flt s eco project f r)
  then show ?case using sys_inv_shrinks managed_frame by metis
next
  case (step_crash s f)
  then show ?case using sys_inv_no_writers crash_inv sys_invD(1) by blast
next
  case (step_crash_commit s k w g refresh flt now f)
  have "fs_inv st g"
    using commit_trace_inv [OF sys_invD(1)] step_crash_commit.prems step_crash_commit.hyps(1,2) sys_invD(2)
    unfolding list_all_iff by blast
  then show ?case using step_crash_commit.hyps(3) sys_inv_no_writers crash_inv by blast
next
  case (step_startup s flt f r)
  then show ?case using sys_inv_shrinks shrinks_clean by (metis option.distinct(1))
qed

lemma blob_reaches_inv: "blob_reaches st s t \<Longrightarrow> store_wf st \<Longrightarrow> sys_inv st s \<Longrightarrow> sys_inv st t"
  by (induction rule: blob_reaches.induct) (auto intro: blob_step_inv)

section \<open>Published bytes never change\<close>

definition frozen :: "blob_sys \<Rightarrow> nat \<Rightarrow> bool" where
  "frozen s i \<longleftrightarrow>
     i < fs_next (bs_fs s) \<and> ino_synced (fs_inodes (bs_fs s) i)
     \<and> (\<forall>k w. bs_writers s k = Some w \<longrightarrow> \<not> w_closed w \<longrightarrow> w_ino w \<noteq> i)"

lemma frozenI:
  assumes "frozen s i" and "fs_next (bs_fs s) \<le> fs_next f"
    and "ino_synced (fs_inodes (bs_fs s) i) \<Longrightarrow> ino_synced (fs_inodes f i)"
    and "\<And>k w. ws k = Some w \<Longrightarrow> \<not> w_closed w \<Longrightarrow> w_ino w = i \<Longrightarrow>
           \<exists>j v. bs_writers s j = Some v \<and> \<not> w_closed v \<and> w_ino v = i"
  shows "frozen \<lparr>bs_fs = f, bs_writers = ws\<rparr> i"
  using assms unfolding frozen_def by (simp only: blob_sys.simps) (metis order_less_le_trans)

lemma same_content_frozen:
  assumes "frozen s i" and "same_content (bs_fs s) f" and "fs_next f = fs_next (bs_fs s)"
    and "\<And>k w. ws k = Some w \<Longrightarrow> \<not> w_closed w \<Longrightarrow> w_ino w = i \<Longrightarrow>
           \<exists>j v. bs_writers s j = Some v \<and> \<not> w_closed v \<and> w_ino v = i"
  shows "frozen \<lparr>bs_fs = f, bs_writers = ws\<rparr> i
         \<and> ino_data (fs_inodes f i) = ino_data (fs_inodes (bs_fs s) i)"
  using frozenI [OF assms(1), of f ws] assms(2-4) by (auto simp: same_content_def)

lemma crash_frozen:
  assumes "frozen s i" and "same_content (bs_fs s) g" and "fs_next g = fs_next (bs_fs s)" and "crash_of g f"
  shows "frozen \<lparr>bs_fs = f, bs_writers = (\<lambda>_. None)\<rparr> i
         \<and> ino_data (fs_inodes f i) = ino_data (fs_inodes (bs_fs s) i)"
  using assms by (simp add: frozen_def same_content_def crash_of_def)

text \<open>Every state of a commit's trace has the same bytes in every inode.\<close>

lemma commit_same_content:
  assumes inv: "sys_inv st s" and wf: "store_wf st" and k: "bs_writers s k = Some w"
    and g: "g \<in> set (fst (commit_run refresh flt now st (bs_fs s) w))"
  shows "same_content (bs_fs s) g \<and> fs_next g = fs_next (bs_fs s)"
proof (cases "w_closed w")
  case True
  with g show ?thesis by (simp add: commit_run_def same_content_def)
next
  case False
  then have "\<not> under (so_blobs st) (w_name w)"
    using writer_ok_not_under [OF sys_invD(2) [OF inv k] wf] by blast
  with g show ?thesis using commit_frame unfolding commit_rel_def by blast
qed

lemma step_frozen:
  assumes "blob_step st s t" and "store_wf st" and "sys_inv st s" and "frozen s i"
  shows "frozen t i \<and> ino_data (fs_inodes (bs_fs t) i) = ino_data (fs_inodes (bs_fs s) i)"
  using assms(1,3,4)
proof (induction rule: blob_step.induct)
  case (step_create s k flt rnd now f w)
  have c: "fs_next f = Suc (fs_next (bs_fs s))" "w_ino w = fs_next (bs_fs s)"
    "j \<noteq> fs_next (bs_fs s) \<Longrightarrow> fs_inodes f j = fs_inodes (bs_fs s) j" for j
    using step_create.hyps(2) by (auto simp: writer_create_def Let_def new_file_def split: if_splits)
  have "i < fs_next (bs_fs s)" using step_create.prems(2) by (simp add: frozen_def)
  then show ?case
    using c step_create.prems(2) by (auto simp: frozen_def)
next
  case (step_write s k w n now p f w' r m)
  show ?case
  proof (cases "w_closed w")
    case True
    with step_write show ?thesis by (auto simp: writer_write_def frozen_def)
  next
    case False
    then have "w_ino w \<noteq> i" using step_write by (auto simp: frozen_def)
    moreover have "fs_next f = fs_next (bs_fs s)" "w_ino w' = w_ino w"
      "j \<noteq> w_ino w \<Longrightarrow> fs_inodes f j = fs_inodes (bs_fs s) j" for j
      using step_write.hyps(2) False by (auto simp: writer_write_def Let_def)
    ultimately show ?thesis using step_write.prems(2) by (auto simp: frozen_def)
  qed
next
  case (step_commit s k w refresh flt now f w' r)
  have c: "w_closed w'" "same_content (bs_fs s) f" "fs_next f = fs_next (bs_fs s)"
    using commit_with_trace [OF step_commit.hyps(2)]
      commit_same_content [OF step_commit.prems(1) assms(2) step_commit.hyps(1)] by blast+
  have "frozen \<lparr>bs_fs = f, bs_writers = (bs_writers s)(k \<mapsto> w')\<rparr> i
         \<and> ino_data (fs_inodes f i) = ino_data (fs_inodes (bs_fs s) i)"
    by (rule same_content_frozen [OF step_commit.prems(2) c(2,3)]) (use c(1) in \<open>auto split: if_splits\<close>)
  then show ?case by (cases s) simp
next
  case (step_abort s k w flt f w' r)
  have c: "w_closed w'" "same_content (bs_fs s) f" "fs_next f = fs_next (bs_fs s)"
    using step_abort.hyps(2)
    by (auto simp: writer_abort_def same_content_def split: if_splits prod.splits dest: os_remove_frame)
  have "frozen \<lparr>bs_fs = f, bs_writers = (bs_writers s)(k \<mapsto> w')\<rparr> i
         \<and> ino_data (fs_inodes f i) = ino_data (fs_inodes (bs_fs s) i)"
    by (rule same_content_frozen [OF step_abort.prems(2) c(2,3)]) (use c(1) in \<open>auto split: if_splits\<close>)
  then show ?case by (cases s) simp
next
  case (step_delete flt s d f r)
  then show ?case using shrinks_delete [OF step_delete.hyps]
    by (auto simp: frozen_def shrinks_def same_content_def)
next
  case (step_managed flt s eco project f r)
  then have "shrinks (bs_fs s) f" using managed_frame by blast
  with step_managed.prems(2) show ?case by (auto simp: frozen_def shrinks_def same_content_def)
next
  case (step_crash s f)
  then show ?case using crash_frozen [OF step_crash.prems(2) _ refl] by (simp add: same_content_def)
next
  case (step_crash_commit s k w g refresh flt now f)
  have c: "same_content (bs_fs s) g" "fs_next g = fs_next (bs_fs s)"
    using commit_same_content [OF step_crash_commit.prems(1) assms(2) step_crash_commit.hyps(1,2)] by auto
  show ?case using crash_frozen [OF step_crash_commit.prems(2) c step_crash_commit.hyps(3)] by simp
next
  case (step_startup s flt f r)
  then show ?case using shrinks_clean [OF step_startup.hyps(2)]
    by (auto simp: frozen_def shrinks_def same_content_def)
qed

lemma reaches_frozen:
  assumes "blob_reaches st s t" and "store_wf st" and "sys_inv st s" and "frozen s i"
  shows "frozen t i \<and> ino_data (fs_inodes (bs_fs t) i) = ino_data (fs_inodes (bs_fs s) i)"
  using assms(1,3,4)
proof (induction rule: blob_reaches.induct)
  case (reach_step s t u)
  then show ?case using step_frozen assms(2) blob_reaches_inv by metis
qed simp

lemma published_frozen:
  assumes "sys_inv st s" and "store_wf st" and "store_path st d = Inr p" and "lookup_name (bs_fs s) p = Some i"
  shows "frozen s i"
proof -
  have u: "under (so_blobs st) p" by (rule store_path_under [OF assms(3)])
  have f: "fs_inv st (bs_fs s)" by (rule sys_invD(1) [OF assms(1)])
  have "w_ino w \<noteq> i" if "bs_writers s k = Some w" "\<not> w_closed w" for k w
    using sys_invD(2) [OF assms(1) that] writer_okD(3) writer_ok_not_under [OF _ assms(2)] u assms(4) by metis
  with f u assms(4) show ?thesis unfolding frozen_def fs_inv_def by blast
qed

section \<open>The store from its first start\<close>

text \<open>The life of one writer, call by call.\<close>

lemma writer_create_fresh:
  "writer_create flt st s rnd now = (s', Inr w) \<Longrightarrow> w_written w = 0 \<and> w_hashed w = [] \<and> \<not> w_closed w"
  by (auto simp: writer_create_def Let_def split: if_splits)

lemma write_ok:
  assumes "writer_write k now s w c = (s', w', Inr u, n)" and "\<not> w_closed w"
  shows "w_hashed w' = w_hashed w @ c \<and> w_written w' = w_written w + int (length c) \<and> \<not> w_closed w'"
  using assms by (cases "c = []") (auto simp: writer_write_def Let_def min_def split: if_splits)

lemma commit_digest:
  "writer_commit flt now st s w = (s', w', Inr (d, n)) \<Longrightarrow> d = writer_digest w"
  by (auto simp: writer_commit_def writer_commit_with_def commit_run_def Let_def split: if_splits sum.splits option.splits prod.splits)

lemma commit_succeeds:
  assumes "\<not> w_closed w" and "lookup_name s (w_name w) \<noteq> None" and t: "store_path st (writer_digest w) = Inr target"
    and "\<forall>q \<in> set (prefixes_of (path_dir target)). lookup_name s q = None"
  shows "\<exists>s' w'. writer_commit no_faults now st s w = (s', w', Inr (writer_digest w, w_written w))"
proof -
  let ?s1 = "fsync_inode (w_ino w) s"
  obtain s2 where m: "mkdir_all no_faults (path_dir target) ?s1 = Some s2" using assms(4) by (auto simp: mkdir_all_def)
  let ?s3 = "os_chmod (w_name w) blob_mode s2"
  have src: "lookup_name ?s3 (w_name w) \<noteq> None" using assms(2) by (simp add: lookup_mkdir_all [OF m])
  obtain ss link pub where p: "publish_name True no_faults now (w_name w) target ?s3 = (ss, link, pub)" by (metis prod_cases3)
  have "(link = IoOk \<or> link = IoExist) \<and> pub = IoOk"
    using p src by (auto simp: publish_name_def os_link_def os_chtimes_def split: if_splits option.splits prod.splits)
  then show ?thesis using assms(1) t m p
    by (auto simp: writer_commit_def writer_commit_with_def commit_run_def Let_def)
qed

definition empty_fs :: fs where
  "empty_fs = \<lparr>fs_names = [], fs_inodes = (\<lambda>_. \<lparr>ino_data = [], ino_mtime = 0, ino_mode = 0, ino_synced = False\<rparr>),
               fs_next = 0, fs_dirs = []\<rparr>"

definition at_start :: "fs \<Rightarrow> blob_sys" where
  "at_start s = \<lparr>bs_fs = s, bs_writers = (\<lambda>_. None)\<rparr>"

lemma store_open_names: "store_open flt rt s = (s', Inr st) \<Longrightarrow> lookup_name s' p = lookup_name s p \<and> fs_next s' = fs_next s"
  by (auto simp: store_open_def Let_def lookup_mkdir_all split: if_splits option.splits dest!: mkdir_all_frame)

lemma at_start_inv:
  "store_open flt rt empty_fs = (s, Inr st) \<Longrightarrow> sys_inv st (at_start s) \<and> store_wf st"
  using store_open_names [of flt rt empty_fs s st] store_open_wf
  by (auto simp: at_start_def fs_inv_def empty_fs_def lookup_name_def intro!: sys_inv_no_writers)

lemma blob_open_Inr:
  "blob_open flt st s d = Inr (data, m) \<longleftrightarrow>
     (\<exists>p i. store_path st d = Inr p \<and> \<not> flt SysOpen \<and> \<not> flt SysStat \<and> lookup_name s p = Some i
        \<and> data = ino_data (fs_inodes s i) \<and> m = stat_of (fs_inodes s i))"
  by (auto simp: blob_open_def split: sum.splits option.splits if_splits)

lemma blob_stat_Some:
  "blob_stat flt st s d = Some m \<longleftrightarrow>
     (\<exists>p i. store_path st d = Inr p \<and> \<not> flt SysStat \<and> lookup_name s p = Some i \<and> m = stat_of (fs_inodes s i))"
  by (auto simp: blob_stat_def os_stat_def split: sum.splits option.splits if_splits)

lemma fs_inv_open:
  "fs_inv st s \<Longrightarrow> blob_open flt st s d = Inr (data, m) \<Longrightarrow> digest_bytes data = d \<and> st_size m = int (length data)"
proof -
  assume f: "fs_inv st s" and "blob_open flt st s d = Inr (data, m)"
  then obtain p i where p: "store_path st d = Inr p" "lookup_name s p = Some i"
    and data: "data = ino_data (fs_inodes s i)" and m: "m = stat_of (fs_inodes s i)"
    by (auto simp: blob_open_Inr)
  have "store_path st (digest_bytes data) = Inr p"
    using f p(2) store_path_under [OF p(1)] unfolding fs_inv_def data by blast
  then show ?thesis using store_path_inj [OF _ p(1)] by (simp add: m data stat_of_def)
qed

text \<open>
  C1. Integrity: in every state the store reaches from its first start, through any
  interleaving of writers, commits, aborts, deletions, restarts and crashes in the middle of a
  commit, a blob that opens has exactly the bytes its digest names.
\<close>

theorem blob_integrity:
  assumes "store_open flt rt empty_fs = (s, Inr st)"
    and "blob_reaches st (at_start s) t"
    and "blob_open flt' st (bs_fs t) d = Inr (data, m)"
  shows "digest_bytes data = d \<and> st_size m = int (length data)"
  using assms at_start_inv blob_reaches_inv fs_inv_open sys_invD(1) by metis

text \<open>
  C2. Immutability: once a digest names an inode, that inode's bytes are the same in every
  later state, whatever is written, committed again, deleted or crashes in between; a file
  opened before a deletion keeps reading them.
\<close>

theorem blob_immutable:
  assumes "store_open flt rt empty_fs = (s, Inr st)"
    and "blob_reaches st (at_start s) t" and "blob_reaches st t u"
    and "store_path st d = Inr p" and "lookup_name (bs_fs t) p = Some i"
  shows "ino_data (fs_inodes (bs_fs u) i) = ino_data (fs_inodes (bs_fs t) i)
         \<and> digest_bytes (ino_data (fs_inodes (bs_fs u) i)) = d"
proof -
  have wf: "store_wf st" and inv: "sys_inv st t"
    using at_start_inv [OF assms(1)] blob_reaches_inv [OF assms(2)] by auto
  have "ino_data (fs_inodes (bs_fs u) i) = ino_data (fs_inodes (bs_fs t) i)"
    using reaches_frozen [OF assms(3) wf inv published_frozen [OF inv wf assms(4,5)]] by blast
  moreover have "digest_bytes (ino_data (fs_inodes (bs_fs t) i)) = d"
    using sys_invD(1) [OF inv] assms(4,5) store_path_inj store_path_under unfolding fs_inv_def by metis
  ultimately show ?thesis by simp
qed

section \<open>What a commit returns\<close>

lemma drop_lookup: "lookup_name (drop_staging flt w s) q = lookup_name s q \<or> q = w_name w"
proof -
  obtain u r where u: "os_remove flt (w_name w) s = (u, r)" by fastforce
  show ?thesis by (simp add: drop_staging_def u os_remove_lookup [OF u])
qed

lemma drop_lookup_other: "q \<noteq> w_name w \<Longrightarrow> lookup_name (drop_staging flt w s) q = lookup_name s q"
  using drop_lookup by metis

lemma publish_results:
  assumes "publish_name refresh flt now src dst s = (ss, link, pub)"
  shows "link = IoOk \<Longrightarrow> lookup_name (last ss) dst = lookup_name s src \<and> lookup_name s src \<noteq> None"
    and "link = IoExist \<Longrightarrow> lookup_name (last ss) q = lookup_name s q \<and> (lookup_name s dst \<noteq> None \<or> dst \<in> set (fs_dirs s))"
    and "link \<noteq> IoOk \<Longrightarrow> lookup_name (last ss) q = lookup_name s q"
proof -
  obtain s1 l where l: "os_link flt src dst s = (s1, l)" by fastforce
  have lk: "link = l" and ss: "ss = [s1] \<or> (\<exists>s2 r. os_chtimes flt dst now s1 = (s2, r) \<and> ss = [s1, s2] \<and> l = IoExist)"
    using assms l by (auto simp: publish_name_def split: if_splits prod.splits)
  have c: "os_chtimes flt dst now s1 = (s2, r) \<Longrightarrow> lookup_name s2 q = lookup_name s1 q" for s2 r q
    using os_chtimes_frame [of flt dst now s1 s2 r] by simp
  show "link = IoOk \<Longrightarrow> lookup_name (last ss) dst = lookup_name s src \<and> lookup_name s src \<noteq> None"
    using lk ss l os_link_lookup [OF l] os_link_Ok [of flt src dst s s1] by auto
  show n: "link \<noteq> IoOk \<Longrightarrow> lookup_name (last ss) q = lookup_name s q" for q
    using lk ss c os_link_lookup [OF l] by auto
  show "link = IoExist \<Longrightarrow> lookup_name (last ss) q = lookup_name s q \<and> (lookup_name s dst \<noteq> None \<or> dst \<in> set (fs_dirs s))"
    using n lk l by (auto simp: os_link_def split: if_splits option.splits)
qed

definition digest_free_dirs :: "store \<Rightarrow> fs \<Rightarrow> bool" where
  "digest_free_dirs st s \<longleftrightarrow> (\<forall>p \<in> set (fs_dirs s). length p < length (so_blobs st) + 3 \<or> \<not> under (so_blobs st) p)"

lemma digest_free_mkdir:
  assumes "digest_free_dirs st s" and "mkdir_all flt p s = Some t" and "length p < length (so_blobs st) + 3"
  shows "digest_free_dirs st t"
  using assms by (auto simp: digest_free_dirs_def mkdir_all_def in_prefixes split: if_splits)

lemma commit_outcome:
  assumes ok: "writer_ok st s w" "\<not> w_closed w" and wf: "store_wf st" and dirs: "digest_free_dirs st s"
    and c: "writer_commit flt now st s w = (f, w', r)"
  shows "(\<forall>d n. r = Inr (d, n) \<longrightarrow>
            d = digest_bytes (w_hashed w) \<and> n = int (length (w_hashed w))
            \<and> blob_exists no_faults st f d
            \<and> (\<forall>p i. store_path st d = Inr p \<longrightarrow> lookup_name s p = Some i \<longrightarrow> lookup_name f p = Some i))
         \<and> (\<forall>e p. r = Inl e \<longrightarrow> e \<noteq> ErrBlobIO SysSyncDir \<longrightarrow> under (so_blobs st) p \<longrightarrow>
              lookup_name f p = lookup_name s p)"
proof -
  let ?d = "writer_digest w" and ?s1 = "fsync_inode (w_ino w) s"
  have d: "digest_valid ?d" by (simp add: writer_digest_def)
  let ?t = "so_blobs st @ [take 2 ?d, take 2 (drop 2 ?d), ?d]"
  have t: "store_path st ?d = Inr ?t" by (rule store_path_valid [OF d])
  have nw: "\<not> under (so_blobs st) (w_name w)" by (rule writer_ok_not_under [OF ok(1) wf])
  have dr: "under (so_blobs st) q \<Longrightarrow> lookup_name (drop_staging flt w x) q = lookup_name x q" for q x
    using drop_lookup_other nw by metis
  have ut: "under (so_blobs st) ?t" by (rule store_path_under [OF t])
  have w: "w_written w = int (length (w_hashed w))" using ok(1) by (simp add: writer_ok_def)
  show ?thesis
  proof (cases "mkdir_all flt (path_dir ?t) ?s1")
    case None
    with c ok(2) t dr show ?thesis
      by (auto simp: writer_commit_def writer_commit_with_def commit_run_def Let_def split: if_splits)
  next
    case (Some s2)
    let ?s3 = "os_chmod (w_name w) blob_mode s2"
    have lk: "lookup_name ?s3 q = lookup_name s q" for q using lookup_mkdir_all [OF Some] by simp
    obtain ss link pub where p: "publish_name True flt now (w_name w) ?t ?s3 = (ss, link, pub)"
      by (metis prod_cases3)
    note res = publish_results [OF p]
    have "digest_free_dirs st s2"
      by (rule digest_free_mkdir [OF _ Some]) (use dirs in \<open>auto simp: digest_free_dirs_def path_dir_def\<close>)
    then have nd: "?t \<notin> set (fs_dirs ?s3)" using ut by (auto simp: digest_free_dirs_def)
    have there: "link = IoOk \<or> link = IoExist \<Longrightarrow> lookup_name (last ss) ?t \<noteq> None"
      using res(1) res(2) [of ?t] nd lk by auto
    have "lookup_name (last ss) ?t = lookup_name ?s3 ?t \<or> lookup_name ?s3 ?t = None"
      using bspec [OF publish_frame(1) [OF p] last_in_set [OF publish_frame(2) [OF p]]] by (elim conjE disjE) simp_all
    then have keep: "lookup_name s ?t = Some i \<Longrightarrow> lookup_name (last ss) ?t = Some i" for i
      by (auto simp: lookup_mkdir_all [OF Some])
    have bad: "link \<noteq> IoOk \<Longrightarrow> lookup_name (last ss) q = lookup_name s q" for q
      using res(3) lk by simp
    have pub: "link = IoOk \<Longrightarrow> pub \<noteq> IoOk \<Longrightarrow> flt SysSyncDir"
      using p by (auto simp: publish_name_def split: if_splits prod.splits)
    have ex: "lookup_name x ?t \<noteq> None \<Longrightarrow> blob_exists no_faults st x (digest_bytes (w_hashed w))" for x
      using t by (auto simp: blob_exists_def blob_stat_Some writer_digest_def)
    let ?r = "if link = IoOk then (if pub \<noteq> IoOk then Inl (ErrBlobIO SysSyncDir) else Inr (?d, w_written w))
              else if link = IoExist then (if pub \<noteq> IoOk then Inl (ErrBlobIO SysChtimes) else Inr (?d, w_written w))
              else Inl (ErrBlobIO SysLink)"
    have fr: "(f, r) = (if flt SysSync then (drop_staging flt w s, Inl (ErrBlobIO SysSync))
                else if flt SysClose then (drop_staging flt w ?s1, Inl (ErrBlobIO SysClose))
                else if flt SysChmod then (drop_staging flt w s2, Inl (ErrBlobIO SysChmod))
                else (drop_staging flt w (last ss), ?r))"
      using c ok(2) t Some p
      by (simp add: writer_commit_def writer_commit_with_def commit_run_def Let_def del: append_Cons append_Nil
            split: if_splits)
    show ?thesis
    proof (cases "flt SysSync \<or> flt SysClose \<or> flt SysChmod")
      case True
      then show ?thesis using fr dr lookup_mkdir_all [OF Some] by (auto split: if_splits)
    next
      case False
      then have f: "f = drop_staging flt w (last ss)" and r: "r = ?r" using fr by auto
      have e: "lookup_name f ?t = lookup_name (last ss) ?t" unfolding f by (rule dr [OF ut])
      show ?thesis
      proof (cases "\<exists>e. r = Inl e")
        case True
        then have "link = IoOk \<Longrightarrow> r = Inl (ErrBlobIO SysSyncDir)" using r by (auto split: if_splits)
        with True show ?thesis using bad dr unfolding f by auto
      next
        case False
        then have "r = Inr (?d, w_written w)" and l: "link = IoOk \<or> link = IoExist" using r by (auto split: if_splits)
        moreover have "blob_exists no_faults st f ?d" using ex there [OF l] e by (simp add: writer_digest_def)
        ultimately show ?thesis using keep e t w by (auto simp: writer_digest_def)
      qed
    qed
  qed
qed

text \<open>
  C3. Commit: when it succeeds it returns the digest and the size of exactly the bytes that
  were accepted, the digest can be opened, and an inode already published under it is kept.
  When it fails, nothing is published, unless the failure is that of the last step, the fsync
  of the shard directory, which happens after the name is in place.
\<close>

theorem commit_result:
  assumes ok: "writer_ok st s w" "\<not> w_closed w" and wf: "store_wf st" and dirs: "digest_free_dirs st s"
    and c: "writer_commit flt now st s w = (f, w', r)"
  shows "(\<forall>d n. r = Inr (d, n) \<longrightarrow>
            d = digest_bytes (w_hashed w) \<and> n = int (length (w_hashed w))
            \<and> blob_exists no_faults st f d
            \<and> (\<forall>p i. store_path st d = Inr p \<longrightarrow> lookup_name s p = Some i \<longrightarrow> lookup_name f p = Some i))
         \<and> (\<forall>e p. r = Inl e \<longrightarrow> e \<noteq> ErrBlobIO SysSyncDir \<longrightarrow> under (so_blobs st) p \<longrightarrow>
              lookup_name f p = lookup_name s p)"
  by (rule commit_outcome [OF assms])

section \<open>Paths cannot escape; deletion is guarded\<close>

text \<open>
  C5. A digest accepted from the network names exactly one file of the store, three plain
  components below blobs/sha256, and both written forms of a digest parse back to it.
\<close>

theorem parse_digest_safe:
  assumes "parse_digest s = Inr d"
  shows "store_path st d = Inr (so_blobs st @ [take 2 d, take 2 (drop 2 d), d])
         \<and> list_all plain_seg [take 2 d, take 2 (drop 2 d), d]
         \<and> parse_digest d = Inr d \<and> parse_digest (digest_prefixed d) = Inr d"
  using parse_digest_valid [OF assms]
  by (simp_all add: store_path_valid valid_parts parse_digest_id parse_digest_prefixed)

lemma safe_segment_plain: "safe_segment s = Inr u \<Longrightarrow> plain_seg s"
  by (auto simp: safe_segment_def plain_seg_def split: if_splits)

text \<open>
  C6. A managed directory is exactly managed/<eco>/<project>, whatever the two names are,
  and no file of the store is touched in making it.
\<close>

theorem managed_dir_safe:
  assumes "managed_dir flt st s eco project = (f, Inr p)"
  shows "p = so_managed st @ [eco, project] \<and> plain_seg eco \<and> plain_seg project
         \<and> p \<in> set (fs_dirs f) \<and> lookup_name f q = lookup_name s q"
proof -
  have e: "plain_seg eco" and j: "plain_seg project"
    using assms by (auto simp: managed_dir_def split: sum.splits dest: safe_segment_plain)
  with assms have p: "p = so_managed st @ [eco, project]"
    and m: "mkdir_all flt p s = Some f"
    by (auto simp: managed_dir_def Let_def split: sum.splits option.splits)
  have "p \<in> set (prefixes_of p)" using p by (simp add: in_prefixes)
  with m have "p \<in> set (fs_dirs f)" by (auto simp: mkdir_all_def split: if_splits)
  with e j p lookup_mkdir_all [OF m] show ?thesis by simp
qed

text \<open>
  C7. DeleteIf removes a blob only after its eligibility check said yes, reports exactly
  that, and removes no other name; a blob that is absent is never checked.
\<close>

theorem delete_if_guarded:
  assumes "delete_if wrap flt st s d eligible = (f, r)"
  shows "(r = Inr True \<longrightarrow> (\<exists>m. blob_stat flt st s d = Some m \<and> eligible m = Inr True) \<and> \<not> blob_exists no_faults st f d)
         \<and> (r \<noteq> Inr True \<longrightarrow> (\<forall>q. lookup_name f q = lookup_name s q))
         \<and> (store_path st d \<noteq> Inr q \<longrightarrow> lookup_name f q = lookup_name s q)"
proof (cases "blob_stat flt st s d")
  case None
  with assms show ?thesis by (auto simp: delete_if_def)
next
  case (Some m)
  then obtain p i where p: "store_path st d = Inr p" "lookup_name s p = Some i"
    by (auto simp: blob_stat_Some)
  obtain u x where u: "os_remove flt p s = (u, x)" by fastforce
  have x: "x \<noteq> IoNotExist" using u p(2) by (auto simp: os_remove_def split: if_splits)
  show ?thesis
    using assms Some p u x os_remove_lookup [OF u]
    by (auto simp: delete_if_def blob_delete_def blob_exists_def blob_stat_Some
             split: sum.splits bool.splits if_splits)
qed

section \<open>Witnesses\<close>

definition ex_store :: store where
  "ex_store = \<lparr>so_root = [''data''], so_blobs = [''data'', ''blobs'', ''sha256''],
               so_staging = [''data'', ''blobs'', ''staging''], so_managed = [''data'', ''managed'']\<rparr>"

definition ex_fs :: fs where
  "ex_fs = fst (store_open no_faults [''data''] empty_fs)"

lemma ex_open: "store_open no_faults [''data''] empty_fs = (ex_fs, Inr ex_store)"
  by (simp add: ex_fs_def ex_store_def store_open_def Let_def mkdir_all_def lookup_name_def empty_fs_def plain_seg_def)

lemma ex_dirs: "fs_names ex_fs = []" "fs_next ex_fs = 0"
  "set (fs_dirs ex_fs) = {[''data''], [''data'', ''blobs''], [''data'', ''blobs'', ''sha256''],
     [''data'', ''blobs'', ''staging''], [''data'', ''managed'']}"
  by (auto simp: ex_fs_def store_open_def Let_def mkdir_all_def lookup_name_def empty_fs_def plain_seg_def)

definition ex_writer :: writer where
  "ex_writer = \<lparr>w_name = [''data'', ''blobs'', ''staging'', ''1.part''], w_ino = 0, w_hashed = ''hi'',
                w_written = 2, w_closed = False\<rparr>"

definition ex_written :: fs where
  "ex_written = fst (writer_write 9 7 (fst (writer_create no_faults ex_store ex_fs ''1'' 5)) (ex_writer\<lparr>w_hashed := [], w_written := 0\<rparr>) ''hi'')"

lemma ex_created:
  "writer_create no_faults ex_store ex_fs ''1'' 5
   = (fst (writer_create no_faults ex_store ex_fs ''1'' 5), Inr (ex_writer\<lparr>w_hashed := [], w_written := 0\<rparr>))"
  by (simp add: writer_create_def ex_store_def Let_def lookup_name_def ex_dirs ex_writer_def)

lemma ex_write_step:
  "writer_write 9 7 (fst (writer_create no_faults ex_store ex_fs ''1'' 5)) (ex_writer\<lparr>w_hashed := [], w_written := 0\<rparr>) ''hi''
   = (ex_written, ex_writer, Inr (), 2)"
  by (simp add: ex_written_def writer_write_def ex_writer_def Let_def)

lemma ex_reach_written:
  "blob_reaches ex_store (at_start ex_fs) \<lparr>bs_fs = ex_written, bs_writers = (\<lambda>_. None)(0 \<mapsto> ex_writer)\<rparr>"
proof -
  let ?c = "fst (writer_create no_faults ex_store ex_fs ''1'' 5)"
  let ?w = "ex_writer\<lparr>w_hashed := [], w_written := 0\<rparr>"
  have "blob_step ex_store (at_start ex_fs) ((at_start ex_fs)\<lparr>bs_fs := ?c, bs_writers := (bs_writers (at_start ex_fs))(0 \<mapsto> ?w)\<rparr>)"
    by (rule blob_step.step_create [where flt = no_faults and rnd = "''1''" and now = 5])
      (simp_all add: at_start_def ex_created [symmetric])
  then have 1: "blob_step ex_store (at_start ex_fs) \<lparr>bs_fs = ?c, bs_writers = (\<lambda>_. None)(0 \<mapsto> ?w)\<rparr>"
    by (simp add: at_start_def)
  have "blob_step ex_store \<lparr>bs_fs = ?c, bs_writers = (\<lambda>_. None)(0 \<mapsto> ?w)\<rparr>
     (\<lparr>bs_fs = ?c, bs_writers = (\<lambda>_. None)(0 \<mapsto> ?w)\<rparr>\<lparr>bs_fs := ex_written,
       bs_writers := (bs_writers \<lparr>bs_fs = ?c, bs_writers = (\<lambda>_. None)(0 \<mapsto> ?w)\<rparr>)(0 \<mapsto> ex_writer)\<rparr>)"
    by (rule blob_step.step_write [where w = ?w and n = 9 and now = 7 and p = "''hi''"])
      (simp_all add: ex_write_step)
  then have 2: "blob_step ex_store \<lparr>bs_fs = ?c, bs_writers = (\<lambda>_. None)(0 \<mapsto> ?w)\<rparr>
     \<lparr>bs_fs = ex_written, bs_writers = (\<lambda>_. None)(0 \<mapsto> ex_writer)\<rparr>" by simp
  show ?thesis by (rule reach_step [OF reach_step [OF reach_refl 1] 2])
qed

definition ex_path :: path where
  "ex_path = [''data'', ''blobs'', ''sha256'', take 2 (digest_bytes ''hi''), take 2 (drop 2 (digest_bytes ''hi'')),
              digest_bytes ''hi'']"

definition ex_committed :: fs where
  "ex_committed = fst (writer_commit no_faults 9 ex_store ex_written ex_writer)"

lemma ex_store_path: "store_path ex_store (digest_bytes ''hi'') = Inr ex_path"
  by (simp add: store_path_valid ex_store_def ex_path_def)

lemma ex_written_names:
  "fs_names ex_written = [([''data'', ''blobs'', ''staging'', ''1.part''], 0)]" "fs_next ex_written = 1"
  "set (fs_dirs ex_written) = set (fs_dirs ex_fs)"
  "fs_inodes ex_written 0 = \<lparr>ino_data = ''hi'', ino_mtime = 7, ino_mode = 384, ino_synced = False\<rparr>"
  by (simp_all add: ex_written_def writer_write_def ex_writer_def Let_def writer_create_def ex_store_def
      lookup_name_def ex_dirs new_file_def)

lemma ex_commit:
  "writer_commit no_faults 9 ex_store ex_written ex_writer
   = (ex_committed, ex_writer\<lparr>w_closed := True\<rparr>, Inr (digest_bytes ''hi'', 2))"
  "lookup_name ex_committed ex_path = Some 0"
proof -
  let ?t = "[''data'', ''blobs'', ''sha256'', take 2 (digest_bytes ''hi''), take 2 (drop 2 (digest_bytes ''hi'')),
              digest_bytes ''hi'']"
  have p: "store_path ex_store (digest_bytes ''hi'') = Inr ?t" by (simp add: ex_store_path ex_path_def)
  have h: "w_hashed ex_writer = ''hi''" by (simp add: ex_writer_def)
  note ev = writer_commit_def writer_commit_with_def commit_run_def Let_def ex_writer_def writer_digest_def
    p h mkdir_all_def lookup_name_def fsync_inode_def set_inode_def path_dir_def publish_name_def os_link_def
    os_chmod_def ex_written_names ex_dirs drop_staging_def os_remove_def ex_committed_def
  show "writer_commit no_faults 9 ex_store ex_written ex_writer
     = (ex_committed, ex_writer\<lparr>w_closed := True\<rparr>, Inr (digest_bytes ''hi'', 2))"
    by (simp add: ev)
  show "lookup_name ex_committed ex_path = Some 0" by (simp add: ev ex_path_def)
qed

lemma ex_reach_committed:
  "blob_reaches ex_store (at_start ex_fs)
     \<lparr>bs_fs = ex_committed, bs_writers = (\<lambda>_. None)(0 \<mapsto> ex_writer\<lparr>w_closed := True\<rparr>)\<rparr>"
proof -
  let ?s = "\<lparr>bs_fs = ex_written, bs_writers = (\<lambda>_. None)(0 \<mapsto> ex_writer)\<rparr>"
  have "blob_step ex_store ?s (?s\<lparr>bs_fs := ex_committed, bs_writers := (bs_writers ?s)(0 \<mapsto> ex_writer\<lparr>w_closed := True\<rparr>)\<rparr>)"
    by (rule blob_step.step_commit [where w = ex_writer and refresh = True and flt = no_faults and now = 9
            and r = "Inr (digest_bytes ''hi'', 2)"])
      (simp_all add: ex_commit(1) [unfolded writer_commit_def])
  then have 1: "blob_step ex_store ?s \<lparr>bs_fs = ex_committed, bs_writers = (\<lambda>_. None)(0 \<mapsto> ex_writer\<lparr>w_closed := True\<rparr>)\<rparr>"
    by simp
  show ?thesis by (rule reach_step [OF ex_reach_written 1])
qed

lemma ex_open_committed:
  "blob_open no_faults ex_store ex_committed (digest_bytes ''hi'')
   = Inr (ino_data (fs_inodes ex_committed 0), stat_of (fs_inodes ex_committed 0))"
  by (simp add: blob_open_def ex_store_path ex_commit(2))

theorem blob_integrity_witness:
  "digest_bytes (ino_data (fs_inodes ex_committed 0)) = digest_bytes ''hi''
   \<and> st_size (stat_of (fs_inodes ex_committed 0)) = int (length (ino_data (fs_inodes ex_committed 0)))"
  using blob_integrity [OF ex_open ex_reach_committed] ex_open_committed by simp

theorem blob_immutable_witness:
  "ino_data (fs_inodes ex_committed 0) = ino_data (fs_inodes ex_committed 0)
   \<and> digest_bytes (ino_data (fs_inodes ex_committed 0)) = digest_bytes ''hi''"
  using blob_immutable [OF ex_open ex_reach_committed reach_refl ex_store_path] ex_commit(2) by simp

theorem commit_result_witness:
  "blob_exists no_faults ex_store ex_committed (digest_bytes ''hi'')"
proof -
  have "lookup_name ex_written p = Some 0 \<longleftrightarrow> p = w_name ex_writer" for p
    by (simp add: lookup_name_def ex_written_names ex_writer_def)
  then have ok: "writer_ok ex_store ex_written ex_writer"
    by (simp add: writer_ok_def ex_writer_def ex_written_names ex_store_def)
  have c: "\<not> w_closed ex_writer" and h: "w_hashed ex_writer = ''hi''" by (simp_all add: ex_writer_def)
  have wf: "store_wf ex_store" by (simp add: store_wf_def ex_store_def)
  have d: "digest_free_dirs ex_store ex_written"
    by (simp add: digest_free_dirs_def ex_written_names ex_dirs ex_store_def)
  show ?thesis using commit_result [OF ok c wf d ex_commit(1)] h by simp
qed

theorem parse_digest_safe_witness:
  "list_all plain_seg [take 2 (digest_bytes ''hi''), take 2 (drop 2 (digest_bytes ''hi'')), digest_bytes ''hi'']"
  using parse_digest_safe [OF parse_digest_prefixed [OF digest_bytes_valid]] by blast

theorem managed_dir_safe_witness:
  "managed_dir no_faults ex_store ex_fs ''git'' ''..'' = (ex_fs, Inl (ErrInvalidSegment ''..''))
   \<and> [''data'', ''managed'', ''git'', ''team''] \<in> set (fs_dirs (fst (managed_dir no_faults ex_store ex_fs ''git'' ''team'')))"
proof -
  have "managed_dir no_faults ex_store ex_fs ''git'' ''team''
        = (fst (managed_dir no_faults ex_store ex_fs ''git'' ''team''), Inr [''data'', ''managed'', ''git'', ''team''])"
    by (simp add: managed_dir_def safe_segment_def Let_def plain_seg_def ex_store_def mkdir_all_def
        lookup_name_def ex_dirs)
  from managed_dir_safe [OF this, of "[]"] show ?thesis by (simp add: managed_dir_def [of _ _ _ _ "''..''"] safe_segment_def [of "''..''"] safe_segment_def [of "''git''"])
qed

theorem delete_if_guarded_witness:
  "\<not> blob_exists no_faults ex_store
       (fst (delete_if (\<lambda>e. e) no_faults ex_store ex_committed (digest_bytes ''hi'') (\<lambda>_. Inr True))) (digest_bytes ''hi'')"
proof -
  have "delete_if (\<lambda>e. e) no_faults ex_store ex_committed (digest_bytes ''hi'') (\<lambda>_. Inr True)
        = (fst (delete_if (\<lambda>e. e) no_faults ex_store ex_committed (digest_bytes ''hi'') (\<lambda>_. Inr True)), Inr True)"
    by (simp add: delete_if_def blob_stat_def os_stat_def ex_store_path ex_commit(2) blob_delete_def os_remove_def)
  from delete_if_guarded [OF this, of ex_path] show ?thesis by simp
qed

end
