(* ===== verification/Upstream.thy ===== *)
theory Upstream
  imports GoLib
begin

text \<open>
  Package upstream (go/internal/upstream): the outbound HTTP boundary. A pool's state is
  its bearer-token cache and the log of the requests it has sent; the network, the clock,
  the caller's context and the library parsers (net/url, encoding/json) are the record
  \<open>net\<close>, indexed by the number of requests sent so far. The theorems say which origin of
  a fallback chain answers, that an origin past it is never contacted, and how many
  requests one attempt may cost.
\<close>

section \<open>net/http headers\<close>

type_synonym header = "(string \<times> string list) list"

definition upper_char :: "char \<Rightarrow> char" where
  "upper_char c = (if 97 \<le> ord c \<and> ord c \<le> 122 then char_of (ord c - 32) else c)"

fun canon_from :: "bool \<Rightarrow> string \<Rightarrow> string" where
  "canon_from up [] = []"
| "canon_from up (c # s) = (if up then upper_char c else lower_char c) # canon_from (c = CHR ''-'') s"

abbreviation canonical_key :: "string \<Rightarrow> string" where
  "canonical_key \<equiv> canon_from True"

definition hdr_get :: "header \<Rightarrow> string \<Rightarrow> string" where
  "hdr_get h k = (case map_of h (canonical_key k) of Some (v # _) \<Rightarrow> v | _ \<Rightarrow> [])"

definition hdr_set :: "string \<Rightarrow> string \<Rightarrow> header \<Rightarrow> header" where
  "hdr_set k v h = AList.update (canonical_key k) [v] h"

definition hdr_add :: "string \<Rightarrow> string \<Rightarrow> header \<Rightarrow> header" where
  "hdr_add k v h =
     AList.update (canonical_key k) ((case map_of h (canonical_key k) of None \<Rightarrow> [] | Some vs \<Rightarrow> vs) @ [v]) h"

section \<open>Requests and responses\<close>

record credential =
  cr_kind :: string
  cr_username :: string
  cr_password :: string
  cr_token :: string

record fallback =
  fb_url :: string
  fb_credential :: "credential option"
  fb_proxy :: string
  fb_optional :: bool

record request =
  rq_url :: string
  rq_method :: string
  rq_headers :: header
  rq_body :: string
  rq_credential :: "credential option"
  rq_eco :: string
  rq_fallbacks :: "fallback list"
  rq_proxy :: string
  rq_optional :: bool

datatype body_end = BodyEOF | BodyFail string

record response =
  rs_status :: int
  rs_headers :: header
  rs_chunks :: "string list"
  rs_end :: body_end
  rs_via :: string

definition body_of :: "response \<Rightarrow> string" where
  "body_of resp = concat (rs_chunks resp)"

datatype transport = ConnReset | UnexpectedEOF | PlainEOF | TransportOther string

datatype up_error =
    ErrInvalidProxy string
  | ErrBuildRequest string
  | ErrTransport transport
  | ErrOrigin string int
  | ErrNoOrigin string

text \<open>What is put on the wire: one http.Request, with the forward proxy it travels through.\<close>

record wire =
  wi_method :: string
  wi_url :: string
  wi_headers :: header
  wi_body :: string
  wi_proxy :: "string option"

record token_doc =
  td_token :: string
  td_access_token :: string
  td_expires_in :: int

record net =
  nt_do :: "nat \<Rightarrow> wire \<Rightarrow> transport + response"
  nt_cancelled :: "nat \<Rightarrow> bool"
  nt_gave_up :: "nat \<Rightarrow> bool"
  nt_clock :: "nat \<Rightarrow> gotime"
  nt_proxy_host :: "string \<Rightarrow> string option"
  nt_url_ok :: "string \<Rightarrow> bool"
  nt_with_query :: "string \<Rightarrow> (string \<times> string) list \<Rightarrow> string option"
  nt_token_doc :: "string \<Rightarrow> token_doc option"
  nt_basic_auth :: "string \<Rightarrow> string \<Rightarrow> string"

record pool =
  pl_ua :: string
  pl_tokens :: "(string \<times> (string \<times> gotime)) list"
  pl_sent :: "wire list"

definition send :: "net \<Rightarrow> wire \<Rightarrow> pool \<Rightarrow> pool \<times> (transport + response)" where
  "send nt w p = (p\<lparr>pl_sent := pl_sent p @ [w]\<rparr>, nt_do nt (length (pl_sent p)) w)"

section \<open>auth.go\<close>

definition apply_credential :: "net \<Rightarrow> credential \<Rightarrow> header \<Rightarrow> header" where
  "apply_credential nt c h =
     (if cr_kind c = ''basic'' then hdr_set ''Authorization'' (nt_basic_auth nt (cr_username c) (cr_password c)) h
      else if cr_kind c = ''bearer'' then hdr_set ''Authorization'' (''Bearer '' @ cr_token c) h
      else h)"

text \<open>splitUnquoted: \<open>cur\<close> is the piece read so far, reversed.\<close>

fun split_unq :: "bool \<Rightarrow> string \<Rightarrow> string \<Rightarrow> string list" where
  "split_unq q cur [] = [rev cur]"
| "split_unq q cur (c # s) =
     (if c = CHR 0x22 then split_unq (\<not> q) (c # cur) s
      else if c = CHR '','' \<and> \<not> q then rev cur # split_unq q [] s
      else split_unq q (c # cur) s)"

definition split_unquoted :: "string \<Rightarrow> string list" where
  "split_unquoted s = split_unq False [] s"

definition challenge_param :: "string \<Rightarrow> (string \<times> string) list \<Rightarrow> (string \<times> string) list" where
  "challenge_param part out =
     (case cut (trim_space part) ''='' of
        None \<Rightarrow> out
      | Some (k, v) \<Rightarrow> AList.update (to_lower (trim_space k)) (trim_chars ((=) (CHR 0x22)) (trim_space v)) out)"

definition parse_challenge :: "string \<Rightarrow> (string \<times> string) list option" where
  "parse_challenge h =
     (case cut (trim_space h) '' '' of
        None \<Rightarrow> None
      | Some (scheme, rest) \<Rightarrow>
          if \<not> equal_fold scheme ''bearer'' then None
          else Some (fold challenge_param (split_unquoted rest) []))"

definition param :: "(string \<times> string) list \<Rightarrow> string \<Rightarrow> string" where
  "param ps k = (case map_of ps k of None \<Rightarrow> [] | Some v \<Rightarrow> v)"

definition fetch_token ::
  "net \<Rightarrow> string \<Rightarrow> (string \<times> string) list \<Rightarrow> pool \<Rightarrow> pool \<times> (string \<times> gotime) option" where
  "fetch_token nt realm ps p =
     (let q = (if param ps ''service'' \<noteq> [] then [(''service'', param ps ''service'')] else [])
              @ (if param ps ''scope'' \<noteq> [] then [(''scope'', param ps ''scope'')] else [])
      in case nt_with_query nt realm q of
           None \<Rightarrow> (p, None)
         | Some u \<Rightarrow>
             if \<not> nt_url_ok nt u then (p, None)
             else case send nt \<lparr>wi_method = ''GET'', wi_url = u, wi_headers = hdr_set ''User-Agent'' (pl_ua p) [],
                               wi_body = [], wi_proxy = None\<rparr> p of
                    (p1, Inl _) \<Rightarrow> (p1, None)
                  | (p1, Inr resp) \<Rightarrow>
                      if rs_status resp \<noteq> 200 then (p1, None)
                      else if rs_end resp \<noteq> BodyEOF \<and> length (concat (rs_chunks resp)) < 1048576 then (p1, None)
                      else case nt_token_doc nt (take 1048576 (concat (rs_chunks resp))) of
                             None \<Rightarrow> (p1, None)
                           | Some doc \<Rightarrow>
                               let token = (if td_token doc = [] then td_access_token doc else td_token doc);
                                   ttl0 = wrap64 (td_expires_in doc * second);
                                   ttl = (if ttl0 \<le> 0 then 300 * second else ttl0)
                               in if token = [] then (p1, None) else (p1, Some (token, ttl)))"

definition token_key :: "string \<Rightarrow> (string \<times> string) list \<Rightarrow> string" where
  "token_key realm ps = realm @ ''|'' @ param ps ''service'' @ ''|'' @ param ps ''scope''"

text \<open>Go's integer division truncates towards zero.\<close>

definition quot :: "int \<Rightarrow> int \<Rightarrow> int" where
  "quot a b = sgn a * sgn b * (\<bar>a\<bar> div \<bar>b\<bar>)"

definition mint_token :: "net \<Rightarrow> string \<Rightarrow> string \<Rightarrow> (string \<times> string) list \<Rightarrow> pool \<Rightarrow> pool \<times> string option" where
  "mint_token nt key realm ps p =
     (case fetch_token nt realm ps p of
        (p1, None) \<Rightarrow> (p1, None)
      | (p1, Some (token, ttl)) \<Rightarrow>
          (p1\<lparr>pl_tokens := AList.update key
                 (token, nt_clock nt (length (pl_sent p1)) + quot (wrap64 (ttl * 8)) 10) (pl_tokens p1)\<rparr>,
           Some token))"

definition resolve_token :: "net \<Rightarrow> string \<Rightarrow> pool \<Rightarrow> pool \<times> string option" where
  "resolve_token nt challenge p =
     (case parse_challenge challenge of
        None \<Rightarrow> (p, None)
      | Some ps \<Rightarrow>
          let realm = param ps ''realm''; key = token_key realm ps
          in if realm = [] then (p, None)
             else case map_of (pl_tokens p) key of
                    None \<Rightarrow> mint_token nt key realm ps p
                  | Some (token, expires) \<Rightarrow>
                      if nt_clock nt (length (pl_sent p)) < expires then (p, Some token)
                      else mint_token nt key realm ps p)"

section \<open>pool.go\<close>

fun index_of :: "string \<Rightarrow> string \<Rightarrow> nat option" where
  "index_of [] sub = (if sub = [] then Some 0 else None)"
| "index_of (c # s) sub = (if has_prefix (c # s) sub then Some 0 else map_option Suc (index_of s sub))"

definition host_of :: "string \<Rightarrow> string" where
  "host_of raw =
     (let s1 = (case index_of raw ''://'' of None \<Rightarrow> raw | Some i \<Rightarrow> drop (i + 3) raw);
          s2 = (case index_of s1 ''/'' of None \<Rightarrow> s1 | Some i \<Rightarrow> take i s1)
      in if s2 = [] then ''unknown'' else s2)"

definition retryable :: "net \<Rightarrow> pool \<Rightarrow> string \<Rightarrow> request \<Rightarrow> up_error \<Rightarrow> bool" where
  "retryable nt p method r e =
     (if nt_cancelled nt (length (pl_sent p)) \<or> rq_body r \<noteq> [] \<or> (method \<noteq> ''GET'' \<and> method \<noteq> ''HEAD'') then False
      else e = ErrTransport ConnReset \<or> e = ErrTransport UnexpectedEOF \<or> e = ErrTransport PlainEOF)"

definition wire_headers :: "net \<Rightarrow> pool \<Rightarrow> request \<Rightarrow> header" where
  "wire_headers nt p r =
     (let h0 = fold (\<lambda>(k, vs) h. fold (hdr_add k) vs h) (rq_headers r) [];
          h1 = hdr_set ''User-Agent'' (pl_ua p) h0;
          h2 = (if hdr_get h1 ''Accept-Encoding'' = [] then hdr_set ''Accept-Encoding'' ''identity'' h1 else h1)
      in case rq_credential r of None \<Rightarrow> h2 | Some c \<Rightarrow> apply_credential nt c h2)"

definition pool_do :: "net \<Rightarrow> string \<Rightarrow> request \<Rightarrow> pool \<Rightarrow> pool \<times> (up_error + response)" where
  "pool_do nt method r p =
     (if rq_proxy r \<noteq> [] \<and> (case nt_proxy_host nt (rq_proxy r) of None \<Rightarrow> True | Some h \<Rightarrow> h = [])
      then (p, Inl (ErrInvalidProxy (rq_proxy r)))
      else if \<not> nt_url_ok nt (rq_url r) then (p, Inl (ErrBuildRequest (rq_url r)))
      else case send nt \<lparr>wi_method = method, wi_url = rq_url r, wi_headers = wire_headers nt p r,
                         wi_body = rq_body r,
                         wi_proxy = (if rq_proxy r = [] then None else Some (rq_proxy r))\<rparr> p of
             (p1, Inl t) \<Rightarrow> (p1, Inl (ErrTransport t))
           | (p1, Inr resp) \<Rightarrow> (p1, Inr resp))"

definition transport_retries :: nat where
  "transport_retries = 2"

fun open_retry ::
  "net \<Rightarrow> string \<Rightarrow> request \<Rightarrow> nat \<Rightarrow> pool \<times> (up_error + response) \<Rightarrow> pool \<times> (up_error + response)" where
  "open_retry nt method r 0 x = x"
| "open_retry nt method r (Suc n) (p, Inr resp) = (p, Inr resp)"
| "open_retry nt method r (Suc n) (p, Inl e) =
     (if \<not> retryable nt p method r e then (p, Inl e)
      else if nt_gave_up nt (length (pl_sent p)) then (p, Inl e)
      else open_retry nt method r n (pool_do nt method r p))"

definition open_one :: "net \<Rightarrow> string \<Rightarrow> request \<Rightarrow> pool \<Rightarrow> pool \<times> (up_error + response)" where
  "open_one nt method r p =
     (case open_retry nt method r transport_retries (pool_do nt method r p) of
        (p1, Inl e) \<Rightarrow> (p1, Inl e)
      | (p1, Inr resp) \<Rightarrow>
          if rs_status resp = 401 then
            (case resolve_token nt (hdr_get (rs_headers resp) ''WWW-Authenticate'') p1 of
               (p2, Some token) \<Rightarrow>
                 pool_do nt method (r\<lparr>rq_headers := hdr_set ''Authorization'' (''Bearer '' @ token) (rq_headers r)\<rparr>) p2
             | (p2, None) \<Rightarrow> (p2, Inr resp))
          else (p1, Inr resp))"

text \<open>A response that is not the chain's answer: the next origin is tried.\<close>

definition passes_on :: "request \<Rightarrow> response \<Rightarrow> bool" where
  "passes_on a resp \<longleftrightarrow> rs_status resp \<ge> 500 \<or> rs_status resp = 403 \<and> rq_optional a"

definition attempts_of :: "request \<Rightarrow> request list" where
  "attempts_of r =
     r # map (\<lambda>f. r\<lparr>rq_url := fb_url f, rq_credential := fb_credential f, rq_proxy := fb_proxy f,
                    rq_optional := fb_optional f, rq_fallbacks := []\<rparr>) (rq_fallbacks r)"

fun chain_go :: "net \<Rightarrow> string \<Rightarrow> request list \<Rightarrow> pool \<Rightarrow> pool \<times> (up_error + response)" where
  "chain_go nt method [] p = (p, Inl (ErrNoOrigin []))"
| "chain_go nt method [a] p = open_one nt method a p"
| "chain_go nt method (a # b # rest) p =
     (case open_one nt method a p of
        (p1, Inl e) \<Rightarrow> chain_go nt method (b # rest) p1
      | (p1, Inr resp) \<Rightarrow> if passes_on a resp then chain_go nt method (b # rest) p1 else (p1, Inr resp))"

definition open_chain :: "net \<Rightarrow> string \<Rightarrow> request \<Rightarrow> pool \<Rightarrow> pool \<times> (up_error + response)" where
  "open_chain nt method r p = chain_go nt method (attempts_of r) p"

definition pool_open :: "net \<Rightarrow> request \<Rightarrow> pool \<Rightarrow> pool \<times> (up_error + response)" where
  "pool_open nt r p = open_chain nt (if rq_method r = [] then ''GET'' else rq_method r) r p"

text \<open>ServedBy: the proxy a response was relayed through, or the URL it was finally fetched from.\<close>

definition served_by :: "wire \<Rightarrow> response \<Rightarrow> string" where
  "served_by w resp = (case wi_proxy w of Some q \<Rightarrow> q | None \<Rightarrow> rs_via resp)"

section \<open>idle.go\<close>

text \<open>
  One Read of a watched body: it waits \<open>waited\<close> for the origin and would have returned
  \<open>(n, err)\<close>. The timer is armed only for that wait; when it fires it cancels the request,
  and the error the read then ends with is reported as the silence it was.
\<close>

datatype read_err = ReadEOF | ReadIdle gotime | ReadFailed string

definition watch_idle :: "gotime \<Rightarrow> bool \<Rightarrow> bool" where
  "watch_idle idle no_body \<longleftrightarrow> \<not> (idle \<le> 0 \<or> no_body)"

definition idle_read ::
  "gotime \<Rightarrow> bool \<Rightarrow> gotime \<Rightarrow> nat \<times> read_err option \<Rightarrow> bool \<times> nat \<times> read_err option" where
  "idle_read idle fired waited res =
     (case res of (n, err) \<Rightarrow>
        let fired' = (fired \<or> waited > idle)
        in if err \<noteq> None \<and> fired' then (fired', n, Some (ReadIdle idle)) else (fired', n, err))"

section \<open>What one attempt sends\<close>

text \<open>\<open>adds p p' P n\<close>: from \<open>p\<close> to \<open>p'\<close> at most \<open>n\<close> requests were sent, each satisfying \<open>P\<close>.\<close>

definition adds :: "pool \<Rightarrow> pool \<Rightarrow> (wire \<Rightarrow> bool) \<Rightarrow> nat \<Rightarrow> bool" where
  "adds p p' P n \<longleftrightarrow>
     (\<exists>xs. pl_sent p' = pl_sent p @ xs \<and> list_all P xs \<and> length xs \<le> n) \<and> pl_ua p' = pl_ua p"

lemma adds_refl [simp]: "adds p p P n"
  by (auto simp: adds_def)

lemma adds_trans: "adds p q P m \<Longrightarrow> adds q r P n \<Longrightarrow> adds p r P (m + n)"
  unfolding adds_def by fastforce

lemma adds_mono: "adds p q P m \<Longrightarrow> (\<And>w. P w \<Longrightarrow> Q w) \<Longrightarrow> m \<le> n \<Longrightarrow> adds p q Q n"
  unfolding adds_def list_all_iff by fastforce

definition wire_of :: "string \<Rightarrow> request \<Rightarrow> wire \<Rightarrow> bool" where
  "wire_of method r w \<longleftrightarrow>
     wi_method w = method \<and> wi_url w = rq_url r \<and> wi_body w = rq_body r
     \<and> wi_proxy w = (if rq_proxy r = [] then None else Some (rq_proxy r))"

text \<open>A token request: a GET without body, credential or proxy, carrying only the user agent.\<close>

definition token_wire :: "pool \<Rightarrow> wire \<Rightarrow> bool" where
  "token_wire p w \<longleftrightarrow>
     wi_method w = ''GET'' \<and> wi_headers w = [(''User-Agent'', [pl_ua p])] \<and> wi_body w = [] \<and> wi_proxy w = None"

lemma adds_do: "pool_do nt m r p = (p', x) \<Longrightarrow> adds p p' (wire_of m r) 1"
  by (auto simp: pool_do_def send_def adds_def wire_of_def split: if_splits sum.splits)

lemma user_agent_header: "hdr_set ''User-Agent'' ua [] = [(''User-Agent'', [ua])]"
  by (simp add: hdr_set_def upper_char_def lower_char_def ord_def)

lemma adds_fetch: "fetch_token nt realm ps p = (p', x) \<Longrightarrow> adds p p' (token_wire p) 1"
  by (auto simp: fetch_token_def send_def adds_def token_wire_def Let_def user_agent_header
           split: if_splits option.splits sum.splits)

lemma adds_mint: "mint_token nt key realm ps p = (p', x) \<Longrightarrow> adds p p' (token_wire p) 1"
  by (auto simp: mint_token_def split: prod.splits option.splits dest!: adds_fetch) (simp add: adds_def)

lemma adds_resolve: "resolve_token nt c p = (p', x) \<Longrightarrow> adds p p' (token_wire p) 1"
  by (auto simp: resolve_token_def Let_def split: option.splits if_splits prod.splits dest: adds_mint)

lemma adds_retry:
  "open_retry nt m r n (p, x) = (p', y) \<Longrightarrow> adds p p' (wire_of m r) n"
proof (induction n arbitrary: p x)
  case (Suc n)
  show ?case
  proof (cases x)
    case (Inl e)
    obtain q z where q: "pool_do nt m r p = (q, z)" by fastforce
    show ?thesis
      using Suc Inl q adds_trans [OF adds_do [OF q], of p' n] by (auto split: if_splits)
  qed (use Suc in auto)
qed simp

lemma wire_of_headers [simp]: "wire_of m (r\<lparr>rq_headers := h\<rparr>) = wire_of m r"
  by (simp add: wire_of_def fun_eq_iff)

definition attempt_wire :: "pool \<Rightarrow> string \<Rightarrow> request \<Rightarrow> wire \<Rightarrow> bool" where
  "attempt_wire p m r w \<longleftrightarrow> wire_of m r w \<or> token_wire p w"

lemma token_wire_ua: "pl_ua q = pl_ua p \<Longrightarrow> token_wire q = token_wire p"
  by (simp add: token_wire_def fun_eq_iff)

lemma adds_open_one:
  assumes "open_one nt m r p = (p', x)"
  shows "adds p p' (attempt_wire p m r) 5"
proof -
  let ?P = "attempt_wire p m r"
  obtain p0 x0 where 0: "pool_do nt m r p = (p0, x0)" by fastforce
  obtain p1 x1 where 1: "open_retry nt m r transport_retries (p0, x0) = (p1, x1)" by fastforce
  have "adds p p1 (wire_of m r) (1 + 2)"
    by (rule adds_trans [OF adds_do [OF 0]]) (use adds_retry [OF 1] in \<open>simp add: transport_retries_def\<close>)
  then have a: "adds p p1 ?P 3" by (rule adds_mono) (auto simp: attempt_wire_def)
  then have ua: "pl_ua p1 = pl_ua p" by (simp add: adds_def)
  show ?thesis
  proof (cases x1)
    case (Inl e)
    with assms 0 1 have "p' = p1" by (simp add: open_one_def)
    with a show ?thesis by (rule_tac adds_mono) auto
  next
    case (Inr resp)
    obtain p2 t where 2: "resolve_token nt (hdr_get (rs_headers resp) ''WWW-Authenticate'') p1 = (p2, t)" by fastforce
    have "adds p1 p2 ?P 1"
      by (rule adds_mono [OF adds_resolve [OF 2]]) (auto simp: attempt_wire_def token_wire_ua [OF ua])
    then have b: "adds p p2 ?P (3 + 1)" by (rule adds_trans [OF a])
    have c: "adds p q ?P (4 + 1)" if "pool_do nt m (r\<lparr>rq_headers := h\<rparr>) p2 = (q, z)" for h q z
      by (rule adds_trans [OF b [simplified]], rule adds_mono [OF adds_do [OF that]]) (auto simp: attempt_wire_def)
    show ?thesis
      using assms 0 1 2 Inr a b c
      by (auto simp: open_one_def split: if_splits option.splits intro: adds_mono [where P = ?P])
  qed
qed

section \<open>Which attempt answers a chain\<close>

text \<open>
  \<open>tried nt m p as q\<close>: each of \<open>as\<close> was asked in turn, from pool \<open>p\<close> to pool \<open>q\<close>, and
  none of them gave an answer: a transport error, a 5xx, or an optional attempt's 403.
\<close>

inductive tried :: "net \<Rightarrow> string \<Rightarrow> pool \<Rightarrow> request list \<Rightarrow> pool \<Rightarrow> bool" for nt m where
  tried_nil: "tried nt m p [] p"
| tried_error: "open_one nt m a p = (q, Inl e) \<Longrightarrow> tried nt m q as r \<Longrightarrow> tried nt m p (a # as) r"
| tried_passes: "open_one nt m a p = (q, Inr resp) \<Longrightarrow> passes_on a resp \<Longrightarrow> tried nt m q as r \<Longrightarrow>
     tried nt m p (a # as) r"

lemma chain_go_split:
  assumes "chain_go nt m as p = (p', x)" and "as \<noteq> []"
  shows "\<exists>pre a post q. as = pre @ a # post \<and> tried nt m p pre q \<and> open_one nt m a q = (p', x)
           \<and> (post = [] \<or> (\<exists>resp. x = Inr resp \<and> \<not> passes_on a resp))"
  using assms
proof (induction as arbitrary: p rule: induct_list012)
  case (2 a)
  then show ?case using tried_nil by fastforce
next
  case (3 a b rest)
  obtain q y where q: "open_one nt m a p = (q, y)" by fastforce
  show ?case
  proof (cases "\<exists>resp. y = Inr resp \<and> \<not> passes_on a resp")
    case True
    with "3.prems" q have "(p', x) = (q, y)" by auto
    with q True show ?thesis by (intro exI [of _ "[]"] exI [of _ a] exI [of _ "b # rest"] exI [of _ p]) (auto intro: tried_nil)
  next
    case False
    with "3.prems" q have "chain_go nt m (b # rest) q = (p', x)" by (cases y) auto
    then obtain pre c post r where r: "b # rest = pre @ c # post" "tried nt m q pre r" "open_one nt m c r = (p', x)"
      "post = [] \<or> (\<exists>resp. x = Inr resp \<and> \<not> passes_on c resp)"
      using "3.IH"(2) by blast
    have "tried nt m p (a # pre) r"
      using q False r(2) by (cases y) (auto intro: tried_error tried_passes)
    with r show ?thesis
      by (intro exI [of _ "a # pre"] exI [of _ c] exI [of _ post] exI [of _ r]) simp
  qed
qed simp

lemma tried_adds: "tried nt m p as q \<Longrightarrow> adds p q (\<lambda>w. \<exists>a \<in> set as. attempt_wire p m a w) (5 * length as)"
proof (induction rule: tried.induct)
  case (tried_error a p q e as r)
  have o: "adds p q (\<lambda>w. \<exists>b \<in> set (a # as). attempt_wire p m b w) 5"
    by (rule adds_mono [OF adds_open_one [OF tried_error.hyps(1)]]) auto
  have ua: "pl_ua q = pl_ua p" using o by (simp add: adds_def)
  have "adds q r (\<lambda>w. \<exists>b \<in> set (a # as). attempt_wire p m b w) (5 * length as)"
    by (intro adds_mono [OF tried_error.IH]) (auto simp: attempt_wire_def token_wire_ua [OF ua])
  from adds_trans [OF o this] show ?case by simp
next
  case (tried_passes a p q resp as r)
  have o: "adds p q (\<lambda>w. \<exists>b \<in> set (a # as). attempt_wire p m b w) 5"
    by (rule adds_mono [OF adds_open_one [OF tried_passes.hyps(1)]]) auto
  have ua: "pl_ua q = pl_ua p" using o by (simp add: adds_def)
  have "adds q r (\<lambda>w. \<exists>b \<in> set (a # as). attempt_wire p m b w) (5 * length as)"
    by (intro adds_mono [OF tried_passes.IH]) (auto simp: attempt_wire_def token_wire_ua [OF ua])
  from adds_trans [OF o this] show ?case by simp
qed simp

text \<open>
  C4. The fallback chain: the origins are asked in order, and the answer is that of the
  first one that answers at all (no transport error, no 5xx, no optional attempt's 403), or
  of the last one whatever it is. Every request sent was for one of the origins up to that
  one, or was an anonymous token request; an origin behind the one that answered, a 404 or
  a 401 included, is never contacted.
\<close>

theorem open_chain_answer:
  assumes "open_chain nt m r p = (p', x)"
  shows "\<exists>pre a post q. attempts_of r = pre @ a # post \<and> tried nt m p pre q \<and> open_one nt m a q = (p', x)
           \<and> (post = [] \<or> (\<exists>resp. x = Inr resp \<and> rs_status resp < 500 \<and> (rs_status resp = 403 \<longrightarrow> \<not> rq_optional a)))
           \<and> adds p p' (\<lambda>w. \<exists>b. b \<in> set (pre @ [a]) \<and> attempt_wire p m b w) (5 * (length pre + 1))"
proof -
  have "attempts_of r \<noteq> []" by (simp add: attempts_of_def)
  from chain_go_split [OF assms [unfolded open_chain_def] this] obtain pre a post q where c: "attempts_of r = pre @ a # post" "tried nt m p pre q"
    "open_one nt m a q = (p', x)" "post = [] \<or> (\<exists>resp. x = Inr resp \<and> \<not> passes_on a resp)"
    by (elim exE conjE) (rule that)
  let ?P = "\<lambda>w. \<exists>b. b \<in> set (pre @ [a]) \<and> attempt_wire p m b w"
  have t: "adds p q ?P (5 * length pre)"
    by (rule adds_mono [OF tried_adds [OF c(2)]]) auto
  then have ua: "pl_ua q = pl_ua p" by (simp add: adds_def)
  have "adds q p' ?P 5"
    by (rule adds_mono [OF adds_open_one [OF c(3)]]) (auto simp: attempt_wire_def token_wire_ua [OF ua])
  with t have "adds p p' ?P (5 * length pre + 5)" by (rule adds_trans)
  with c(1-3) c(4) [unfolded passes_on_def de_Morgan_disj de_Morgan_conj not_le] show ?thesis 
    by (rule_tac exI [of _ pre], rule_tac exI [of _ a], rule_tac exI [of _ post], rule_tac exI [of _ q])
      (simp add: add.commute)
qed

section \<open>Requests that must not be repeated\<close>


section \<open>The challenge parser\<close>

lemma join_Cons: "ws \<noteq> [] \<Longrightarrow> join_with sep (w # ws) = w @ sep @ join_with sep ws"
  by (cases ws) auto

lemma split_unq_nonempty [simp]: "split_unq q cur s \<noteq> []"
  by (induction q cur s rule: split_unq.induct) auto

lemma split_unq_join: "join_with '','' (split_unq q cur s) = rev cur @ s"
  by (induction q cur s rule: split_unq.induct) (auto simp: join_Cons)

text \<open>Only the last piece can end inside a quotation: the others have no comma outside one.\<close>

fun quote_state :: "bool \<Rightarrow> string \<Rightarrow> bool" where
  "quote_state q [] = q"
| "quote_state q (c # s) = quote_state (if c = CHR 0x22 then \<not> q else q) s"

fun comma_free :: "bool \<Rightarrow> string \<Rightarrow> bool" where
  "comma_free q [] = True"
| "comma_free q (c # s) = ((c = CHR '','' \<longrightarrow> q) \<and> comma_free (if c = CHR 0x22 then \<not> q else q) s)"

lemma comma_free_append: "comma_free q (s @ t) \<longleftrightarrow> comma_free q s \<and> comma_free (quote_state q s) t"
  by (induction s arbitrary: q) auto

lemma quote_state_append: "quote_state q (s @ t) = quote_state (quote_state q s) t"
  by (induction s arbitrary: q) auto

lemma split_unq_pieces:
  "comma_free False (rev cur) \<Longrightarrow> quote_state False (rev cur) = q \<Longrightarrow>
     list_all (comma_free False) (split_unq q cur s)"
  by (induction q cur s rule: split_unq.induct) (auto simp: comma_free_append quote_state_append)


section \<open>Witnesses\<close>

definition ex_resp :: "int \<Rightarrow> response" where
  "ex_resp c = \<lparr>rs_status = c, rs_headers = [], rs_chunks = [], rs_end = BodyEOF, rs_via = ''u''\<rparr>"

text \<open>A network whose first origin resets three connections and whose second answers 404.\<close>

definition ex_net :: net where
  "ex_net = \<lparr>nt_do = (\<lambda>n w. if n < 3 then Inl ConnReset else Inr (ex_resp 404)),
             nt_cancelled = (\<lambda>_. False), nt_gave_up = (\<lambda>_. False), nt_clock = (\<lambda>n. int n),
             nt_proxy_host = (\<lambda>_. None), nt_url_ok = (\<lambda>_. True), nt_with_query = (\<lambda>u _. Some u),
             nt_token_doc = (\<lambda>_. None), nt_basic_auth = (\<lambda>u p. u @ p)\<rparr>"

definition ex_request :: request where
  "ex_request = \<lparr>rq_url = ''http://team/x'', rq_method = [], rq_headers = [], rq_body = [], rq_credential = None,
     rq_eco = ''pypi'',
     rq_fallbacks = [\<lparr>fb_url = ''http://pub/x'', fb_credential = None, fb_proxy = [], fb_optional = False\<rparr>,
                     \<lparr>fb_url = ''http://third/x'', fb_credential = None, fb_proxy = [], fb_optional = False\<rparr>],
     rq_proxy = [], rq_optional = False\<rparr>"

definition ex_pool :: pool where
  "ex_pool = \<lparr>pl_ua = ''pkgreg/1'', pl_tokens = [], pl_sent = []\<rparr>"

lemma ex_chain:
  "map wi_url (pl_sent (fst (open_chain ex_net ''GET'' ex_request ex_pool)))
     = [''http://team/x'', ''http://team/x'', ''http://team/x'', ''http://pub/x'']"
  "snd (open_chain ex_net ''GET'' ex_request ex_pool) = Inr (ex_resp 404)"
  by (simp_all add: open_chain_def attempts_of_def ex_request_def ex_net_def ex_pool_def open_one_def
      pool_do_def send_def transport_retries_def numeral_2_eq_2 retryable_def passes_on_def ex_resp_def)

theorem open_chain_answer_witness:
  "\<exists>pre a post q. attempts_of ex_request = pre @ a # post \<and> tried ex_net ''GET'' ex_pool pre q
     \<and> open_one ex_net ''GET'' a q = open_chain ex_net ''GET'' ex_request ex_pool"
  using open_chain_answer [of ex_net "''GET''" ex_request ex_pool
      "fst (open_chain ex_net ''GET'' ex_request ex_pool)" "snd (open_chain ex_net ''GET'' ex_request ex_pool)"]
  by auto


end
