(* ===== verification/EntryCache.thy ===== *)
theory EntryCache
  imports Digest "HOL-Library.Product_Lexorder" "HOL-Library.Multiset"
begin

text \<open>
  The data of package catalog the rest is built on (go/internal/catalog/types.go): entry keys,
  entries, and the least-recently-used cache in front of the entries table (cache.go). The
  cache's contract towards the database layer is the locale \<open>read_cache\<close>: what a lookup
  may return after each operation, and from it that a cache which agrees with a view of the
  table keeps agreeing. It is interpreted on the operations of cache.go below.
\<close>

section \<open>types.go: keys and entries\<close>

datatype entry_key = EntryKey (k_project: string) (k_eco: string) (k_key: string)

text \<open>Keys are ordered by project, ecosystem and key, the order of the primary key.\<close>

instantiation entry_key :: linorder
begin

definition less_eq_entry_key :: "entry_key \<Rightarrow> entry_key \<Rightarrow> bool" where
  "less_eq_entry_key a b \<longleftrightarrow> (k_project a, k_eco a, k_key a) \<le> (k_project b, k_eco b, k_key b)"

definition less_entry_key :: "entry_key \<Rightarrow> entry_key \<Rightarrow> bool" where
  "less_entry_key a b \<longleftrightarrow> (k_project a, k_eco a, k_key a) < (k_project b, k_eco b, k_key b)"

instance
proof
  fix x y z :: entry_key
  show "(x < y) = (x \<le> y \<and> \<not> y \<le> x)"
    by (auto simp: less_eq_entry_key_def less_entry_key_def)
  show "x \<le> x" by (simp add: less_eq_entry_key_def)
  show "x \<le> y \<Longrightarrow> y \<le> z \<Longrightarrow> x \<le> z"
    unfolding less_eq_entry_key_def by (rule order_trans)
  show "x \<le> y \<Longrightarrow> y \<le> x \<Longrightarrow> x = y"
    unfolding less_eq_entry_key_def by (cases x; cases y) (auto dest: antisym)
  show "x \<le> y \<or> y \<le> x"
    unfolding less_eq_entry_key_def by (rule linear)
qed

end

record entry =
  en_key :: entry_key
  en_digest :: digest
  en_size :: int64
  en_media :: string
  en_cached :: gotime
  en_access :: gotime
  en_hits :: int64

text \<open>What of an entry serves a request: the digest, its size and its media type.\<close>

definition en_content :: "entry \<Rightarrow> digest \<times> int64 \<times> string" where
  "en_content e = (en_digest e, en_size e, en_media e)"

section \<open>The contract of a read cache\<close>

text \<open>
  \<open>look\<close> is the cache's content, \<open>get\<close> the lookup that may reorder it, \<open>put\<close>
  stores a value under its key, \<open>drop1\<close> removes one key and \<open>drop_all\<close> those satisfying
  a predicate. A cache may forget, so the laws bound what a lookup can return.
\<close>

locale read_cache =
  fixes ok :: "'c \<Rightarrow> bool"
    and look :: "'c \<Rightarrow> 'k \<Rightarrow> 'v option"
    and get :: "'k \<Rightarrow> 'c \<Rightarrow> 'c \<times> 'v option"
    and put :: "'k \<Rightarrow> 'v \<Rightarrow> 'c \<Rightarrow> 'c"
    and drop1 :: "'k \<Rightarrow> 'c \<Rightarrow> 'c"
    and drop_all :: "('k \<Rightarrow> bool) \<Rightarrow> 'c \<Rightarrow> 'c"
  assumes get_result: "snd (get k c) = look c k"
    and get_keeps: "look (fst (get k c)) = look c"
    and put_same: "ok c \<Longrightarrow> look (put k v c) k = Some v"
    and put_other: "j \<noteq> k \<Longrightarrow> look (put k v c) j = Some w \<Longrightarrow> look c j = Some w"
    and drop1_look: "look (drop1 k c) j = (if j = k then None else look c j)"
    and drop_all_look: "look (drop_all P c) j = (if P j then None else look c j)"
    and ok_get: "ok c \<Longrightarrow> ok (fst (get k c))"
    and ok_put: "ok c \<Longrightarrow> ok (put k v c)"
    and ok_drop1: "ok c \<Longrightarrow> ok (drop1 k c)"
    and ok_drop_all: "ok c \<Longrightarrow> ok (drop_all P c)"
begin

text \<open>The cache agrees with a view of the table up to an observation \<open>obs\<close> of the values.\<close>

definition agrees :: "('v \<Rightarrow> 'o) \<Rightarrow> ('k \<Rightarrow> 'o option) \<Rightarrow> 'c \<Rightarrow> bool" where
  "agrees obs view c \<longleftrightarrow> ok c \<and> (\<forall>k v. look c k = Some v \<longrightarrow> view k = Some (obs v))"

lemma agreesD: "agrees obs view c \<Longrightarrow> look c k = Some v \<Longrightarrow> view k = Some (obs v)"
  by (simp add: agrees_def)

lemma agrees_get: "agrees obs view c \<Longrightarrow> agrees obs view (fst (get k c))"
  by (simp add: agrees_def get_keeps ok_get)

lemma agrees_hit: "agrees obs view c \<Longrightarrow> snd (get k c) = Some v \<Longrightarrow> view k = Some (obs v)"
  by (simp add: agrees_def get_result)

lemma agrees_put:
  assumes "agrees obs view c"
  shows "agrees obs (view(k \<mapsto> obs v)) (put k v c)"
  unfolding agrees_def
proof (intro conjI allI impI)
  have ok: "ok c" using assms by (simp add: agrees_def)
  then show "ok (put k v c)" by (rule ok_put)
  fix j w
  assume l: "look (put k v c) j = Some w"
  show "(view(k \<mapsto> obs v)) j = Some (obs w)"
  proof (cases "j = k")
    case True
    then show ?thesis using l put_same [OF ok, of k v] by simp
  next
    case False
    then show ?thesis using agreesD [OF assms put_other [OF False l]] by simp
  qed
qed

lemma agrees_fill: "agrees obs view c \<Longrightarrow> view k = Some (obs v) \<Longrightarrow> agrees obs view (put k v c)"
  using agrees_put [of obs view c k v] by (simp add: fun_upd_idem)

lemma agrees_drop1: "agrees obs view c \<Longrightarrow> agrees obs (view(k := u)) (drop1 k c)"
  by (auto simp: agrees_def drop1_look ok_drop1 split: if_splits)

lemma agrees_drop_all:
  "agrees obs view c \<Longrightarrow> (\<And>k. \<not> P k \<Longrightarrow> view' k = view k) \<Longrightarrow> agrees obs view' (drop_all P c)"
  by (auto simp: agrees_def drop_all_look ok_drop_all split: if_splits)

lemma agrees_view: "agrees obs view c \<Longrightarrow> view' = view \<Longrightarrow> agrees obs view' c"
  by simp

end

section \<open>cache.go\<close>

text \<open>The list is \<open>ll\<close>, front first; \<open>items\<close> indexes it, so it is the list's \<open>map_of\<close>.\<close>

record entry_cache =
  ec_capacity :: nat
  ec_items :: "(entry_key \<times> entry) list"

definition new_entry_cache :: "int \<Rightarrow> entry_cache" where
  "new_entry_cache capacity = \<lparr>ec_capacity = (if capacity < 1 then 1 else nat capacity), ec_items = []\<rparr>"

definition move_to_front :: "entry_key \<Rightarrow> entry \<Rightarrow> entry_cache \<Rightarrow> entry_cache" where
  "move_to_front k e c = c\<lparr>ec_items := (k, e) # AList.delete k (ec_items c)\<rparr>"

definition cache_get :: "entry_key \<Rightarrow> entry_cache \<Rightarrow> entry_cache \<times> entry option" where
  "cache_get k c =
     (case map_of (ec_items c) k of
        None \<Rightarrow> (c, None)
      | Some e \<Rightarrow> (move_to_front k e c, Some e))"

definition evict_oldest :: "entry_cache \<Rightarrow> entry_cache" where
  "evict_oldest c = c\<lparr>ec_items := butlast (ec_items c)\<rparr>"

definition cache_put :: "entry_key \<Rightarrow> entry \<Rightarrow> entry_cache \<Rightarrow> entry_cache" where
  "cache_put k e c =
     (if map_of (ec_items c) k \<noteq> None then move_to_front k e c
      else let c' = c\<lparr>ec_items := (k, e) # ec_items c\<rparr>
           in if length (ec_items c') > ec_capacity c' then evict_oldest c' else c')"

definition cache_drop :: "entry_key \<Rightarrow> entry_cache \<Rightarrow> entry_cache" where
  "cache_drop k c = c\<lparr>ec_items := AList.delete k (ec_items c)\<rparr>"

definition cache_drop_if :: "(entry_key \<Rightarrow> bool) \<Rightarrow> entry_cache \<Rightarrow> entry_cache" where
  "cache_drop_if P c = c\<lparr>ec_items := filter (\<lambda>kv. \<not> P (fst kv)) (ec_items c)\<rparr>"

definition drop_project :: "string \<Rightarrow> entry_cache \<Rightarrow> entry_cache" where
  "drop_project p = cache_drop_if (\<lambda>k. k_project k = p)"

definition cache_look :: "entry_cache \<Rightarrow> entry_key \<Rightarrow> entry option" where
  "cache_look c = map_of (ec_items c)"

definition cache_ok :: "entry_cache \<Rightarrow> bool" where
  "cache_ok c \<longleftrightarrow> distinct (map fst (ec_items c)) \<and> length (ec_items c) \<le> ec_capacity c \<and> 1 \<le> ec_capacity c"

lemma map_of_butlast: "map_of (butlast xs) k = Some v \<Longrightarrow> map_of xs k = Some v"
  by (induction xs) (auto split: if_splits)

lemma keys_delete: "map fst (AList.delete k xs) = filter (\<lambda>j. j \<noteq> k) (map fst xs)"
  by (induction xs) auto

lemma delete_notin: "map_of xs k = None \<Longrightarrow> AList.delete k xs = xs"
  by (simp add: AList.delete_eq map_of_eq_None_iff filter_id_conv) force

lemma length_delete: "distinct (map fst xs) \<Longrightarrow> map_of xs k = Some v \<Longrightarrow> Suc (length (AList.delete k xs)) = length xs"
proof (induction xs)
  case Nil
  then show ?case by simp
next
  case (Cons x xs)
  show ?case
  proof (cases "fst x = k")
    case True
    then have "map_of xs k = None" using Cons.prems by (cases x) (auto simp: map_of_eq_None_iff)
    then show ?thesis using True by (cases x) (simp add: delete_notin)
  next
    case False
    then show ?thesis using Cons by (cases x) auto
  qed
qed

lemma length_delete_less: "distinct (map fst xs) \<Longrightarrow> map_of xs k = Some v \<Longrightarrow> length (AList.delete k xs) < length xs"
  using length_delete [of xs k v] by simp

lemma move_ok: "cache_ok c \<Longrightarrow> map_of (ec_items c) k = Some v \<Longrightarrow> cache_ok (move_to_front k e c)"
  using length_delete [of "ec_items c" k v]
  by (simp add: cache_ok_def move_to_front_def keys_delete)

lemma cache_get_ok: "cache_ok c \<Longrightarrow> cache_ok (fst (cache_get k c))"
  by (auto simp: cache_get_def move_ok split: option.splits)

lemma cache_put_ok: "cache_ok c \<Longrightarrow> cache_ok (cache_put k e c)"
  by (auto simp: cache_put_def move_ok Let_def)
     (auto simp: cache_ok_def evict_oldest_def map_butlast distinct_butlast map_of_eq_None_iff
        dest: in_set_butlastD)

lemma cache_drop_ok: "cache_ok c \<Longrightarrow> cache_ok (cache_drop k c)"
  using length_delete_le [of k "ec_items c"] by (simp add: cache_ok_def cache_drop_def distinct_delete)

lemma cache_drop_if_ok: "cache_ok c \<Longrightarrow> cache_ok (cache_drop_if P c)"
  by (auto simp: cache_ok_def cache_drop_if_def distinct_map_filter intro: order_trans [OF length_filter_le])

lemma new_cache_ok: "cache_ok (new_entry_cache n)"
  by (simp add: cache_ok_def new_entry_cache_def) linarith

interpretation lru: read_cache cache_ok cache_look cache_get cache_put cache_drop cache_drop_if
proof
  fix c :: entry_cache and k j :: entry_key and v w :: entry and P
  show "snd (cache_get k c) = cache_look c k"
    by (simp add: cache_get_def cache_look_def split: option.splits)
  show "cache_look (fst (cache_get k c)) = cache_look c"
    by (auto simp: cache_get_def cache_look_def move_to_front_def split: option.splits)
  show "cache_ok c \<Longrightarrow> cache_look (cache_put k v c) k = Some v"
    by (auto simp: cache_put_def cache_look_def move_to_front_def evict_oldest_def cache_ok_def Let_def)
  show "j \<noteq> k \<Longrightarrow> cache_look (cache_put k v c) j = Some w \<Longrightarrow> cache_look c j = Some w"
    by (auto simp: cache_put_def cache_look_def move_to_front_def evict_oldest_def Let_def
        split: if_splits dest: map_of_butlast)
  show "cache_look (cache_drop k c) j = (if j = k then None else cache_look c j)"
    by (simp add: cache_drop_def cache_look_def)
  show "cache_look (cache_drop_if P c) j = (if P j then None else cache_look c j)"
    using map_of_filter_key [of "\<lambda>k. \<not> P k" "ec_items c" j] by (simp add: cache_drop_if_def cache_look_def)
qed (auto simp: cache_get_ok cache_put_ok cache_drop_ok cache_drop_if_ok)

end
