(* ===== verification/Catalog.thy ===== *)
theory Catalog
  imports EntryCache
begin

text \<open>
  Package catalog (go/internal/catalog): the metadata database (sqlite.go), its batched entry
  writes (batch.go) and the tables of schema.go. A table is an association list from its
  primary key to its row; each SQL statement of the source is the list operation its text
  says; a transaction that fails leaves the database as it was. The database driver may
  refuse any transaction: \<open>db_fault\<close> says which of a call's transactions it refuses.
\<close>

section \<open>types.go\<close>

datatype cat_error =
    CatNotFound
  | CatClosed
  | CatQuota (qe_kind: string) (qe_usage: int) (qe_limit: int) (qe_attempt: int)
  | CatInvalidDigest
  | CatArguments
  | CatNonFastForward string string
  | CatForeignEntry string
  | CatInvalidEntry
  | CatSql string

record quota =
  qu_bytes :: int64
  qu_artifacts :: int64

record blob_row =
  br_size :: int64
  br_created :: gotime
  br_access :: gotime

datatype ref_key = RefKey (rk_project: string) (rk_eco: string) (rk_name: string)

record ref_row =
  rf_key :: ref_key
  rf_target :: string
  rf_media :: string
  rf_etag :: string
  rf_modified :: string
  rf_fetched :: gotime
  rf_ttl :: gotime
  rf_source :: string

definition ref_fresh :: "ref_row \<Rightarrow> gotime \<Rightarrow> bool" where
  "ref_fresh r now = (if rf_ttl r \<le> 0 then False else now - rf_fetched r < rf_ttl r)"

text \<open>\<open>Extra\<close> is kept as the JSON text of its column, empty for an empty map.\<close>

record artifact =
  ar_project :: string
  ar_eco :: string
  ar_name :: string
  ar_version :: string
  ar_arch :: string
  ar_digest :: digest
  ar_size :: int64
  ar_origin :: string
  ar_cached :: gotime
  ar_extra :: string

type_synonym artifact_key = "string \<times> string \<times> string \<times> string \<times> string"

definition artifact_key :: "artifact \<Rightarrow> artifact_key" where
  "artifact_key a = (ar_project a, ar_eco a, ar_name a, ar_version a, ar_arch a)"

record snapshot =
  sn_id :: string
  sn_project :: string
  sn_parent :: string
  sn_manifest :: digest
  sn_count :: int64
  sn_bytes :: int64
  sn_created :: gotime
  sn_subject :: string
  sn_author :: string

record entry_query =
  eq_project :: string
  eq_eco :: string
  eq_prefix :: string
  eq_limit :: int
  eq_offset :: int

record artifact_query =
  aq_project :: string
  aq_eco :: string
  aq_search :: string
  aq_sort :: string
  aq_page :: int
  aq_page_size :: int

record entry_touch =
  to_key :: entry_key
  to_digest :: digest
  to_hits :: int64
  to_access :: gotime

record access_delta =
  ad_project :: string
  ad_eco :: string
  ad_name :: string
  ad_count :: int64
  ad_access :: gotime

record traffic_row =
  tr_hit_count :: int64
  tr_hit_bytes :: int64
  tr_miss_count :: int64
  tr_miss_bytes :: int64

section \<open>schema.go: the tables\<close>

text \<open>Times are stored as whole seconds; rows below hold them as they are read back.\<close>

record db =
  db_blobs :: "(digest \<times> blob_row) list"
  db_entries :: "(entry_key \<times> entry) list"
  db_refs :: "(ref_key \<times> ref_row) list"
  db_artifacts :: "(artifact_key \<times> artifact) list"
  db_snapshots :: "(string \<times> snapshot) list"
  db_heads :: "(string \<times> string) list"
  db_access :: "((string \<times> string \<times> string) \<times> int64 \<times> gotime) list"
  db_traffic :: "((string \<times> string) \<times> traffic_row) list"

definition empty_db :: db where
  "empty_db = \<lparr>db_blobs = [], db_entries = [], db_refs = [], db_artifacts = [], db_snapshots = [],
               db_heads = [], db_access = [], db_traffic = []\<rparr>"

definition ts :: "gotime \<Rightarrow> int64" where
  "ts t = (if t = 0 then 0 else t div second)"

definition from_ts :: "int64 \<Rightarrow> gotime" where
  "from_ts i = (if i = 0 then 0 else i * second)"

text \<open>A time as the database keeps it: written by \<open>ts\<close>, read by \<open>fromTS\<close>.\<close>

definition col_time :: "gotime \<Rightarrow> gotime" where
  "col_time t = from_ts (ts t)"

section \<open>The SQL the sources use\<close>

text \<open>
  \<open>INSERT .. ON CONFLICT .. DO UPDATE\<close>: the row of a fresh key, or the update of the
  stored one; \<open>DELETE .. WHERE\<close>; \<open>UPDATE .. WHERE\<close> the key; and \<open>SUM\<close>, which
  fails when the total leaves 64 bits.
\<close>

definition upsert :: "'k \<Rightarrow> 'r \<Rightarrow> ('r \<Rightarrow> 'r) \<Rightarrow> ('k \<times> 'r) list \<Rightarrow> ('k \<times> 'r) list" where
  "upsert k r f t = (case map_of t k of None \<Rightarrow> (k, r) # t | Some old \<Rightarrow> AList.update k (f old) t)"

definition delete_where :: "('k \<Rightarrow> 'r \<Rightarrow> bool) \<Rightarrow> ('k \<times> 'r) list \<Rightarrow> ('k \<times> 'r) list" where
  "delete_where P t = filter (\<lambda>kr. \<not> P (fst kr) (snd kr)) t"

definition update_key :: "'k \<Rightarrow> ('r \<Rightarrow> 'r) \<Rightarrow> ('k \<times> 'r) list \<Rightarrow> ('k \<times> 'r) list" where
  "update_key k f t = map (\<lambda>kr. if fst kr = k then (fst kr, f (snd kr)) else kr) t"

definition select :: "('k \<Rightarrow> 'r \<Rightarrow> bool) \<Rightarrow> ('k \<times> 'r) list \<Rightarrow> 'r list" where
  "select P t = map snd (filter (\<lambda>kr. P (fst kr) (snd kr)) t)"

definition sql_sum :: "int list \<Rightarrow> cat_error + int" where
  "sql_sum xs = (if is_int64 (sum_list xs) then Inr (sum_list xs) else Inl (CatSql ''integer overflow''))"

definition limit_offset :: "int \<Rightarrow> int \<Rightarrow> 'a list \<Rightarrow> 'a list" where
  "limit_offset n off xs = take (nat n) (drop (nat off) xs)"

text \<open>\<open>GLOB\<close>: \<open>*\<close> any sequence, \<open>?\<close> any character, a bracketed class one of its members.\<close>

fun class_end :: "string \<Rightarrow> (string \<times> string) option" where
  "class_end [] = None"
| "class_end (c # p) = (if c = CHR '']'' then Some ([], p) else map_option (\<lambda>(m, r). (c # m, r)) (class_end p))"

fun class_has :: "string \<Rightarrow> char \<Rightarrow> bool" where
  "class_has (a # m # b # cs) x =
     (if m = CHR ''-'' then (ord a \<le> ord x \<and> ord x \<le> ord b) \<or> class_has cs x
      else x = a \<or> class_has (m # b # cs) x)"
| "class_has (a # cs) x = (x = a \<or> class_has cs x)"
| "class_has [] x = False"

text \<open>The class after an opening bracket: negation, a leading bracket as a member, the rest.\<close>

definition glob_class :: "string \<Rightarrow> (bool \<times> string \<times> string) option" where
  "glob_class p =
     (let (neg, q) = (case p of c # r \<Rightarrow> if c = CHR ''^'' then (True, r) else (False, p) | [] \<Rightarrow> (False, []))
      in case q of
           [] \<Rightarrow> None
         | c # r \<Rightarrow> map_option (\<lambda>(m, rest). (neg, c # m, rest))
                      (class_end r))"

lemma class_end_shorter: "class_end p = Some (m, r) \<Longrightarrow> length r < length p"
  by (induction p arbitrary: m r) (auto split: if_splits simp: less_SucI)

lemma glob_class_shorter: "glob_class p = Some (n, m, r) \<Longrightarrow> length r < length p"
  by (auto simp: glob_class_def split: list.splits if_splits dest: class_end_shorter)

function glob :: "string \<Rightarrow> string \<Rightarrow> bool" where
  "glob [] s = (s = [])"
| "glob (c # p) s =
     (if c = CHR ''*'' then glob p s \<or> (case s of [] \<Rightarrow> False | _ # t \<Rightarrow> glob (c # p) t)
      else case s of
             [] \<Rightarrow> False
           | x # t \<Rightarrow>
               (if c = CHR ''?'' then glob p t
                else if c = CHR ''['' then
                  (case glob_class p of
                     None \<Rightarrow> False
                   | Some (neg, m, rest) \<Rightarrow> class_has m x \<noteq> neg \<and> glob rest t)
                else x = c \<and> glob p t))"
  by pat_completeness auto
termination
  apply (relation "measure (\<lambda>(p, s). length p + length s)")
  apply auto
  apply (drule glob_class_shorter)
  apply simp
  done

declare glob.simps [simp del]
section \<open>sqlite.go and batch.go: the state\<close>

record catalog =
  ct_db :: db
  ct_pending :: "(entry_key \<times> entry) list"
  ct_cache :: entry_cache
  ct_batch_size :: int
  ct_closed :: bool
  ct_flush_err :: "cat_error option"

text \<open>Which transactions of a call the driver refuses: the flush in front of it, or its own.\<close>

datatype db_fault = NoFault | FlushFault | TxFault

definition in_tx :: "db_fault \<Rightarrow> (db \<Rightarrow> cat_error + db \<times> 'a) \<Rightarrow> catalog \<Rightarrow> catalog \<times> (cat_error + 'a)" where
  "in_tx flt f c =
     (if flt = TxFault then (c, Inl (CatSql ''refused''))
      else case f (ct_db c) of
             Inl e \<Rightarrow> (c, Inl e)
           | Inr (d, a) \<Rightarrow> (c\<lparr>ct_db := d\<rparr>, Inr a))"

definition set_defaults_batch :: "int \<Rightarrow> int" where
  "set_defaults_batch n = (if n \<le> 0 then 500 else n)"

definition set_defaults_cache :: "int \<Rightarrow> int" where
  "set_defaults_cache n = (if n \<le> 0 then 4096 else n)"

definition catalog_open :: "int \<Rightarrow> int \<Rightarrow> db \<Rightarrow> catalog" where
  "catalog_open batch cap d =
     \<lparr>ct_db = d, ct_pending = [], ct_cache = new_entry_cache (set_defaults_cache cap),
      ct_batch_size = set_defaults_batch batch, ct_closed = False, ct_flush_err = None\<rparr>"

definition or_now :: "gotime \<Rightarrow> gotime \<Rightarrow> gotime" where
  "or_now now t = (if t = 0 then now else t)"

definition with_times :: "gotime \<Rightarrow> entry \<Rightarrow> entry" where
  "with_times now e = e\<lparr>en_cached := or_now now (en_cached e), en_access := or_now now (en_access e)\<rparr>"

section \<open>Rows\<close>

text \<open>\<open>grow\<close> tells the statement that also replaces a stored size from the one that does not.\<close>

definition put_blob :: "bool \<Rightarrow> digest \<Rightarrow> int64 \<Rightarrow> gotime \<Rightarrow> gotime \<Rightarrow> db \<Rightarrow> db" where
  "put_blob grow dg sz cr ac d =
     d\<lparr>db_blobs := upsert dg \<lparr>br_size = sz, br_created = col_time cr, br_access = col_time ac\<rparr>
         (\<lambda>old. old\<lparr>br_access := max (br_access old) (col_time ac),
                    br_size := (if grow then sz else br_size old)\<rparr>) (db_blobs d)\<rparr>"

definition entry_row :: "entry \<Rightarrow> entry" where
  "entry_row e = e\<lparr>en_cached := col_time (en_cached e), en_access := col_time (en_access e)\<rparr>"

definition merge_entry :: "entry \<Rightarrow> entry \<Rightarrow> entry" where
  "merge_entry new old =
     (entry_row new)\<lparr>en_access := max (en_access old) (col_time (en_access new)),
                     en_hits := en_hits old + en_hits new\<rparr>"

text \<open>The foreign key: an entry's digest must have a row in blobs.\<close>

definition put_row :: "entry \<Rightarrow> db \<Rightarrow> cat_error + db" where
  "put_row e d =
     (if map_of (db_blobs d) (en_digest e) = None then Inl (CatSql ''FOREIGN KEY'')
      else Inr (d\<lparr>db_entries := upsert (en_key e) (entry_row e) (merge_entry e) (db_entries d)\<rparr>))"

definition insert_row :: "entry \<Rightarrow> db \<Rightarrow> cat_error + db" where
  "insert_row e d =
     (if map_of (db_entries d) (en_key e) \<noteq> None then Inl (CatSql ''PRIMARY KEY'')
      else put_row e d)"

definition artifact_row :: "artifact \<Rightarrow> artifact" where
  "artifact_row a = a\<lparr>ar_cached := col_time (ar_cached a)\<rparr>"

definition upsert_artifact :: "artifact \<Rightarrow> db \<Rightarrow> db" where
  "upsert_artifact a d =
     d\<lparr>db_artifacts := upsert (artifact_key a) (artifact_row a) (\<lambda>_. artifact_row a) (db_artifacts d)\<rparr>"

definition set_head_row :: "string \<Rightarrow> string \<Rightarrow> db \<Rightarrow> db" where
  "set_head_row p i d = d\<lparr>db_heads := upsert p i (\<lambda>_. i) (db_heads d)\<rparr>"

text \<open>The three roots of a blob: an entry, an artifact, a snapshot manifest.\<close>

definition referenced :: "digest \<Rightarrow> db \<Rightarrow> bool" where
  "referenced dg d \<longleftrightarrow>
     (\<exists>e \<in> snd ` set (db_entries d). en_digest e = dg) \<or>
     (\<exists>a \<in> snd ` set (db_artifacts d). ar_digest a = dg) \<or>
     (\<exists>s \<in> snd ` set (db_snapshots d). sn_manifest s = dg)"

section \<open>batch.go: flushing\<close>

definition write_entries :: "(entry_key \<times> entry) list \<Rightarrow> db \<Rightarrow> cat_error + db" where
  "write_entries batch =
     fold_res (\<lambda>(k, e) d. put_row (e\<lparr>en_key := k\<rparr>)
                 (put_blob False (en_digest e) (en_size e) (en_cached e) (en_access e) d)) batch"

text \<open>A flush detaches the batch, writes it, and puts it back when the write failed.\<close>

definition requeue :: "(entry_key \<times> entry) list \<Rightarrow> (entry_key \<times> entry) list \<Rightarrow> (entry_key \<times> entry) list" where
  "requeue batch pending =
     fold (\<lambda>(k, e) p. case map_of p k of None \<Rightarrow> (k, e) # p | Some _ \<Rightarrow> p) batch pending"

definition flush_detach :: "catalog \<Rightarrow> catalog \<times> (entry_key \<times> entry) list" where
  "flush_detach c = (c\<lparr>ct_pending := []\<rparr>, ct_pending c)"

definition flush_locked :: "db_fault \<Rightarrow> catalog \<Rightarrow> catalog \<times> (cat_error + unit)" where
  "flush_locked flt c =
     (if ct_pending c = [] then (c, Inr ())
      else
        let (c1, batch) = flush_detach c in
        case in_tx (if flt = FlushFault then TxFault else NoFault)
               (\<lambda>d. map_sum id (\<lambda>d'. (d', ())) (write_entries batch d)) c1 of
          (c2, Inl e) \<Rightarrow> (c2\<lparr>ct_pending := requeue batch (ct_pending c2)\<rparr>, Inl e)
        | (c2, Inr _) \<Rightarrow> (c2, Inr ()))"

definition record_flush :: "cat_error + unit \<Rightarrow> catalog \<Rightarrow> catalog" where
  "record_flush r c = c\<lparr>ct_flush_err := (case r of Inl e \<Rightarrow> Some e | Inr _ \<Rightarrow> None)\<rparr>"

definition flush :: "db_fault \<Rightarrow> catalog \<Rightarrow> catalog \<times> (cat_error + unit)" where
  "flush flt c = (let (c', r) = flush_locked flt c in (record_flush r c', r))"

definition flush_tick :: "db_fault \<Rightarrow> catalog \<Rightarrow> catalog" where
  "flush_tick flt c = (let (c', r) = flush_locked flt c in record_flush r c')"

definition after_flush ::
  "db_fault \<Rightarrow> (catalog \<Rightarrow> catalog \<times> (cat_error + 'a)) \<Rightarrow> catalog \<Rightarrow> catalog \<times> (cat_error + 'a)" where
  "after_flush flt f c =
     (case flush flt c of
        (c', Inl e) \<Rightarrow> (c', Inl e)
      | (c', Inr _) \<Rightarrow> f c')"

definition touch_entry :: "entry_touch \<Rightarrow> db \<Rightarrow> db" where
  "touch_entry t d =
     (let at = col_time (to_access t);
          d1 = d\<lparr>db_entries := update_key (to_key t)
                   (\<lambda>e. e\<lparr>en_access := max (en_access e) at, en_hits := en_hits e + to_hits t\<rparr>) (db_entries d)\<rparr>
      in if to_digest t = [] then d1
         else d1\<lparr>db_blobs := update_key (to_digest t)
                    (\<lambda>b. b\<lparr>br_access := max (br_access b) at\<rparr>) (db_blobs d1)\<rparr>)"

definition touch_entries :: "db_fault \<Rightarrow> entry_touch list \<Rightarrow> catalog \<Rightarrow> catalog \<times> (cat_error + unit)" where
  "touch_entries flt touches c =
     (if touches = [] then (c, Inr ())
      else case in_tx flt (\<lambda>d. Inr (fold touch_entry touches d, ())) c of
             (c', Inl e) \<Rightarrow> (c', Inl e)
           | (c', Inr _) \<Rightarrow>
               (c'\<lparr>ct_cache := fold (\<lambda>t. cache_drop (to_key t)) touches (ct_cache c')\<rparr>, Inr ()))"

definition pending_count :: "catalog \<Rightarrow> nat" where
  "pending_count c = length (ct_pending c)"

section \<open>sqlite.go: blobs\<close>

definition upsert_blob :: "db_fault \<Rightarrow> gotime \<Rightarrow> digest \<Rightarrow> blob_row \<Rightarrow> catalog \<Rightarrow> catalog \<times> (cat_error + unit)" where
  "upsert_blob flt now dg b c =
     (if \<not> digest_valid dg then (c, Inl CatInvalidDigest)
      else in_tx flt (\<lambda>d. Inr (put_blob True dg (br_size b) (or_now now (br_created b))
                                 (or_now now (br_access b)) d, ())) c)"

definition get_blob :: "catalog \<Rightarrow> digest \<Rightarrow> cat_error + blob_row" where
  "get_blob c dg = (case map_of (db_blobs (ct_db c)) dg of None \<Rightarrow> Inl CatNotFound | Some b \<Rightarrow> Inr b)"

definition touch_blobs :: "db_fault \<Rightarrow> digest list \<Rightarrow> gotime \<Rightarrow> catalog \<Rightarrow> catalog \<times> (cat_error + unit)" where
  "touch_blobs flt ds at c =
     (if ds = [] then (c, Inr ())
      else in_tx flt (\<lambda>d. Inr (fold (\<lambda>dg d. d\<lparr>db_blobs :=
             update_key dg (\<lambda>b. b\<lparr>br_access := col_time at\<rparr>) (db_blobs d)\<rparr>) ds d, ())) c)"

definition walk_blobs :: "(digest \<times> blob_row \<Rightarrow> 'x \<Rightarrow> cat_error + 'x) \<Rightarrow> catalog \<Rightarrow> 'x \<Rightarrow> cat_error + 'x" where
  "walk_blobs fn c = fold_res fn (sort_key (\<lambda>r. br_access (snd r)) (db_blobs (ct_db c)))"

definition unreferenced_blobs :: "db_fault \<Rightarrow> gotime \<Rightarrow> catalog \<Rightarrow> catalog \<times> (cat_error + digest list)" where
  "unreferenced_blobs flt older =
     after_flush flt (\<lambda>c. (c, if flt = TxFault then Inl (CatSql ''refused'') else
       Inr (map fst (filter (\<lambda>r. ts (br_created (snd r)) < ts older \<and> \<not> referenced (fst r) (ct_db c))
              (db_blobs (ct_db c))))))"

definition is_blob_referenced :: "db_fault \<Rightarrow> digest \<Rightarrow> catalog \<Rightarrow> catalog \<times> (cat_error + bool)" where
  "is_blob_referenced flt dg =
     after_flush flt (\<lambda>c. (c, if flt = TxFault then Inl (CatSql ''refused'') else Inr (referenced dg (ct_db c))))"

text \<open>The foreign key refuses to delete a blob row an entry points at.\<close>

definition delete_blob_record :: "db_fault \<Rightarrow> digest \<Rightarrow> catalog \<Rightarrow> catalog \<times> (cat_error + unit)" where
  "delete_blob_record flt dg =
     in_tx flt (\<lambda>d. if \<exists>e \<in> snd ` set (db_entries d). en_digest e = dg then Inl (CatSql ''FOREIGN KEY'')
                    else Inr (d\<lparr>db_blobs := delete_where (\<lambda>k r. k = dg) (db_blobs d)\<rparr>, ()))"

section \<open>sqlite.go: entries\<close>

text \<open>
  GetEntry looks under the mutex first (\<open>get_fast\<close>), then reads the row without it
  (\<open>get_row\<close>), then takes the mutex again to fill the cache (\<open>get_fill\<close>).
\<close>

definition get_fast :: "entry_key \<Rightarrow> catalog \<Rightarrow> catalog \<times> entry option" where
  "get_fast k c =
     (case map_of (ct_pending c) k of
        Some e \<Rightarrow> (c, Some e)
      | None \<Rightarrow> let (ca, r) = cache_get k (ct_cache c) in (c\<lparr>ct_cache := ca\<rparr>, r))"

definition get_row :: "db_fault \<Rightarrow> entry_key \<Rightarrow> catalog \<Rightarrow> cat_error + entry" where
  "get_row flt k c =
     (if flt = TxFault then Inl (CatSql ''refused'')
      else case map_of (db_entries (ct_db c)) k of
             None \<Rightarrow> Inl CatNotFound
           | Some e \<Rightarrow> Inr (e\<lparr>en_key := k\<rparr>))"

definition get_fill :: "entry \<Rightarrow> catalog \<Rightarrow> catalog" where
  "get_fill e c = c\<lparr>ct_cache := cache_put (en_key e) e (ct_cache c)\<rparr>"

definition get_entry :: "db_fault \<Rightarrow> entry_key \<Rightarrow> catalog \<Rightarrow> catalog \<times> (cat_error + entry)" where
  "get_entry flt k c =
     (case get_fast k c of
        (c1, Some e) \<Rightarrow> (c1, Inr e)
      | (c1, None) \<Rightarrow>
          (case get_row flt k c1 of
             Inl err \<Rightarrow> (c1, Inl err)
           | Inr e \<Rightarrow> (get_fill e c1, Inr e)))"

text \<open>PutEntry also says whether it woke the flush loop.\<close>

definition put_entry :: "gotime \<Rightarrow> entry \<Rightarrow> catalog \<Rightarrow> catalog \<times> bool \<times> (cat_error + unit)" where
  "put_entry now e0 c =
     (if \<not> digest_valid (en_digest e0) then (c, False, Inl CatInvalidDigest)
      else if ct_closed c then (c, False, Inl CatClosed)
      else
        let e = with_times now e0;
            c' = c\<lparr>ct_pending := AList.update (en_key e) e (ct_pending c),
                   ct_cache := cache_put (en_key e) e (ct_cache c)\<rparr>
        in (c', int (length (ct_pending c')) \<ge> ct_batch_size c',
            case ct_flush_err c' of None \<Rightarrow> Inr () | Some err \<Rightarrow> Inl err))"

definition project_size :: "string \<Rightarrow> db \<Rightarrow> cat_error + int" where
  "project_size p d = sql_sum (map en_size (select (\<lambda>k _. k_project k = p) (db_entries d)))"

definition count_artifacts :: "(artifact_key \<Rightarrow> bool) \<Rightarrow> db \<Rightarrow> int" where
  "count_artifacts P d = int (length (filter (\<lambda>r. P (fst r)) (db_artifacts d)))"

definition in_name :: "string \<Rightarrow> string \<Rightarrow> string \<Rightarrow> artifact_key \<Rightarrow> bool" where
  "in_name p eco name k \<longleftrightarrow> (case k of (p', e', n', _) \<Rightarrow> p' = p \<and> e' = eco \<and> n' = name)"

definition check_bytes :: "entry \<Rightarrow> quota \<Rightarrow> db \<Rightarrow> cat_error + unit" where
  "check_bytes e q d =
     bind_res (project_size (k_project (en_key e)) d) (\<lambda>used.
       let old = (case map_of (db_entries d) (en_key e) of None \<Rightarrow> 0 | Some r \<Rightarrow> en_size r);
           projected = wrap64 (wrap64 (used - old) + en_size e)
       in if qu_bytes q > 0 \<and> projected > qu_bytes q
          then Inl (CatQuota ''bytes'' used (qu_bytes q) projected) else Inr ())"

definition check_artifacts :: "entry \<Rightarrow> artifact option \<Rightarrow> quota \<Rightarrow> bool \<Rightarrow> db \<Rightarrow> cat_error + unit" where
  "check_artifacts e art q replace_name d =
     (case art of
        None \<Rightarrow> Inr ()
      | Some a \<Rightarrow>
          if qu_artifacts q \<le> 0 then Inr ()
          else
            let p = k_project (en_key e); eco = k_eco (en_key e);
                count = count_artifacts (\<lambda>k. fst k = p) d;
                present = count_artifacts (\<lambda>k. k = (p, eco, ar_name a, ar_version a, ar_arch a)) d;
                replaced = count_artifacts (in_name p eco (ar_name a)) d;
                projected = (if replace_name then count - replaced + 1
                             else if present = 0 then count + 1 else count)
            in if projected > qu_artifacts q
               then Inl (CatQuota ''artifacts'' count (qu_artifacts q) projected) else Inr ())"

text \<open>The inventory row takes its identity and content from the entry it describes.\<close>

definition describe :: "gotime \<Rightarrow> entry \<Rightarrow> artifact \<Rightarrow> artifact" where
  "describe now e a =
     a\<lparr>ar_project := k_project (en_key e), ar_eco := k_eco (en_key e),
       ar_digest := en_digest e, ar_size := en_size e, ar_cached := or_now now (ar_cached a)\<rparr>"

definition publish_artifact :: "bool \<Rightarrow> artifact \<Rightarrow> db \<Rightarrow> db" where
  "publish_artifact replace_name a d =
     upsert_artifact a
       (if replace_name
        then d\<lparr>db_artifacts := delete_where (\<lambda>k _. in_name (ar_project a) (ar_eco a) (ar_name a) k) (db_artifacts d)\<rparr>
        else d)"

definition commit_tx :: "gotime \<Rightarrow> entry \<Rightarrow> artifact option \<Rightarrow> quota \<Rightarrow> bool \<Rightarrow> db \<Rightarrow> cat_error + db" where
  "commit_tx now e art q replace_name d =
     bind_res (check_bytes e q d) (\<lambda>_.
     bind_res (check_artifacts e art q replace_name d) (\<lambda>_.
     bind_res (put_row e (put_blob True (en_digest e) (en_size e) (en_cached e) (en_access e) d)) (\<lambda>d1.
       case art of
         None \<Rightarrow> Inr d1
       | Some a \<Rightarrow> Inr (publish_artifact replace_name (describe now e a) d1))))"

definition commit_entry ::
  "db_fault \<Rightarrow> gotime \<Rightarrow> entry \<Rightarrow> artifact option \<Rightarrow> quota \<Rightarrow> bool \<Rightarrow> catalog \<Rightarrow> catalog \<times> (cat_error + unit)" where
  "commit_entry flt now e0 art q replace_name c =
     (if \<not> digest_valid (en_digest e0) then (c, Inl CatInvalidDigest)
      else after_flush flt (\<lambda>c.
        let e = with_times now e0 in
        case in_tx flt (\<lambda>d. map_sum id (\<lambda>d'. (d', ())) (commit_tx now e art q replace_name d)) c of
          (c', Inl err) \<Rightarrow> (c', Inl err)
        | (c', Inr _) \<Rightarrow> (c'\<lparr>ct_cache := cache_put (en_key e) e (ct_cache c')\<rparr>, Inr ())) c)"

definition delete_entry :: "db_fault \<Rightarrow> entry_key \<Rightarrow> catalog \<Rightarrow> catalog \<times> (cat_error + unit)" where
  "delete_entry flt k c =
     in_tx flt (\<lambda>d. Inr (d\<lparr>db_entries := delete_where (\<lambda>j _. j = k) (db_entries d)\<rparr>, ()))
       (c\<lparr>ct_pending := AList.delete k (ct_pending c), ct_cache := cache_drop k (ct_cache c)\<rparr>)"

definition evict_tx :: "entry_key \<Rightarrow> db \<Rightarrow> cat_error + db \<times> digest \<times> int64 \<times> bool" where
  "evict_tx k d =
     (case map_of (db_entries d) k of
        None \<Rightarrow> Inl CatNotFound
      | Some e \<Rightarrow>
          let d' = d\<lparr>db_entries := delete_where (\<lambda>j _. j = k) (db_entries d),
                     db_refs := delete_where (\<lambda>j r. rk_project j = k_project k \<and> rk_eco j = k_eco k \<and>
                                                rf_target r = k_key k) (db_refs d),
                     db_artifacts := delete_where (\<lambda>j a. fst j = k_project k \<and> fst (snd j) = k_eco k \<and>
                                                ar_digest a = en_digest e) (db_artifacts d)\<rparr>
          in Inr (d', en_digest e, en_size e, referenced (en_digest e) d'))"

definition evict_entry :: "db_fault \<Rightarrow> entry_key \<Rightarrow> catalog \<Rightarrow> catalog \<times> (cat_error + digest \<times> int64 \<times> bool)" where
  "evict_entry flt k =
     after_flush flt (\<lambda>c.
       case in_tx flt (evict_tx k) c of
         (c', Inl err) \<Rightarrow> (c', Inl err)
       | (c', Inr r) \<Rightarrow> (c'\<lparr>ct_cache := cache_drop k (ct_cache c')\<rparr>, Inr r))"

definition delete_project :: "db_fault \<Rightarrow> string \<Rightarrow> catalog \<Rightarrow> catalog \<times> (cat_error + int64)" where
  "delete_project flt p =
     after_flush flt (\<lambda>c.
       case in_tx flt (\<lambda>d. Inr
              (\<lparr>db_blobs = db_blobs d,
                db_entries = delete_where (\<lambda>k _. k_project k = p) (db_entries d),
                db_refs = delete_where (\<lambda>k _. rk_project k = p) (db_refs d),
                db_artifacts = delete_where (\<lambda>k _. fst k = p) (db_artifacts d),
                db_snapshots = delete_where (\<lambda>_ s. sn_project s = p) (db_snapshots d),
                db_heads = delete_where (\<lambda>k _. k = p) (db_heads d),
                db_access = delete_where (\<lambda>k _. fst k = p) (db_access d),
                db_traffic = delete_where (\<lambda>k _. fst k = p) (db_traffic d)\<rparr>,
               int (length (filter (\<lambda>r. k_project (fst r) = p) (db_entries d))))) c of
         (c', Inl err) \<Rightarrow> (c', Inl err)
       | (c', Inr n) \<Rightarrow> (c'\<lparr>ct_cache := drop_project p (ct_cache c')\<rparr>, Inr n))"

section \<open>sqlite.go: listings\<close>

definition glob_special :: "char \<Rightarrow> bool" where
  "glob_special c \<longleftrightarrow> c = CHR ''*'' \<or> c = CHR ''?'' \<or> c = CHR ''['' \<or> c = CHR '']''"

definition glob_escape :: "string \<Rightarrow> string" where
  "glob_escape s = concat (map (\<lambda>c. if glob_special c then ''['' @ [c] @ '']'' else [c]) s)"

definition entry_matches :: "entry_query \<Rightarrow> entry_key \<Rightarrow> bool" where
  "entry_matches q k \<longleftrightarrow>
     (eq_project q \<noteq> [] \<longrightarrow> k_project k = eq_project q) \<and>
     (eq_eco q \<noteq> [] \<longrightarrow> k_eco k = eq_eco q) \<and>
     (eq_prefix q \<noteq> [] \<longrightarrow> glob (glob_escape (eq_prefix q) @ ''*'') (k_key k))"

definition list_entries :: "db_fault \<Rightarrow> entry_query \<Rightarrow> catalog \<Rightarrow> catalog \<times> (cat_error + entry list)" where
  "list_entries flt q =
     after_flush flt (\<lambda>c. (c,
       if flt = TxFault then Inl (CatSql ''refused'')
       else let rows = sort_key (\<lambda>e. k_key (en_key e)) (select (\<lambda>k _. entry_matches q k) (db_entries (ct_db c)))
            in Inr (if eq_limit q > 0 then limit_offset (eq_limit q) (eq_offset q) rows else rows)))"

definition walk_rows ::
  "db_fault \<Rightarrow> (db \<Rightarrow> entry list) \<Rightarrow> (entry \<Rightarrow> 'x \<Rightarrow> cat_error + 'x) \<Rightarrow> 'x \<Rightarrow> catalog \<Rightarrow> catalog \<times> (cat_error + 'x)" where
  "walk_rows flt query fn x =
     after_flush flt (\<lambda>c. (c, if flt = TxFault then Inl (CatSql ''refused'') else fold_res fn (query (ct_db c)) x))"

definition project_rows :: "string \<Rightarrow> db \<Rightarrow> entry list" where
  "project_rows p d =
     sort_key (\<lambda>e. (k_eco (en_key e), k_key (en_key e))) (select (\<lambda>k _. k_project k = p) (db_entries d))"

definition eco_rows :: "string \<Rightarrow> string \<Rightarrow> db \<Rightarrow> entry list" where
  "eco_rows p eco d =
     sort_key (\<lambda>e. k_key (en_key e)) (select (\<lambda>k _. k_project k = p \<and> k_eco k = eco) (db_entries d))"

definition eviction_rows :: "string \<Rightarrow> db \<Rightarrow> entry list" where
  "eviction_rows p d =
     sort_key (\<lambda>e. (en_access e, en_key e)) (select (\<lambda>k _. p \<noteq> [] \<longrightarrow> k_project k = p) (db_entries d))"

definition count_entries :: "db_fault \<Rightarrow> string \<Rightarrow> catalog \<Rightarrow> catalog \<times> (cat_error + int \<times> int)" where
  "count_entries flt p =
     after_flush flt (\<lambda>c. (c,
       if flt = TxFault then Inl (CatSql ''refused'')
       else map_sum id (\<lambda>bytes. (int (length (select (\<lambda>k _. k_project k = p) (db_entries (ct_db c)))), bytes))
              (project_size p (ct_db c))))"

section \<open>sqlite.go: applying a snapshot\<close>

definition clear_project :: "string \<Rightarrow> db \<Rightarrow> db" where
  "clear_project p d =
     d\<lparr>db_entries := delete_where (\<lambda>k _. k_project k = p) (db_entries d),
       db_refs := delete_where (\<lambda>k _. rk_project k = p) (db_refs d),
       db_artifacts := delete_where (\<lambda>k _. fst k = p) (db_artifacts d)\<rparr>"

definition restored_artifact :: "string \<Rightarrow> entry \<Rightarrow> artifact \<Rightarrow> artifact" where
  "restored_artifact p e a =
     a\<lparr>ar_project := p, ar_cached := (if ar_cached a = 0 then en_cached e else ar_cached a)\<rparr>"

text \<open>The callback of the source, for one entry of the manifest.\<close>

definition restore_entry ::
  "gotime \<Rightarrow> string \<Rightarrow> (entry \<Rightarrow> artifact option) option \<Rightarrow> entry \<Rightarrow> db \<Rightarrow> cat_error + db" where
  "restore_entry now p index e0 d =
     (let k = en_key e0 in
      if k_project k \<noteq> [] \<and> k_project k \<noteq> p then Inl (CatForeignEntry (k_project k))
      else if k_eco k = [] \<or> k_key k = [] \<or> \<not> digest_valid (en_digest e0) \<or> en_size e0 < 0
      then Inl CatInvalidEntry
      else
        let e = with_times now e0 in
        bind_res (insert_row (e\<lparr>en_key := EntryKey p (k_eco k) (k_key k)\<rparr>) d) (\<lambda>d1.
        case index of
          None \<Rightarrow> Inr d1
        | Some ix \<Rightarrow>
            (case ix e of
               None \<Rightarrow> Inr d1
             | Some a \<Rightarrow> Inr (upsert_artifact (restored_artifact p e a) d1))))"

definition snapshot_tx ::
  "gotime \<Rightarrow> string \<Rightarrow> string \<Rightarrow> string \<Rightarrow> bool \<Rightarrow> entry list \<Rightarrow> cat_error option \<Rightarrow>
   (entry \<Rightarrow> artifact option) option \<Rightarrow> db \<Rightarrow> cat_error + db" where
  "snapshot_tx now p expected sid check source source_err index d =
     (let current = (case map_of (db_heads d) p of None \<Rightarrow> [] | Some i \<Rightarrow> i) in
      if check \<and> current \<noteq> expected then Inl (CatNonFastForward current expected)
      else bind_res (fold_res (restore_entry now p index) source (clear_project p d)) (\<lambda>d1.
        case source_err of
          Some err \<Rightarrow> Inl err
        | None \<Rightarrow> Inr (set_head_row p sid d1)))"

text \<open>
  \<open>source\<close> is what the manifest yields before it ends or fails with \<open>source_err\<close>.
\<close>

definition apply_snapshot ::
  "db_fault \<Rightarrow> gotime \<Rightarrow> string \<Rightarrow> string \<Rightarrow> string \<Rightarrow> bool \<Rightarrow> entry list \<Rightarrow> cat_error option \<Rightarrow>
   (entry \<Rightarrow> artifact option) option \<Rightarrow> catalog \<Rightarrow> catalog \<times> (cat_error + unit)" where
  "apply_snapshot flt now p expected sid check source source_err index c =
     (if p = [] \<or> sid = [] then (c, Inl CatArguments)
      else after_flush flt (\<lambda>c.
        case in_tx flt (\<lambda>d. map_sum id (\<lambda>d'. (d', ()))
                 (snapshot_tx now p expected sid check source source_err index d)) c of
          (c', Inl err) \<Rightarrow> (c', Inl err)
        | (c', Inr _) \<Rightarrow> (c'\<lparr>ct_cache := drop_project p (ct_cache c')\<rparr>, Inr ())) c)"

section \<open>sqlite.go: refs\<close>

definition quot10 :: "gotime \<Rightarrow> int64" where
  "quot10 t = (if t < 0 then - ((- t) div second) else t div second)"

definition ref_stored :: "gotime \<Rightarrow> ref_row \<Rightarrow> ref_row" where
  "ref_stored now r =
     r\<lparr>rf_fetched := col_time (or_now now (rf_fetched r)), rf_ttl := quot10 (rf_ttl r) * second\<rparr>"

definition get_ref :: "ref_key \<Rightarrow> catalog \<Rightarrow> cat_error + ref_row" where
  "get_ref k c = (case map_of (db_refs (ct_db c)) k of None \<Rightarrow> Inl CatNotFound | Some r \<Rightarrow> Inr r)"

definition put_ref :: "db_fault \<Rightarrow> gotime \<Rightarrow> ref_row \<Rightarrow> catalog \<Rightarrow> catalog \<times> (cat_error + unit)" where
  "put_ref flt now r =
     in_tx flt (\<lambda>d. Inr (d\<lparr>db_refs := upsert (rf_key r) (ref_stored now r) (\<lambda>_. ref_stored now r) (db_refs d)\<rparr>, ()))"

definition delete_ref :: "db_fault \<Rightarrow> ref_key \<Rightarrow> catalog \<Rightarrow> catalog \<times> (cat_error + unit)" where
  "delete_ref flt k = in_tx flt (\<lambda>d. Inr (d\<lparr>db_refs := delete_where (\<lambda>j _. j = k) (db_refs d)\<rparr>, ()))"

text \<open>The listing does not read the source column.\<close>

definition list_refs :: "string \<Rightarrow> string \<Rightarrow> string \<Rightarrow> catalog \<Rightarrow> ref_row list" where
  "list_refs p eco prefix c =
     map (\<lambda>r. r\<lparr>rf_source := []\<rparr>)
       (sort_key (\<lambda>r. rk_name (rf_key r))
         (select (\<lambda>k _. rk_project k = p \<and> rk_eco k = eco \<and>
             (prefix \<noteq> [] \<longrightarrow> glob (glob_escape prefix @ ''*'') (rk_name k))) (db_refs (ct_db c))))"

section \<open>sqlite.go: artifacts\<close>

definition put_artifact :: "db_fault \<Rightarrow> gotime \<Rightarrow> artifact \<Rightarrow> catalog \<Rightarrow> catalog \<times> (cat_error + unit)" where
  "put_artifact flt now a =
     in_tx flt (\<lambda>d. Inr (upsert_artifact (a\<lparr>ar_cached := or_now now (ar_cached a)\<rparr>) d, ()))"

definition delete_artifacts :: "db_fault \<Rightarrow> string \<Rightarrow> string \<Rightarrow> string \<Rightarrow> catalog \<Rightarrow> catalog \<times> (cat_error + unit)" where
  "delete_artifacts flt p eco name =
     in_tx flt (\<lambda>d. Inr (d\<lparr>db_artifacts := delete_where (\<lambda>k _. in_name p eco name k) (db_artifacts d)\<rparr>, ()))"

definition delete_artifact_version ::
  "db_fault \<Rightarrow> string \<Rightarrow> string \<Rightarrow> string \<Rightarrow> string \<Rightarrow> catalog \<Rightarrow> catalog \<times> (cat_error + unit)" where
  "delete_artifact_version flt p eco name ver =
     in_tx flt (\<lambda>d. Inr (d\<lparr>db_artifacts := delete_where
             (\<lambda>k _. in_name p eco name k \<and> fst (snd (snd (snd k))) = ver) (db_artifacts d)\<rparr>, ()))"

definition like_escape :: "string \<Rightarrow> string" where
  "like_escape s =
     concat (map (\<lambda>c. if c = CHR 0x5C \<or> c = CHR ''%'' \<or> c = CHR ''_'' then [CHR 0x5C, c] else [c]) s)"

text \<open>\<open>LIKE .. ESCAPE\<close> with the backslash: letters match in either case.\<close>

function like :: "string \<Rightarrow> string \<Rightarrow> bool" where
  "like [] s = (s = [])"
| "like (c # p) s =
     (if c = CHR ''%'' then like p s \<or> (case s of [] \<Rightarrow> False | _ # t \<Rightarrow> like (c # p) t)
      else case s of
             [] \<Rightarrow> False
           | x # t \<Rightarrow>
               (if c = CHR ''_'' then like p t
                else if c = CHR 0x5C
                then (case p of [] \<Rightarrow> False | l # q \<Rightarrow> lower_char l = lower_char x \<and> like q t)
                else lower_char c = lower_char x \<and> like p t))"
  by pat_completeness auto
termination
  by (relation "measure (\<lambda>(p, s). length p + length s)") auto

declare like.simps [simp del]

definition artifact_matches :: "artifact_query \<Rightarrow> artifact \<Rightarrow> bool" where
  "artifact_matches q a \<longleftrightarrow>
     (aq_project q \<noteq> [] \<longrightarrow> ar_project a = aq_project q) \<and>
     (aq_eco q \<noteq> [] \<longrightarrow> ar_eco a = aq_eco q) \<and>
     (aq_search q \<noteq> [] \<longrightarrow> like (''%'' @ like_escape (aq_search q) @ ''%'') (ar_name a))"

text \<open>The sort columns; an unknown sort is by name. Descending numbers sort by their negation.\<close>

definition artifact_order :: "string \<Rightarrow> artifact list \<Rightarrow> artifact list" where
  "artifact_order s as =
     (if s = ''size'' then sort_key (\<lambda>a. (- ar_size a, ar_name a, ar_version a)) as
      else if s = ''date'' then sort_key (\<lambda>a. (- ar_cached a, ar_name a, ar_version a)) as
      else if s = ''version'' then sort_key (\<lambda>a. (ar_version a, ar_name a)) as
      else sort_key (\<lambda>a. (ar_name a, ar_version a)) as)"

definition query_artifacts :: "artifact_query \<Rightarrow> catalog \<Rightarrow> artifact list \<times> nat" where
  "query_artifacts q c =
     (let rows = select (\<lambda>_. artifact_matches q) (db_artifacts (ct_db c));
          sorted = artifact_order (aq_sort q) rows;
          page = max (aq_page q) 1
      in (if aq_page_size q > 0 then limit_offset (aq_page_size q) ((page - 1) * aq_page_size q) sorted
          else sorted, length rows))"

section \<open>sqlite.go: snapshots and heads\<close>

definition insert_snapshot :: "gotime \<Rightarrow> snapshot \<Rightarrow> db \<Rightarrow> cat_error + db" where
  "insert_snapshot now s d =
     (if map_of (db_snapshots d) (sn_id s) \<noteq> None then Inl (CatSql ''PRIMARY KEY'')
      else Inr (d\<lparr>db_snapshots :=
             (sn_id s, s\<lparr>sn_created := col_time (or_now now (sn_created s))\<rparr>) # db_snapshots d\<rparr>))"

definition put_snapshot :: "db_fault \<Rightarrow> gotime \<Rightarrow> snapshot \<Rightarrow> catalog \<Rightarrow> catalog \<times> (cat_error + unit)" where
  "put_snapshot flt now s = in_tx flt (\<lambda>d. map_sum id (\<lambda>d'. (d', ())) (insert_snapshot now s d))"

definition commit_snapshot :: "db_fault \<Rightarrow> gotime \<Rightarrow> snapshot \<Rightarrow> catalog \<Rightarrow> catalog \<times> (cat_error + unit)" where
  "commit_snapshot flt now s =
     in_tx flt (\<lambda>d. map_sum id (\<lambda>d'. (set_head_row (sn_project s) (sn_id s) d', ())) (insert_snapshot now s d))"

definition get_snapshot :: "string \<Rightarrow> catalog \<Rightarrow> cat_error + snapshot" where
  "get_snapshot i c = (case map_of (db_snapshots (ct_db c)) i of None \<Rightarrow> Inl CatNotFound | Some s \<Rightarrow> Inr s)"

definition list_snapshots :: "string \<Rightarrow> int \<Rightarrow> catalog \<Rightarrow> snapshot list" where
  "list_snapshots p limit c =
     (let rows = rev (sort_key (\<lambda>s. (sn_created s, sn_id s)) (select (\<lambda>_ s. sn_project s = p) (db_snapshots (ct_db c))))
      in if limit > 0 then take (nat limit) rows else rows)"

definition walk_snapshots :: "(snapshot \<Rightarrow> 'x \<Rightarrow> cat_error + 'x) \<Rightarrow> catalog \<Rightarrow> 'x \<Rightarrow> cat_error + 'x" where
  "walk_snapshots fn c =
     fold_res fn (sort_key (\<lambda>s. (sn_project s, sn_created s, sn_id s)) (map snd (db_snapshots (ct_db c))))"

definition set_head :: "db_fault \<Rightarrow> string \<Rightarrow> string \<Rightarrow> catalog \<Rightarrow> catalog \<times> (cat_error + unit)" where
  "set_head flt p i = in_tx flt (\<lambda>d. Inr (set_head_row p i d, ()))"

definition get_head :: "string \<Rightarrow> catalog \<Rightarrow> string" where
  "get_head p c = (case map_of (db_heads (ct_db c)) p of None \<Rightarrow> [] | Some i \<Rightarrow> i)"

section \<open>sqlite.go: usage tallies and the end\<close>

definition fold_access :: "access_delta \<Rightarrow> db \<Rightarrow> db" where
  "fold_access a d =
     d\<lparr>db_access := upsert (ad_project a, ad_eco a, ad_name a) (ad_count a, col_time (ad_access a))
         (\<lambda>(n, t). (n + ad_count a, max t (col_time (ad_access a)))) (db_access d)\<rparr>"

definition fold_traffic :: "(string \<times> string) \<times> traffic_row \<Rightarrow> db \<Rightarrow> db" where
  "fold_traffic t d =
     d\<lparr>db_traffic := upsert (fst t) (snd t)
         (\<lambda>old. \<lparr>tr_hit_count = tr_hit_count old + tr_hit_count (snd t),
                 tr_hit_bytes = tr_hit_bytes old + tr_hit_bytes (snd t),
                 tr_miss_count = tr_miss_count old + tr_miss_count (snd t),
                 tr_miss_bytes = tr_miss_bytes old + tr_miss_bytes (snd t)\<rparr>) (db_traffic d)\<rparr>"

definition record_access ::
  "db_fault \<Rightarrow> access_delta list \<Rightarrow> ((string \<times> string) \<times> traffic_row) list \<Rightarrow> catalog \<Rightarrow> catalog \<times> (cat_error + unit)" where
  "record_access flt access traffic c =
     (if access = [] \<and> traffic = [] then (c, Inr ())
      else in_tx flt (\<lambda>d. Inr (fold fold_traffic traffic (fold fold_access access d), ())) c)"

definition catalog_close :: "db_fault \<Rightarrow> catalog \<Rightarrow> catalog \<times> (cat_error + unit)" where
  "catalog_close flt c =
     (if ct_closed c then (c, Inr ())
      else flush_locked flt (c\<lparr>ct_closed := True\<rparr>))"

end
