(* ===== verification/CatalogSpec.thy ===== *)
theory CatalogSpec
  imports Catalog
begin

text \<open>
  The correctness of package catalog (theory Catalog): the invariant of the database and of the
  catalog around it, the refinement of a map from entry keys to contents, and the properties
  of quotas, garbage collection, eviction, snapshot application, listings and searches.
\<close>

section \<open>Lemmas on the SQL operations\<close>

lemma map_of_upsert [simp]:
  "map_of (upsert k r f t) j = (if j = k then Some (case map_of t k of None \<Rightarrow> r | Some old \<Rightarrow> f old) else map_of t j)"
  by (auto simp: upsert_def split: option.splits)

lemma map_of_delete_where_key [simp]:
  "map_of (delete_where (\<lambda>k _. P k) t) j = (if P j then None else map_of t j)"
  using map_of_filter_key [of "\<lambda>k. \<not> P k" t j] by (simp add: delete_where_def)

lemma map_of_update_key [simp]:
  "map_of (update_key k f t) j = (if j = k then map_option f (map_of t k) else map_of t j)"
  by (induction t) (auto simp: update_key_def)

lemma distinct_upsert [simp]: "distinct (map fst t) \<Longrightarrow> distinct (map fst (upsert k r f t))"
  by (auto simp: upsert_def distinct_update map_of_eq_None_iff split: option.splits)

lemma distinct_delete_where [simp]: "distinct (map fst t) \<Longrightarrow> distinct (map fst (delete_where P t))"
  by (simp add: delete_where_def distinct_map_filter)

lemma fst_update_key [simp]: "map fst (update_key k f t) = map fst t"
  by (induction t) (auto simp: update_key_def)

lemma set_delete_where: "kr \<in> set (delete_where P t) \<Longrightarrow> kr \<in> set t"
  by (simp add: delete_where_def)

section \<open>The invariant of the database\<close>

definition entries_ok :: "db \<Rightarrow> bool" where
  "entries_ok d \<longleftrightarrow>
     (\<forall>k e. map_of (db_entries d) k = Some e \<longrightarrow>
        en_key e = k \<and> digest_valid (en_digest e) \<and> map_of (db_blobs d) (en_digest e) \<noteq> None)"

definition db_ok :: "db \<Rightarrow> bool" where
  "db_ok d \<longleftrightarrow>
     distinct (map fst (db_blobs d)) \<and> distinct (map fst (db_entries d)) \<and>
     distinct (map fst (db_artifacts d)) \<and> distinct (map fst (db_snapshots d)) \<and> entries_ok d"

lemma db_okI [intro]:
  "distinct (map fst (db_blobs d)) \<Longrightarrow> distinct (map fst (db_entries d)) \<Longrightarrow>
   distinct (map fst (db_artifacts d)) \<Longrightarrow> distinct (map fst (db_snapshots d)) \<Longrightarrow> entries_ok d \<Longrightarrow> db_ok d"
  by (simp add: db_ok_def)

lemma db_okD:
  assumes "db_ok d"
  shows db_ok_blobs: "distinct (map fst (db_blobs d))"
    and db_ok_rows: "distinct (map fst (db_entries d))"
    and db_ok_artifacts: "distinct (map fst (db_artifacts d))"
    and db_ok_snapshots: "distinct (map fst (db_snapshots d))"
    and db_ok_entries: "entries_ok d"
  using assms by (simp_all add: db_ok_def)

lemma entries_okD: "entries_ok d \<Longrightarrow> map_of (db_entries d) k = Some e \<Longrightarrow> en_key e = k"
  by (simp add: entries_ok_def)

lemma empty_db_ok: "db_ok empty_db"
  by (simp add: db_ok_def empty_db_def entries_ok_def)

lemma put_blob_ok: "db_ok d \<Longrightarrow> db_ok (put_blob g dg sz cr ac d)"
  by (auto simp: db_ok_def put_blob_def entries_ok_def)

lemma put_blob_present [simp]: "map_of (db_blobs (put_blob g dg sz cr ac d)) dg \<noteq> None"
  by (simp add: put_blob_def)

lemma put_blob_frame [simp]:
  "db_entries (put_blob g dg sz cr ac d) = db_entries d"
  "db_artifacts (put_blob g dg sz cr ac d) = db_artifacts d"
  "db_snapshots (put_blob g dg sz cr ac d) = db_snapshots d"
  "db_heads (put_blob g dg sz cr ac d) = db_heads d"
  "db_refs (put_blob g dg sz cr ac d) = db_refs d"
  by (simp_all add: put_blob_def)

lemma entry_row_simps [simp]:
  "en_key (entry_row e) = en_key e" "en_digest (entry_row e) = en_digest e"
  "en_size (entry_row e) = en_size e" "en_content (entry_row e) = en_content e"
  "en_content (merge_entry e old) = en_content e"
  "en_key (merge_entry e old) = en_key e" "en_digest (merge_entry e old) = en_digest e"
  "en_size (merge_entry e old) = en_size e"
  "en_content (e\<lparr>en_key := k\<rparr>) = en_content e"
  "en_content (with_times now e) = en_content e"
  "en_key (with_times now e) = en_key e" "en_digest (with_times now e) = en_digest e"
  "en_size (with_times now e) = en_size e" "en_media (with_times now e) = en_media e"
  by (simp_all add: entry_row_def merge_entry_def en_content_def with_times_def)

lemma put_row_Inr:
  "put_row e d = Inr d' \<longleftrightarrow> map_of (db_blobs d) (en_digest e) \<noteq> None \<and>
     d' = d\<lparr>db_entries := upsert (en_key e) (entry_row e) (merge_entry e) (db_entries d)\<rparr>"
  by (auto simp: put_row_def)

lemma put_row_ok: "put_row e d = Inr d' \<Longrightarrow> db_ok d \<Longrightarrow> digest_valid (en_digest e) \<Longrightarrow> db_ok d'"
  by (auto simp: put_row_Inr db_ok_def entries_ok_def split: option.splits)

lemma put_row_frame:
  "put_row e d = Inr d' \<Longrightarrow> db_blobs d' = db_blobs d \<and> db_artifacts d' = db_artifacts d \<and>
     db_snapshots d' = db_snapshots d \<and> db_heads d' = db_heads d \<and> db_refs d' = db_refs d"
  by (auto simp: put_row_Inr)

text \<open>The content view of the entries table.\<close>

definition rows_view :: "db \<Rightarrow> entry_key \<Rightarrow> (digest \<times> int64 \<times> string) option" where
  "rows_view d k = map_option en_content (map_of (db_entries d) k)"

lemma rows_view_cong: "db_entries d' = db_entries d \<Longrightarrow> rows_view d' = rows_view d"
  by (simp add: rows_view_def fun_eq_iff)

lemma put_row_view: "put_row e d = Inr d' \<Longrightarrow> rows_view d' = (rows_view d)(en_key e \<mapsto> en_content e)"
  by (auto simp: put_row_Inr rows_view_def fun_eq_iff split: option.splits)

lemma delete_rows_ok:
  "db_ok d \<Longrightarrow> db_ok (d\<lparr>db_entries := delete_where (\<lambda>k _. P k) (db_entries d)\<rparr>)"
  by (auto simp: db_ok_def entries_ok_def)

lemma delete_rows_view:
  "rows_view (d\<lparr>db_entries := delete_where (\<lambda>k _. P k) (db_entries d)\<rparr>) = (\<lambda>k. if P k then None else rows_view d k)"
  by (auto simp: rows_view_def)

section \<open>Flushing keeps the view\<close>

definition batch_ok :: "(entry_key \<times> entry) list \<Rightarrow> bool" where
  "batch_ok b \<longleftrightarrow> distinct (map fst b) \<and> (\<forall>k e. map_of b k = Some e \<longrightarrow> en_key e = k \<and> digest_valid (en_digest e))"

lemma batch_ok_Cons:
  "batch_ok ((k, e) # b) \<Longrightarrow> en_key e = k \<and> digest_valid (en_digest e) \<and> map_of b k = None \<and> batch_ok b"
proof -
  assume a: "batch_ok ((k, e) # b)"
  have ds: "k \<notin> fst ` set b" "distinct (map fst b)"
    using a [unfolded batch_ok_def, THEN conjunct1] by simp_all
  have n: "map_of b k = None" using ds(1) by (simp add: map_of_eq_None_iff)
  have all: "map_of ((k, e) # b) j = Some e' \<Longrightarrow> en_key e' = j \<and> digest_valid (en_digest e')" for j e'
    using a [unfolded batch_ok_def, THEN conjunct2] by blast
  have rest: "\<forall>j e'. map_of b j = Some e' \<longrightarrow> en_key e' = j \<and> digest_valid (en_digest e')"
  proof (intro allI impI)
    fix j e' assume m: "map_of b j = Some e'"
    then have "j \<noteq> k" using n by auto
    then show "en_key e' = j \<and> digest_valid (en_digest e')" by (intro all) (simp add: m)
  qed
  have "en_key e = k \<and> digest_valid (en_digest e)" by (rule all) simp
  with ds n rest show ?thesis unfolding batch_ok_def by blast
qed

lemma batch_ok_update: "batch_ok b \<Longrightarrow> digest_valid (en_digest e) \<Longrightarrow> batch_ok (AList.update (en_key e) e b)"
  by (auto simp: batch_ok_def distinct_update)

lemma batch_ok_delete: "batch_ok b \<Longrightarrow> batch_ok (AList.delete k b)"
  by (auto simp: batch_ok_def distinct_delete)

lemma write_entries_ok:
  "batch_ok b \<Longrightarrow> db_ok d \<Longrightarrow> \<exists>d'. write_entries b d = Inr d' \<and> db_ok d' \<and>
     rows_view d' = rows_view d ++ (map_option en_content \<circ> map_of b) \<and>
     db_artifacts d' = db_artifacts d \<and> db_snapshots d' = db_snapshots d \<and> db_heads d' = db_heads d \<and>
     (\<forall>dg. map_of (db_blobs d) dg \<noteq> None \<longrightarrow> map_of (db_blobs d') dg \<noteq> None)"
proof (induction b arbitrary: d)
  case Nil
  then show ?case by (auto simp: write_entries_def map_add_def)
next
  case (Cons x b)
  obtain k e where x: "x = (k, e)" by (cases x)
  have ke: "en_key e = k" "digest_valid (en_digest e)" "map_of b k = None" "batch_ok b"
    using batch_ok_Cons Cons.prems(1) x by blast+
  have self: "e\<lparr>en_key := k\<rparr> = e" using ke(1) by (cases e) simp
  let ?d0 = "put_blob False (en_digest e) (en_size e) (en_cached e) (en_access e) d"
  obtain d1 where d1: "put_row e ?d0 = Inr d1"
    by (meson put_blob_present put_row_Inr)
  have ok1: "db_ok d1" by (rule put_row_ok [OF d1 put_blob_ok [OF Cons.prems(2)] ke(2)])
  have v1: "rows_view d1 = (rows_view d)(k \<mapsto> en_content e)"
    using put_row_view [OF d1] ke(1) by (simp add: rows_view_def fun_eq_iff)
  have f1: "db_artifacts d1 = db_artifacts d" "db_snapshots d1 = db_snapshots d" "db_heads d1 = db_heads d"
    using put_row_frame [OF d1] by simp_all
  have b1: "map_of (db_blobs d) dg \<noteq> None \<Longrightarrow> map_of (db_blobs d1) dg \<noteq> None" for dg
    using put_row_frame [OF d1] by (simp add: put_blob_def)
  obtain d2 where d2: "write_entries b d1 = Inr d2" "db_ok d2"
      "rows_view d2 = rows_view d1 ++ (map_option en_content \<circ> map_of b)"
      "db_artifacts d2 = db_artifacts d1" "db_snapshots d2 = db_snapshots d1" "db_heads d2 = db_heads d1"
      "\<forall>dg. map_of (db_blobs d1) dg \<noteq> None \<longrightarrow> map_of (db_blobs d2) dg \<noteq> None"
    using Cons.IH [OF ke(4) ok1] by blast
  have run: "write_entries (x # b) d = Inr d2"
    using d1 d2(1) self x by (simp add: write_entries_def)
  have v: "rows_view d2 = rows_view d ++ (map_option en_content \<circ> map_of (x # b))"
    unfolding d2(3) v1 x using ke(3) by (auto simp: map_add_def fun_eq_iff split: option.splits)
  have f2: "db_artifacts d2 = db_artifacts d" "db_snapshots d2 = db_snapshots d" "db_heads d2 = db_heads d"
    using d2(4-6) f1 by simp_all
  have b2: "\<forall>dg. map_of (db_blobs d) dg \<noteq> None \<longrightarrow> map_of (db_blobs d2) dg \<noteq> None"
    using b1 d2(7) by blast
  show ?case by (intro exI conjI) (fact run d2(2) v f2 b2)+
qed


section \<open>The invariant of the catalog\<close>

text \<open>What a reader of this process is to see: the queued entry, or else the row.\<close>

definition cat_view :: "catalog \<Rightarrow> entry_key \<Rightarrow> (digest \<times> int64 \<times> string) option" where
  "cat_view c = rows_view (ct_db c) ++ (map_option en_content \<circ> map_of (ct_pending c))"

definition cat_ok :: "catalog \<Rightarrow> bool" where
  "cat_ok c \<longleftrightarrow>
     db_ok (ct_db c) \<and> batch_ok (ct_pending c) \<and> lru.agrees en_content (cat_view c) (ct_cache c)"

lemma cat_okD:
  assumes "cat_ok c"
  shows cat_ok_db: "db_ok (ct_db c)"
    and cat_ok_batch: "batch_ok (ct_pending c)"
    and cat_ok_cache: "lru.agrees en_content (cat_view c) (ct_cache c)"
  using assms by (simp_all add: cat_ok_def)

lemma cat_okI: "db_ok (ct_db c) \<Longrightarrow> batch_ok (ct_pending c) \<Longrightarrow> lru.agrees en_content (cat_view c) (ct_cache c) \<Longrightarrow> cat_ok c"
  by (simp add: cat_ok_def)

lemma cat_view_simps [simp]:
  "cat_view (c\<lparr>ct_cache := x\<rparr>) = cat_view c"
  "cat_view (c\<lparr>ct_closed := b\<rparr>) = cat_view c"
  "cat_view (c\<lparr>ct_flush_err := f\<rparr>) = cat_view c"
  by (simp_all add: cat_view_def)

lemma cat_view_no_pending: "ct_pending c = [] \<Longrightarrow> cat_view c = rows_view (ct_db c)"
  by (simp add: cat_view_def map_add_def)

lemma requeue_empty: "distinct (map fst b) \<Longrightarrow> requeue b [] = rev b"
proof -
  have "distinct (map fst (rev p @ b)) \<Longrightarrow> requeue b p = rev b @ p" for p :: "(entry_key \<times> entry) list"
  proof (induction b arbitrary: p)
    case Nil
    then show ?case by (simp add: requeue_def)
  next
    case (Cons x b)
    obtain k e where x: "x = (k, e)" by (cases x)
    have "map_of p k = None" using Cons.prems x by (auto simp: map_of_eq_None_iff)
    moreover have "requeue b ((k, e) # p) = rev b @ (k, e) # p"
      by (rule Cons.IH) (use Cons.prems x in auto)
    ultimately show ?case using x by (simp add: requeue_def)
  qed
  from this [of "[]"] show "distinct (map fst b) \<Longrightarrow> requeue b [] = rev b" by simp
qed

lemma batch_ok_rev: "batch_ok b \<Longrightarrow> batch_ok (rev b) \<and> map_of (rev b) = map_of b"
proof -
  assume a: "batch_ok b"
  then have m: "map_of (rev b) = map_of b"
    by (intro map_of_inject_set [THEN iffD2]) (simp_all add: batch_ok_def rev_map [symmetric])
  with a show ?thesis by (simp add: batch_ok_def rev_map [symmetric])
qed

text \<open>A flush, refused or not, changes neither the view nor the cache.\<close>

lemma flush_locked_keeps:
  assumes ok: "cat_ok c" and f: "flush_locked flt c = (c', r)"
  shows "cat_ok c'" and "cat_view c' = cat_view c" and "ct_cache c' = ct_cache c"
    and "ct_closed c' = ct_closed c"
    and "is_ok r \<Longrightarrow> ct_pending c' = []"
    and "flt \<noteq> FlushFault \<Longrightarrow> is_ok r"
    and "db_artifacts (ct_db c') = db_artifacts (ct_db c)"
    and "db_heads (ct_db c') = db_heads (ct_db c)"
    and "db_snapshots (ct_db c') = db_snapshots (ct_db c)"
proof -
  have "cat_ok c' \<and> cat_view c' = cat_view c \<and> ct_cache c' = ct_cache c \<and> ct_closed c' = ct_closed c \<and>
    (is_ok r \<longrightarrow> ct_pending c' = []) \<and> (flt \<noteq> FlushFault \<longrightarrow> is_ok r) \<and>
    db_artifacts (ct_db c') = db_artifacts (ct_db c) \<and> db_heads (ct_db c') = db_heads (ct_db c) \<and>
    db_snapshots (ct_db c') = db_snapshots (ct_db c)"
  proof (cases "ct_pending c = []")
    case True
    then show ?thesis using f ok by (auto simp: flush_locked_def)
  next
    case False
    note D = cat_okD [OF ok]
    obtain d' where d': "write_entries (ct_pending c) (ct_db c) = Inr d'" "db_ok d'"
        "rows_view d' = rows_view (ct_db c) ++ (map_option en_content \<circ> map_of (ct_pending c))"
        "db_artifacts d' = db_artifacts (ct_db c)" "db_snapshots d' = db_snapshots (ct_db c)"
        "db_heads d' = db_heads (ct_db c)"
      using write_entries_ok [OF D(2) D(1)] by blast
    show ?thesis
    proof (cases "flt = FlushFault")
      case True
      have b: "batch_ok (rev (ct_pending c))" "map_of (rev (ct_pending c)) = map_of (ct_pending c)"
        using batch_ok_rev [OF D(2)] by simp_all
      have "requeue (ct_pending c) [] = rev (ct_pending c)"
        using D(2) by (simp add: requeue_empty batch_ok_def)
      then have "c' = c\<lparr>ct_pending := rev (ct_pending c)\<rparr>" "\<not> is_ok r"
        using f False True by (auto simp: flush_locked_def flush_detach_def in_tx_def)
      moreover have "cat_view (c\<lparr>ct_pending := rev (ct_pending c)\<rparr>) = cat_view c"
        by (simp add: cat_view_def b(2))
      ultimately show ?thesis using D b(1) True by (simp add: cat_ok_def)
    next
      case nf: False
      have c': "c' = c\<lparr>ct_pending := [], ct_db := d'\<rparr>" "r = Inr ()"
        using f False nf d'(1) by (auto simp: flush_locked_def flush_detach_def in_tx_def)
      have "cat_view c' = cat_view c"
        unfolding c' by (simp add: cat_view_def d'(3))
      with D d' c' nf show ?thesis by (simp add: cat_ok_def batch_ok_def)
    qed
  qed
  then show "cat_ok c'" "cat_view c' = cat_view c" "ct_cache c' = ct_cache c" "ct_closed c' = ct_closed c"
    "is_ok r \<Longrightarrow> ct_pending c' = []" "flt \<noteq> FlushFault \<Longrightarrow> is_ok r"
    "db_artifacts (ct_db c') = db_artifacts (ct_db c)" "db_heads (ct_db c') = db_heads (ct_db c)"
    "db_snapshots (ct_db c') = db_snapshots (ct_db c)"
    by blast+
qed

section \<open>Every operation, as one step\<close>

datatype cat_op =
    OpGet entry_key
  | OpPut entry
  | OpCommit entry "artifact option" quota bool
  | OpDelete entry_key
  | OpEvict entry_key
  | OpDeleteProject string
  | OpApply string string string bool "entry list" "cat_error option" "(entry \<Rightarrow> artifact option) option"
  | OpTouch "entry_touch list"
  | OpUpsertBlob digest blob_row
  | OpTouchBlobs "digest list" gotime
  | OpDeleteBlob digest
  | OpPutRef ref_row
  | OpDeleteRef ref_key
  | OpPutArtifact artifact
  | OpDeleteArtifacts string string string
  | OpDeleteVersion string string string string
  | OpPutSnapshot snapshot
  | OpCommitSnapshot snapshot
  | OpSetHead string string
  | OpRecord "access_delta list" "((string \<times> string) \<times> traffic_row) list"
  | OpFlush
  | OpTick
  | OpClose
  | OpRestart int int

definition no_answer :: "catalog \<times> (cat_error + 'a) \<Rightarrow> catalog \<times> (cat_error + entry option)" where
  "no_answer cr = map_prod id (map_sum id (\<lambda>_. None)) cr"

fun cat_exec :: "db_fault \<Rightarrow> gotime \<Rightarrow> cat_op \<Rightarrow> catalog \<Rightarrow> catalog \<times> (cat_error + entry option)" where
  "cat_exec flt now (OpGet k) c = map_prod id (map_sum id Some) (get_entry flt k c)"
| "cat_exec flt now (OpPut e) c = (let (c', _, r) = put_entry now e c in no_answer (c', r))"
| "cat_exec flt now (OpCommit e a q b) c = no_answer (commit_entry flt now e a q b c)"
| "cat_exec flt now (OpDelete k) c = no_answer (delete_entry flt k c)"
| "cat_exec flt now (OpEvict k) c = no_answer (evict_entry flt k c)"
| "cat_exec flt now (OpDeleteProject p) c = no_answer (delete_project flt p c)"
| "cat_exec flt now (OpApply p h i chk src err ix) c = no_answer (apply_snapshot flt now p h i chk src err ix c)"
| "cat_exec flt now (OpTouch t) c = no_answer (touch_entries flt t c)"
| "cat_exec flt now (OpUpsertBlob d b) c = no_answer (upsert_blob flt now d b c)"
| "cat_exec flt now (OpTouchBlobs ds at) c = no_answer (touch_blobs flt ds at c)"
| "cat_exec flt now (OpDeleteBlob d) c = no_answer (delete_blob_record flt d c)"
| "cat_exec flt now (OpPutRef r) c = no_answer (put_ref flt now r c)"
| "cat_exec flt now (OpDeleteRef k) c = no_answer (delete_ref flt k c)"
| "cat_exec flt now (OpPutArtifact a) c = no_answer (put_artifact flt now a c)"
| "cat_exec flt now (OpDeleteArtifacts p e n) c = no_answer (delete_artifacts flt p e n c)"
| "cat_exec flt now (OpDeleteVersion p e n v) c = no_answer (delete_artifact_version flt p e n v c)"
| "cat_exec flt now (OpPutSnapshot s) c = no_answer (put_snapshot flt now s c)"
| "cat_exec flt now (OpCommitSnapshot s) c = no_answer (commit_snapshot flt now s c)"
| "cat_exec flt now (OpSetHead p i) c = no_answer (set_head flt p i c)"
| "cat_exec flt now (OpRecord a t) c = no_answer (record_access flt a t c)"
| "cat_exec flt now OpFlush c = no_answer (flush flt c)"
| "cat_exec flt now OpTick c = (flush_tick flt c, Inr None)"
| "cat_exec flt now OpClose c = no_answer (catalog_close flt c)"
| "cat_exec flt now (OpRestart b n) c = (catalog_open b n (ct_db c), Inr None)"

text \<open>The states a catalog reaches from a first open, restarts that lose the queue included.\<close>

inductive cat_reaches :: "catalog \<Rightarrow> bool" where
  first: "cat_reaches (catalog_open b n empty_db)"
| step: "cat_reaches c \<Longrightarrow> cat_exec flt now op c = (c', r) \<Longrightarrow> cat_reaches c'"

section \<open>Each operation keeps the invariant\<close>

lemma open_ok: "db_ok d \<Longrightarrow> cat_ok (catalog_open b n d)"
proof -
  assume "db_ok d"
  moreover have "cache_look (new_entry_cache m) k = None" for m k
    by (simp add: cache_look_def new_entry_cache_def)
  ultimately show ?thesis
    by (simp add: cat_ok_def catalog_open_def batch_ok_def lru.agrees_def new_cache_ok)
qed

lemma in_tx_cases:
  assumes "in_tx flt f c = (c', r)"
  obtains (error) e where "c' = c" "r = Inl e"
    | (ok) d a where "flt \<noteq> TxFault" "f (ct_db c) = Inr (d, a)" "c' = c\<lparr>ct_db := d\<rparr>" "r = Inr a"
  using assms by (auto simp: in_tx_def split: if_splits sum.splits)

lemma in_tx_keeps:
  assumes ok: "cat_ok c" and f: "in_tx flt f c = (c', r)"
    and keep: "\<And>d a. f (ct_db c) = Inr (d, a) \<Longrightarrow> db_ok d \<and> rows_view d = rows_view (ct_db c)"
  shows "cat_ok c' \<and> cat_view c' = cat_view c"
  using f
proof (cases rule: in_tx_cases)
  case (error e)
  with ok show ?thesis by simp
next
  case (ok d a)
  have "cat_view c' = cat_view c" using keep [OF ok(2)] ok(3) by (simp add: cat_view_def)
  with keep [OF ok(2)] ok(3) cat_okD [OF \<open>cat_ok c\<close>] show ?thesis by (simp add: cat_ok_def)
qed

lemma after_flush_cases:
  assumes ok: "cat_ok c" and f: "after_flush flt f c = (c', r)"
  obtains (refused) e where "r = Inl e" "cat_ok c'" "cat_view c' = cat_view c" "flt = FlushFault"
      "ct_closed c' = ct_closed c"
    | (flushed) c1 where "cat_ok c1" "ct_pending c1 = []" "cat_view c1 = cat_view c" "f c1 = (c', r)"
      "rows_view (ct_db c1) = cat_view c" "db_artifacts (ct_db c1) = db_artifacts (ct_db c)"
      "db_heads (ct_db c1) = db_heads (ct_db c)" "db_snapshots (ct_db c1) = db_snapshots (ct_db c)"
      "ct_closed c1 = ct_closed c"
proof -
  obtain c0 r0 where l: "flush_locked flt c = (c0, r0)" by fastforce
  note K = flush_locked_keeps [OF ok l]
  let ?c1 = "record_flush r0 c0"
  have c1: "cat_ok ?c1" "cat_view ?c1 = cat_view c" "ct_pending ?c1 = ct_pending c0"
      "ct_db ?c1 = ct_db c0" "ct_closed ?c1 = ct_closed c"
    using K(1,2,4) by (simp_all add: record_flush_def cat_ok_def)
  have fl: "flush flt c = (?c1, r0)" by (simp add: flush_def l)
  show thesis
  proof (cases r0)
    case (Inl e)
    then have "c' = ?c1" "r = Inl e" using f fl by (simp_all add: after_flush_def)
    moreover have "flt = FlushFault" using K(6) Inl by auto
    ultimately show thesis using refused c1 by blast
  next
    case (Inr u)
    then have p: "ct_pending ?c1 = []" using K(5) c1(3) by simp
    have "f ?c1 = (c', r)" using f fl Inr by (simp add: after_flush_def)
    then show thesis
      using flushed [of ?c1] c1 p K(7-9) cat_view_no_pending [OF p] by simp
  qed
qed

lemma flush_keeps: "cat_ok c \<Longrightarrow> flush flt c = (c', r) \<Longrightarrow> cat_ok c' \<and> cat_view c' = cat_view c"
proof -
  assume ok: "cat_ok c" and f: "flush flt c = (c', r)"
  obtain c0 where l: "flush_locked flt c = (c0, r)" and c': "c' = record_flush r c0"
    using f by (auto simp: flush_def split: prod.splits)
  show ?thesis using flush_locked_keeps(1,2) [OF ok l] by (simp add: c' record_flush_def cat_ok_def)
qed

lemma tick_keeps: "cat_ok c \<Longrightarrow> cat_ok (flush_tick flt c) \<and> cat_view (flush_tick flt c) = cat_view c"
  using flush_keeps [of c flt] by (simp add: flush_tick_def flush_def split: prod.splits)

lemma close_keeps: "cat_ok c \<Longrightarrow> catalog_close flt c = (c', r) \<Longrightarrow> cat_ok c' \<and> cat_view c' = cat_view c"
proof -
  assume ok: "cat_ok c" and f: "catalog_close flt c = (c', r)"
  have "cat_ok (c\<lparr>ct_closed := True\<rparr>)" using ok by (simp add: cat_ok_def)
  then show ?thesis using ok f flush_locked_keeps(1,2) [of "c\<lparr>ct_closed := True\<rparr>" flt c' r]
    by (auto simp: catalog_close_def split: if_splits)
qed

lemma get_fast_cases:
  assumes ok: "cat_ok c" and g: "get_fast k c = (c', r)"
  shows "cat_ok c' \<and> cat_view c' = cat_view c \<and> ct_db c' = ct_db c \<and> ct_pending c' = ct_pending c \<and>
    (case r of Some e \<Rightarrow> cat_view c k = Some (en_content e) | None \<Rightarrow> map_of (ct_pending c) k = None)"
proof (cases "map_of (ct_pending c) k")
  case (Some e)
  then have "c' = c" "r = Some e" using g by (simp_all add: get_fast_def)
  with Some show ?thesis using ok by (simp add: cat_view_def map_add_def)
next
  case None
  obtain ca where ca: "cache_get k (ct_cache c) = (ca, r)" "c' = c\<lparr>ct_cache := ca\<rparr>"
    using g None by (auto simp: get_fast_def split: prod.splits)
  have "lru.agrees en_content (cat_view c) ca"
    using lru.agrees_get [OF cat_ok_cache [OF ok], of k] ca by simp
  moreover have "r = Some e \<Longrightarrow> cat_view c k = Some (en_content e)" for e
    using lru.agrees_hit [OF cat_ok_cache [OF ok], of k e] ca(1) by simp
  ultimately show ?thesis using ca(2) None cat_okD(1,2) [OF ok]
    by (auto simp: cat_ok_def split: option.splits)
qed

lemma get_entry_spec:
  assumes ok: "cat_ok c" and g: "get_entry flt k c = (c', r)"
  shows "cat_ok c' \<and> cat_view c' = cat_view c \<and>
    (case r of Inr e \<Rightarrow> cat_view c k = Some (en_content e)
     | Inl err \<Rightarrow> flt = TxFault \<or> (err = CatNotFound \<and> cat_view c k = None))"
proof -
  obtain c1 a where f: "get_fast k c = (c1, a)" by fastforce
  note F = get_fast_cases [OF ok f]
  show ?thesis
  proof (cases a)
    case (Some e)
    then show ?thesis using g f F by (auto simp: get_entry_def)
  next
    case None
    have vk: "cat_view c1 k = rows_view (ct_db c1) k"
      using F None by (simp add: cat_view_def map_add_def)
    show ?thesis
    proof (cases "get_row flt k c1")
      case (Inl err)
      then show ?thesis using g f F None vk
        by (auto simp: get_entry_def get_row_def rows_view_def split: if_splits option.splits)
    next
      case (Inr e)
      then have e: "en_key e = k" "cat_view c1 k = Some (en_content e)"
        using vk by (auto simp: get_row_def rows_view_def split: if_splits option.splits)
      have c': "c' = get_fill e c1" "r = Inr e" using g f None Inr by (simp_all add: get_entry_def)
      have "lru.agrees en_content (cat_view c1) (cache_put k e (ct_cache c1))"
        by (rule lru.agrees_fill) (use F e in \<open>auto simp: cat_ok_def\<close>)
      with c' F e show ?thesis by (auto simp: get_fill_def cat_ok_def)
    qed
  qed
qed

lemma put_entry_spec:
  assumes ok: "cat_ok c" and p: "put_entry now e c = (c', w, r)"
  shows "cat_ok c' \<and> cat_view c' =
    (if digest_valid (en_digest e) \<and> \<not> ct_closed c then (cat_view c)(en_key e \<mapsto> en_content e) else cat_view c)"
proof (cases "digest_valid (en_digest e) \<and> \<not> ct_closed c")
  case True
  let ?e = "with_times now e"
  have c': "c' = c\<lparr>ct_pending := AList.update (en_key e) ?e (ct_pending c),
                   ct_cache := cache_put (en_key e) ?e (ct_cache c)\<rparr>"
    using p True by (auto simp: put_entry_def Let_def)
  have v: "cat_view c' = (cat_view c)(en_key e \<mapsto> en_content e)"
    unfolding c' cat_view_def by (auto simp: map_add_def fun_eq_iff)
  have "batch_ok (AList.update (en_key e) ?e (ct_pending c))"
    using batch_ok_update [OF cat_ok_batch [OF ok], of ?e] True by simp
  moreover have "lru.agrees en_content (cat_view c') (cache_put (en_key e) ?e (ct_cache c))"
    using lru.agrees_put [OF cat_ok_cache [OF ok], of "en_key e" ?e] v by simp
  ultimately show ?thesis using v True cat_ok_db [OF ok] by (simp add: cat_ok_def c')
next
  case False
  then show ?thesis using p ok by (auto simp: put_entry_def split: if_splits)
qed

lemma commit_tx_Inr:
  assumes "commit_tx now e art q b d = Inr d'"
  obtains d1 where "check_bytes e q d = Inr ()" "check_artifacts e art q b d = Inr ()"
    "put_row e (put_blob True (en_digest e) (en_size e) (en_cached e) (en_access e) d) = Inr d1"
    "d' = (case art of None \<Rightarrow> d1 | Some a \<Rightarrow> publish_artifact b (describe now e a) d1)"
  using assms by (auto simp: commit_tx_def bind_res_Inr_iff split: option.splits)

lemma upsert_artifact_ok: "db_ok d \<Longrightarrow> db_ok (upsert_artifact a d) \<and> rows_view (upsert_artifact a d) = rows_view d"
  by (auto simp: upsert_artifact_def db_ok_def entries_ok_def rows_view_def)

lemma entries_ok_cong: "db_entries d' = db_entries d \<Longrightarrow> db_blobs d' = db_blobs d \<Longrightarrow> entries_ok d' = entries_ok d"
  by (simp add: entries_ok_def)

lemma db_ok_artifacts_upd: "db_ok d \<Longrightarrow> distinct (map fst x) \<Longrightarrow> db_ok (d\<lparr>db_artifacts := x\<rparr>)"
  using entries_ok_cong [of "d\<lparr>db_artifacts := x\<rparr>" d] by (simp add: db_ok_def)

lemma publish_artifact_ok:
  assumes "db_ok d"
  shows "db_ok (publish_artifact b a d) \<and> rows_view (publish_artifact b a d) = rows_view d"
proof -
  have "db_ok (d\<lparr>db_artifacts := delete_where P (db_artifacts d)\<rparr>)" for P
    by (rule db_ok_artifacts_upd [OF assms]) (simp add: db_ok_artifacts [OF assms])
  moreover have "rows_view (d\<lparr>db_artifacts := x\<rparr>) = rows_view d" for x
    by (rule rows_view_cong) simp
  ultimately show ?thesis unfolding publish_artifact_def using upsert_artifact_ok assms by (cases b) auto
qed

lemma commit_tx_spec:
  assumes "commit_tx now e art q b d = Inr d'" and ok: "db_ok d" and v: "digest_valid (en_digest e)"
  shows "db_ok d' \<and> rows_view d' = (rows_view d)(en_key e \<mapsto> en_content e)"
  using assms(1)
proof (cases rule: commit_tx_Inr)
  case (1 d1)
  have ok1: "db_ok d1" by (rule put_row_ok [OF 1(3) put_blob_ok [OF ok] v])
  have v1: "rows_view d1 = (rows_view d)(en_key e \<mapsto> en_content e)"
    using put_row_view [OF 1(3)] by (simp add: rows_view_def fun_eq_iff)
  show ?thesis using 1(4) ok1 v1 publish_artifact_ok [OF ok1] by (cases art) auto
qed

text \<open>A transaction that rewrites rows, followed by the matching change of the cache.\<close>

lemma cat_ok_after:
  assumes "cat_ok c" and "ct_pending c = []" and "db_ok d" and "rows_view d = view"
    and "lru.agrees en_content view ca"
  shows "cat_ok (c\<lparr>ct_db := d, ct_cache := ca\<rparr>) \<and> cat_view (c\<lparr>ct_db := d, ct_cache := ca\<rparr>) = view"
  using assms cat_ok_batch [OF assms(1)] by (simp add: cat_ok_def cat_view_no_pending)

lemma commit_entry_spec:
  assumes ok: "cat_ok c" and f: "commit_entry flt now e art q b c = (c', r)"
  shows "cat_ok c' \<and> cat_view c' = (if is_ok r then (cat_view c)(en_key e \<mapsto> en_content e) else cat_view c)"
proof (cases "digest_valid (en_digest e)")
  case False
  then show ?thesis using f ok by (auto simp: commit_entry_def)
next
  case v: True
  let ?e = "with_times now e"
  let ?tx = "\<lambda>d. map_sum id (\<lambda>d'. (d', ())) (commit_tx now ?e art q b d)"
  let ?g = "\<lambda>c. case in_tx flt ?tx c of
          (c', Inl err) \<Rightarrow> (c', Inl err)
        | (c', Inr _) \<Rightarrow> (c'\<lparr>ct_cache := cache_put (en_key ?e) ?e (ct_cache c')\<rparr>, Inr ())"
  have g: "after_flush flt ?g c = (c', r)" using f v by (simp only: commit_entry_def Let_def not_True_eq_False if_False)
  show ?thesis using ok g
  proof (cases rule: after_flush_cases)
    case (refused err)
    then show ?thesis by simp
  next
    case (flushed c1)
    obtain c2 r2 where t: "in_tx flt ?tx c1 = (c2, r2)" by fastforce
    show ?thesis using t
    proof (cases rule: in_tx_cases)
      case (error err)
      then show ?thesis using flushed t by auto
    next
      case (ok d u)
      then have d: "commit_tx now ?e art q b (ct_db c1) = Inr d"
        by (cases "commit_tx now ?e art q b (ct_db c1)") auto
      have sp: "db_ok d" "rows_view d = (cat_view c)(en_key e \<mapsto> en_content e)"
        using commit_tx_spec [OF d cat_ok_db [OF flushed(1)]] v flushed(5) by simp_all
      have "lru.agrees en_content ((cat_view c1)(en_key e \<mapsto> en_content e)) (cache_put (en_key e) ?e (ct_cache c1))"
        using lru.agrees_put [OF cat_ok_cache [OF flushed(1)], of "en_key e" ?e] by simp
      moreover have "c' = c1\<lparr>ct_db := d, ct_cache := cache_put (en_key e) ?e (ct_cache c1)\<rparr>" "is_ok r"
        using flushed(4) t ok by auto
      ultimately show ?thesis using cat_ok_after [OF flushed(1,2) sp] flushed(3) by simp
    qed
  qed
qed

lemma delete_entry_spec:
  assumes ok: "cat_ok c" and f: "delete_entry flt k c = (c', r)"
  shows "cat_ok c' \<and> (\<forall>j. j \<noteq> k \<longrightarrow> cat_view c' j = cat_view c j) \<and> (is_ok r \<longrightarrow> cat_view c' k = None)"
proof -
  let ?c = "c\<lparr>ct_pending := AList.delete k (ct_pending c), ct_cache := cache_drop k (ct_cache c)\<rparr>"
  have b: "batch_ok (AList.delete k (ct_pending c))" by (rule batch_ok_delete [OF cat_ok_batch [OF ok]])
  have u: "\<And>d. lru.agrees en_content ((cat_view c)(k := u)) (cache_drop k (ct_cache c))" for u
    by (rule lru.agrees_drop1 [OF cat_ok_cache [OF ok]])
  have "in_tx flt (\<lambda>d. Inr (d\<lparr>db_entries := delete_where (\<lambda>j _. j = k) (db_entries d)\<rparr>, ())) ?c = (c', r)"
    using f by (simp add: delete_entry_def)
  then show ?thesis
  proof (cases rule: in_tx_cases)
    case (error e)
    have "cat_view c' = (cat_view c)(k := rows_view (ct_db c) k)"
      unfolding error(1) by (auto simp: cat_view_def map_add_def fun_eq_iff)
    then show ?thesis using u b error cat_ok_db [OF ok] by (simp add: cat_ok_def)
  next
    case (ok d a)
    have "cat_view c' = (cat_view c)(k := None)"
      unfolding ok(3) using ok(2) by (auto simp: cat_view_def map_add_def fun_eq_iff rows_view_def split: option.splits)
    moreover have "db_ok d" using ok(2) delete_rows_ok [OF cat_ok_db [OF \<open>cat_ok c\<close>], of "\<lambda>j. j = k"] by simp
    ultimately show ?thesis using u b ok(3) by (simp add: cat_ok_def)
  qed
qed

lemma evict_tx_Inr:
  assumes "evict_tx k d = Inr (d', dg, sz, still)" and "db_ok d"
  shows "db_ok d' \<and> rows_view d' = (rows_view d)(k := None) \<and> still = referenced dg d' \<and>
    rows_view d k \<noteq> None \<and> map_option (\<lambda>e. (en_digest e, en_size e)) (map_of (db_entries d) k) = Some (dg, sz)"
proof -
  obtain e where e: "map_of (db_entries d) k = Some e"
    using assms(1) by (auto simp: evict_tx_def split: option.splits)
  have d': "d' = d\<lparr>db_entries := delete_where (\<lambda>j _. j = k) (db_entries d),
       db_refs := delete_where (\<lambda>j r. rk_project j = k_project k \<and> rk_eco j = k_eco k \<and> rf_target r = k_key k) (db_refs d),
       db_artifacts := delete_where (\<lambda>j a. fst j = k_project k \<and> fst (snd j) = k_eco k \<and>
          ar_digest a = en_digest e) (db_artifacts d)\<rparr>"
    and r: "dg = en_digest e" "sz = en_size e" "still = referenced dg d'"
    using assms(1) e by (auto simp: evict_tx_def Let_def)
  have "db_ok d'" using assms(2) unfolding d' by (auto simp: db_ok_def entries_ok_def)
  moreover have "rows_view d' = (rows_view d)(k := None)" unfolding d' by (auto simp: rows_view_def)
  ultimately show ?thesis using r e by (simp add: rows_view_def)
qed

lemma evict_entry_spec:
  assumes ok: "cat_ok c" and f: "evict_entry flt k c = (c', r)"
  shows "cat_ok c' \<and> cat_view c' = (if is_ok r then (cat_view c)(k := None) else cat_view c)"
  using ok f[unfolded evict_entry_def]
proof (cases rule: after_flush_cases)
  case (refused err)
  then show ?thesis by simp
next
  case (flushed c1)
  obtain c2 r2 where t: "in_tx flt (evict_tx k) c1 = (c2, r2)" by fastforce
  show ?thesis using t
  proof (cases rule: in_tx_cases)
    case (error err)
    then show ?thesis using flushed t by auto
  next
    case (ok d u)
    obtain dg sz still where u: "u = (dg, sz, still)" by (cases u)
    have sp: "db_ok d" "rows_view d = (cat_view c)(k := None)"
      using evict_tx_Inr [OF ok(2)[unfolded u] cat_ok_db [OF flushed(1)]] flushed(5) by simp_all
    have "lru.agrees en_content ((cat_view c)(k := None)) (cache_drop k (ct_cache c1))"
      using lru.agrees_drop1 [OF cat_ok_cache [OF flushed(1)], of k None] flushed(3) by simp
    moreover have "c' = c1\<lparr>ct_db := d, ct_cache := cache_drop k (ct_cache c1)\<rparr>" "is_ok r"
      using flushed(4) t ok by auto
    ultimately show ?thesis using cat_ok_after [OF flushed(1,2) sp] by simp
  qed
qed

lemma delete_project_spec:
  assumes ok: "cat_ok c" and f: "delete_project flt p c = (c', r)"
  shows "cat_ok c' \<and> cat_view c' =
    (if is_ok r then (\<lambda>k. if k_project k = p then None else cat_view c k) else cat_view c)"
  using ok f[unfolded delete_project_def]
proof (cases rule: after_flush_cases)
  case (refused err)
  then show ?thesis by simp
next
  case (flushed c1)
  let ?v = "\<lambda>k. if k_project k = p then None else cat_view c k"
  let ?f = "\<lambda>d. (\<lparr>db_blobs = db_blobs d,
                db_entries = delete_where (\<lambda>k _. k_project k = p) (db_entries d),
                db_refs = delete_where (\<lambda>k _. rk_project k = p) (db_refs d),
                db_artifacts = delete_where (\<lambda>k _. fst k = p) (db_artifacts d),
                db_snapshots = delete_where (\<lambda>_ s. sn_project s = p) (db_snapshots d),
                db_heads = delete_where (\<lambda>k _. k = p) (db_heads d),
                db_access = delete_where (\<lambda>k _. fst k = p) (db_access d),
                db_traffic = delete_where (\<lambda>k _. fst k = p) (db_traffic d)\<rparr>,
               int (length (filter (\<lambda>r. k_project (fst r) = p) (db_entries d))))"
  obtain c2 r2 where t: "in_tx flt (\<lambda>d. Inr (?f d)) c1 = (c2, r2)" by fastforce
  show ?thesis using t
  proof (cases rule: in_tx_cases)
    case (error err)
    then show ?thesis using flushed t by auto
  next
    case (ok d u)
    have d: "d = fst (?f (ct_db c1))" using ok(2) by auto
    have sp: "db_ok d" "rows_view d = ?v"
      using cat_ok_db [OF flushed(1)] flushed(5) [symmetric] unfolding d
      by (auto simp: db_ok_def entries_ok_def rows_view_def fun_eq_iff)
    have "lru.agrees en_content ?v (drop_project p (ct_cache c1))"
      unfolding drop_project_def
      by (rule lru.agrees_drop_all [OF cat_ok_cache [OF flushed(1)]]) (simp add: flushed(3))
    moreover have "c' = c1\<lparr>ct_db := d, ct_cache := drop_project p (ct_cache c1)\<rparr>" "is_ok r"
      using flushed(4) t ok by auto
    ultimately show ?thesis using cat_ok_after [OF flushed(1,2) sp] by simp
  qed
qed

section \<open>Applying a snapshot\<close>

definition restored_key :: "string \<Rightarrow> entry \<Rightarrow> entry_key" where
  "restored_key p e = EntryKey p (k_eco (en_key e)) (k_key (en_key e))"

definition manifest_view :: "string \<Rightarrow> entry list \<Rightarrow> entry_key \<Rightarrow> (digest \<times> int64 \<times> string) option" where
  "manifest_view p src = map_of (map (\<lambda>e. (restored_key p e, en_content e)) src)"

definition same_beside :: "db \<Rightarrow> db \<Rightarrow> bool" where
  "same_beside d d' \<longleftrightarrow> db_blobs d' = db_blobs d \<and> db_refs d' = db_refs d \<and> db_heads d' = db_heads d \<and>
     db_snapshots d' = db_snapshots d"

lemma restore_entry_Inr:
  assumes "restore_entry now p ix e d = Inr d'" and ok: "db_ok d"
  shows "db_ok d' \<and> rows_view d (restored_key p e) = None \<and> digest_valid (en_digest e) \<and>
    rows_view d' = (rows_view d)(restored_key p e \<mapsto> en_content e) \<and> same_beside d d'"
proof -
  let ?e = "with_times now e"
  let ?r = "?e\<lparr>en_key := restored_key p e\<rparr>"
  obtain d1 where d1: "insert_row ?r d = Inr d1" and v: "digest_valid (en_digest e)"
    and d': "d' = d1 \<or> (\<exists>a. d' = upsert_artifact a d1)"
  proof -
    have "\<exists>d1. insert_row ?r d = Inr d1 \<and>
      (case ix of None \<Rightarrow> Inr d1 | Some f \<Rightarrow> (case f ?e of None \<Rightarrow> Inr d1
          | Some a \<Rightarrow> Inr (upsert_artifact (restored_artifact p ?e a) d1))) = (Inr d' :: cat_error + db)"
      and v: "digest_valid (en_digest e)"
      using assms(1)
      by (simp_all add: restore_entry_def Let_def bind_res_Inr_iff restored_key_def split: if_splits)
    then obtain d1 where d1: "insert_row ?r d = Inr d1"
      "(case ix of None \<Rightarrow> Inr d1 | Some f \<Rightarrow> (case f ?e of None \<Rightarrow> Inr d1
          | Some a \<Rightarrow> Inr (upsert_artifact (restored_artifact p ?e a) d1))) = (Inr d' :: cat_error + db)" by blast
    have "d' = d1 \<or> (\<exists>a. d' = upsert_artifact a d1)"
      using d1(2) by (auto split: option.splits)
    with d1(1) v show thesis by (rule that)
  qed
  have n: "rows_view d (restored_key p e) = None" and r: "put_row ?r d = Inr d1"
    using d1 by (auto simp: insert_row_def rows_view_def split: if_splits)
  have ok1: "db_ok d1" by (rule put_row_ok [OF r ok]) (simp add: v)
  have v1: "rows_view d1 = (rows_view d)(restored_key p e \<mapsto> en_content e)"
    using put_row_view [OF r] by simp
  have "same_beside d d1" using put_row_frame [OF r] by (simp add: same_beside_def)
  then have "same_beside d d'" using d' by (auto simp: same_beside_def upsert_artifact_def)
  then show ?thesis using d' ok1 v1 n v upsert_artifact_ok [OF ok1] by auto
qed

lemma restore_all:
  "fold_res (restore_entry now p ix) src d = Inr d' \<Longrightarrow> db_ok d \<Longrightarrow>
   db_ok d' \<and> rows_view d' = rows_view d ++ manifest_view p src \<and> same_beside d d' \<and>
   distinct (map (restored_key p) src) \<and> (\<forall>e \<in> set src. rows_view d (restored_key p e) = None)"
proof (induction src arbitrary: d)
  case Nil
  then show ?case by (simp add: manifest_view_def same_beside_def)
next
  case (Cons e src)
  obtain d1 where d1: "restore_entry now p ix e d = Inr d1" "fold_res (restore_entry now p ix) src d1 = Inr d'"
    using Cons.prems(1) by (auto simp: bind_res_Inr_iff)
  note R = restore_entry_Inr [OF d1(1) Cons.prems(2)]
  have I: "db_ok d'" "rows_view d' = rows_view d1 ++ manifest_view p src" "same_beside d1 d'"
    "distinct (map (restored_key p) src)" "\<forall>e \<in> set src. rows_view d1 (restored_key p e) = None"
    using Cons.IH [OF d1(2)] R by blast+
  have fresh: "restored_key p e \<notin> restored_key p ` set src"
    using I(5) R by (metis fun_upd_same imageE option.distinct(1))
  then have m: "manifest_view p src (restored_key p e) = None"
    by (auto simp: manifest_view_def map_of_eq_None_iff)
  have "rows_view d' = rows_view d ++ manifest_view p (e # src)"
    unfolding I(2) using R m by (auto simp: map_add_def fun_eq_iff manifest_view_def split: option.splits)
  moreover have "rows_view d (restored_key p e') = None" if "e' \<in> set src" for e'
    using I(5) that R fresh by (metis fun_upd_other image_eqI)
  ultimately show ?case using I R fresh by (auto simp: same_beside_def)
qed

lemma clear_project_ok:
  assumes "db_ok d"
  shows "db_ok (clear_project p d) \<and> rows_view (clear_project p d) = (\<lambda>k. if k_project k = p then None else rows_view d k)"
  using assms by (auto simp: clear_project_def db_ok_def entries_ok_def rows_view_def)

lemma db_ok_same:
  "db_blobs d' = db_blobs d \<Longrightarrow> db_entries d' = db_entries d \<Longrightarrow> db_artifacts d' = db_artifacts d \<Longrightarrow>
   db_snapshots d' = db_snapshots d \<Longrightarrow> db_ok d' = db_ok d"
  using entries_ok_cong [of d' d] by (simp add: db_ok_def)

lemma snapshot_tx_Inr:
  assumes "snapshot_tx now p h i chk src err ix d = Inr d'" and ok: "db_ok d"
  shows "db_ok d' \<and> rows_view d' = (\<lambda>k. if k_project k = p then manifest_view p src k else rows_view d k) \<and>
    err = None \<and> map_of (db_heads d') = (map_of (db_heads d))(p \<mapsto> i) \<and>
    db_refs d' = delete_where (\<lambda>k _. rk_project k = p) (db_refs d) \<and>
    (chk \<longrightarrow> (case map_of (db_heads d) p of None \<Rightarrow> [] | Some j \<Rightarrow> j) = h) \<and>
    db_blobs d' = db_blobs d \<and> db_snapshots d' = db_snapshots d \<and> distinct (map (restored_key p) src)"
proof -
  obtain d1 where d1: "fold_res (restore_entry now p ix) src (clear_project p d) = Inr d1"
    and d': "d' = set_head_row p i d1" "err = None"
    and h: "chk \<longrightarrow> (case map_of (db_heads d) p of None \<Rightarrow> [] | Some j \<Rightarrow> j) = h"
    using assms(1) by (auto simp: snapshot_tx_def Let_def bind_res_Inr_iff split: if_splits option.splits)
  have C: "db_ok (clear_project p d)"
    "rows_view (clear_project p d) = (\<lambda>k. if k_project k = p then None else rows_view d k)"
    using clear_project_ok [OF ok] by simp_all
  have R: "db_ok d1" "rows_view d1 = rows_view (clear_project p d) ++ manifest_view p src"
    "same_beside (clear_project p d) d1" "distinct (map (restored_key p) src)"
    using restore_all [OF d1 C(1)] by simp_all
  have out: "manifest_view p src k = None" if "k_project k \<noteq> p" for k
    using that by (auto simp: manifest_view_def map_of_eq_None_iff restored_key_def)
  have v: "rows_view d1 = (\<lambda>k. if k_project k = p then manifest_view p src k else rows_view d k)"
    unfolding R(2) C(2) using out by (auto simp: map_add_def fun_eq_iff split: option.splits)
  have "db_ok d'" using R(1) db_ok_same [of d' d1] by (simp add: d'(1) set_head_row_def)
  moreover have "rows_view d' = rows_view d1" unfolding d'(1) by (rule rows_view_cong) (simp add: set_head_row_def)
  moreover have "map_of (db_heads d') = (map_of (db_heads d))(p \<mapsto> i)"
    using R(3) unfolding d'(1) by (auto simp: set_head_row_def same_beside_def clear_project_def split: option.splits)
  ultimately show ?thesis using v h d'(2) R(3,4)
    by (auto simp: d'(1) set_head_row_def same_beside_def clear_project_def)
qed

lemma apply_snapshot_spec:
  assumes ok: "cat_ok c" and f: "apply_snapshot flt now p h i chk src err ix c = (c', r)"
  shows "cat_ok c' \<and> cat_view c' =
    (if is_ok r then (\<lambda>k. if k_project k = p then manifest_view p src k else cat_view c k) else cat_view c)"
proof (cases "p = [] \<or> i = []")
  case True
  then show ?thesis using f ok by (auto simp: apply_snapshot_def)
next
  case False
  let ?v = "\<lambda>k. if k_project k = p then manifest_view p src k else cat_view c k"
  let ?tx = "\<lambda>d. map_sum id (\<lambda>d'. (d', ())) (snapshot_tx now p h i chk src err ix d)"
  let ?g = "\<lambda>c. case in_tx flt ?tx c of
          (c', Inl err) \<Rightarrow> (c', Inl err)
        | (c', Inr _) \<Rightarrow> (c'\<lparr>ct_cache := drop_project p (ct_cache c')\<rparr>, Inr ())"
  have "after_flush flt ?g c = (c', r)" using f False by (simp add: apply_snapshot_def)
  with ok show ?thesis
  proof (cases rule: after_flush_cases)
    case (refused err)
    then show ?thesis by simp
  next
    case (flushed c1)
    obtain c2 r2 where t: "in_tx flt ?tx c1 = (c2, r2)" by fastforce
    show ?thesis using t
    proof (cases rule: in_tx_cases)
      case (error err)
      then show ?thesis using flushed t by auto
    next
      case (ok d u)
      then have d: "snapshot_tx now p h i chk src err ix (ct_db c1) = Inr d"
        by (cases "snapshot_tx now p h i chk src err ix (ct_db c1)") auto
      have sp: "db_ok d" "rows_view d = ?v"
        using snapshot_tx_Inr [OF d cat_ok_db [OF flushed(1)]] flushed(5) by (auto simp: fun_eq_iff)
      have "lru.agrees en_content ?v (drop_project p (ct_cache c1))"
        unfolding drop_project_def
        by (rule lru.agrees_drop_all [OF cat_ok_cache [OF flushed(1)]]) (simp add: flushed(3))
      moreover have "c' = c1\<lparr>ct_db := d, ct_cache := drop_project p (ct_cache c1)\<rparr>" "is_ok r"
        using flushed(4) t ok by auto
      ultimately show ?thesis using cat_ok_after [OF flushed(1,2) sp] by simp
    qed
  qed
qed

section \<open>The remaining operations keep the view\<close>

lemma entries_ok_update_key:
  assumes "entries_ok d" and "\<And>e. en_key (f e) = en_key e \<and> en_digest (f e) = en_digest e"
  shows "entries_ok (d\<lparr>db_entries := update_key k f (db_entries d)\<rparr>)"
proof -
  have "en_key e = j \<and> digest_valid (en_digest e) \<and> map_of (db_blobs d) (en_digest e) \<noteq> None"
    if m: "map_of (update_key k f (db_entries d)) j = Some e" for j e
  proof -
    obtain e0 where "map_of (db_entries d) j = Some e0" "en_key e = en_key e0" "en_digest e = en_digest e0"
      using m assms(2) by (auto split: if_splits)
    then show ?thesis using assms(1) unfolding entries_ok_def by metis
  qed
  then show ?thesis unfolding entries_ok_def by simp
qed

lemma entries_ok_blobs:
  "entries_ok d \<Longrightarrow> dom (map_of (db_blobs d)) \<subseteq> dom (map_of t) \<Longrightarrow> entries_ok (d\<lparr>db_blobs := t\<rparr>)"
  unfolding entries_ok_def by (simp add: subset_iff domIff)

lemma dom_update_key [simp]: "dom (map_of (update_key k f t)) = dom (map_of t)"
  by (simp add: dom_map_of_conv_image_fst flip: image_image set_map)

lemma touch_entry_ok: "db_ok d \<Longrightarrow> db_ok (touch_entry t d) \<and> rows_view (touch_entry t d) = rows_view d"
proof -
  assume ok: "db_ok d"
  have c: "en_content (e\<lparr>en_access := a, en_hits := n\<rparr>) = en_content e" for e a n
    by (simp add: en_content_def)
  have "rows_view (touch_entry t d) = rows_view d"
    by (auto simp: touch_entry_def Let_def rows_view_def fun_eq_iff c option.map_comp o_def)
  moreover have "entries_ok (touch_entry t d)"
    unfolding touch_entry_def Let_def using entries_ok_update_key [OF db_ok_entries [OF ok]]
    by (auto intro!: entries_ok_blobs)
  moreover have "map fst (db_blobs (touch_entry t d)) = map fst (db_blobs d)"
      "map fst (db_entries (touch_entry t d)) = map fst (db_entries d)"
      "db_artifacts (touch_entry t d) = db_artifacts d" "db_snapshots (touch_entry t d) = db_snapshots d"
    by (simp_all add: touch_entry_def Let_def)
  ultimately show ?thesis using ok by (simp add: db_ok_def)
qed

lemma fold_keeps:
  assumes "\<And>x d. db_ok d \<Longrightarrow> db_ok (f x d) \<and> rows_view (f x d) = rows_view d"
  shows "db_ok d \<Longrightarrow> db_ok (fold f xs d) \<and> rows_view (fold f xs d) = rows_view d"
  by (induction xs arbitrary: d) (use assms in auto)

lemma agrees_drops:
  "lru.agrees obs view ca \<Longrightarrow> lru.agrees obs view (fold (\<lambda>t. cache_drop (to_key t)) xs ca)"
proof (induction xs arbitrary: ca)
  case (Cons t xs)
  have "lru.agrees obs (view(to_key t := view (to_key t))) (cache_drop (to_key t) ca)"
    by (rule lru.agrees_drop1 [OF Cons.prems])
  then show ?case using Cons.IH by simp
qed simp

lemma touch_entries_spec:
  assumes ok: "cat_ok c" and f: "touch_entries flt t c = (c', r)"
  shows "cat_ok c' \<and> cat_view c' = cat_view c"
proof (cases "t = []")
  case True
  then show ?thesis using f ok by (simp add: touch_entries_def)
next
  case False
  obtain c1 r1 where t: "in_tx flt (\<lambda>d. Inr (fold touch_entry t d, ())) c = (c1, r1)" by fastforce
  have K: "cat_ok c1 \<and> cat_view c1 = cat_view c"
    by (rule in_tx_keeps [OF ok t]) (use fold_keeps [of touch_entry, OF touch_entry_ok cat_ok_db [OF ok]] in auto)
  have "c' = c1 \<or> c' = c1\<lparr>ct_cache := fold (\<lambda>t. cache_drop (to_key t)) t (ct_cache c1)\<rparr>"
    using f t False by (auto simp: touch_entries_def split: sum.splits)
  then show ?thesis using K agrees_drops [of en_content "cat_view c1" "ct_cache c1" t]
    by (auto simp: cat_ok_def)
qed

lemma same_rows:
  "db_ok d \<Longrightarrow> db_blobs d' = db_blobs d \<Longrightarrow> db_entries d' = db_entries d \<Longrightarrow>
   db_artifacts d' = db_artifacts d \<Longrightarrow> db_snapshots d' = db_snapshots d \<Longrightarrow>
   db_ok d' \<and> rows_view d' = rows_view d"
  using db_ok_same [of d' d] rows_view_cong [of d' d] by simp

lemma artifacts_only:
  "db_ok d \<Longrightarrow> distinct (map fst x) \<Longrightarrow>
   db_ok (d\<lparr>db_artifacts := x\<rparr>) \<and> rows_view (d\<lparr>db_artifacts := x\<rparr>) = rows_view d"
  using db_ok_artifacts_upd [of d x] rows_view_cong [of "d\<lparr>db_artifacts := x\<rparr>" d] by simp

lemma blobs_only:
  "db_ok d \<Longrightarrow> distinct (map fst x) \<Longrightarrow> dom (map_of (db_blobs d)) \<subseteq> dom (map_of x) \<Longrightarrow>
   db_ok (d\<lparr>db_blobs := x\<rparr>) \<and> rows_view (d\<lparr>db_blobs := x\<rparr>) = rows_view d"
  using entries_ok_blobs [of d x] rows_view_cong [of "d\<lparr>db_blobs := x\<rparr>" d] by (simp add: db_ok_def)

lemma refs_only: "db_ok d \<Longrightarrow> db_ok (d\<lparr>db_refs := x\<rparr>) \<and> rows_view (d\<lparr>db_refs := x\<rparr>) = rows_view d"
  by (rule same_rows) simp_all

lemma insert_snapshot_keeps:
  assumes "insert_snapshot now s d = Inr d'" and "db_ok d"
  shows "db_ok d' \<and> rows_view d' = rows_view d \<and> db_heads d' = db_heads d"
proof -
  have n: "map_of (db_snapshots d) (sn_id s) = None"
    and d': "d' = d\<lparr>db_snapshots := (sn_id s, s\<lparr>sn_created := col_time (or_now now (sn_created s))\<rparr>) # db_snapshots d\<rparr>"
    using assms(1) by (auto simp: insert_snapshot_def split: if_splits)
  have "sn_id s \<notin> fst ` set (db_snapshots d)" using n by (simp add: map_of_eq_None_iff)
  moreover have "entries_ok d'" using entries_ok_cong [of d' d] db_ok_entries [OF assms(2)] by (simp add: d')
  ultimately have "db_ok d'" using db_okD(1-4) [OF assms(2)] by (auto simp: db_ok_def d')
  then show ?thesis using rows_view_cong [of d' d] by (simp add: d')
qed

lemma set_head_keeps: "db_ok d \<Longrightarrow> db_ok (set_head_row p i d) \<and> rows_view (set_head_row p i d) = rows_view d"
  by (rule same_rows) (simp_all add: set_head_row_def)

lemma delete_blob_keeps:
  assumes "\<not> (\<exists>e \<in> snd ` set (db_entries d). en_digest e = dg)" and ok: "db_ok d"
  shows "db_ok (d\<lparr>db_blobs := delete_where (\<lambda>k r. k = dg) (db_blobs d)\<rparr>)" (is "db_ok ?d")
proof -
  have "map_of (db_entries d) k = Some e \<Longrightarrow> en_digest e \<noteq> dg" for k e
    using assms(1) map_of_SomeD [of "db_entries d" k e] by force
  then have "entries_ok ?d" using db_ok_entries [OF ok] unfolding entries_ok_def by auto
  then show ?thesis using db_okD(1-4) [OF ok] by (simp add: db_ok_def)
qed

lemma touch_blob_keeps: "db_ok d \<Longrightarrow>
   db_ok (d\<lparr>db_blobs := update_key dg f (db_blobs d)\<rparr>) \<and> rows_view (d\<lparr>db_blobs := update_key dg f (db_blobs d)\<rparr>) = rows_view d"
  by (rule blobs_only) (simp_all add: db_ok_blobs)

lemma fold_access_keeps: "db_ok d \<Longrightarrow> db_ok (fold_access a d) \<and> rows_view (fold_access a d) = rows_view d"
  by (rule same_rows) (simp_all add: fold_access_def)

lemma fold_traffic_keeps: "db_ok d \<Longrightarrow> db_ok (fold_traffic a d) \<and> rows_view (fold_traffic a d) = rows_view d"
  by (rule same_rows) (simp_all add: fold_traffic_def)

text \<open>The operations whose transaction leaves the entries' content alone.\<close>

fun row_neutral :: "cat_op \<Rightarrow> bool" where
  "row_neutral (OpUpsertBlob d b) = True"
| "row_neutral (OpTouchBlobs ds at) = True"
| "row_neutral (OpDeleteBlob d) = True"
| "row_neutral (OpPutRef r) = True"
| "row_neutral (OpDeleteRef k) = True"
| "row_neutral (OpPutArtifact a) = True"
| "row_neutral (OpDeleteArtifacts p e n) = True"
| "row_neutral (OpDeleteVersion p e n v) = True"
| "row_neutral (OpPutSnapshot s) = True"
| "row_neutral (OpCommitSnapshot s) = True"
| "row_neutral (OpSetHead p i) = True"
| "row_neutral (OpRecord a t) = True"
| "row_neutral _ = False"

lemma no_answer_eq: "no_answer x = (c', r) \<Longrightarrow> \<exists>r0. x = (c', r0) \<and> is_ok r = is_ok r0"
  by (cases x; cases "snd x") (auto simp: no_answer_def)

lemma tx_keeps:
  assumes ok: "cat_ok c" and f: "no_answer (in_tx flt g c) = (c', r)"
    and k: "\<And>d a. g (ct_db c) = Inr (d, a) \<Longrightarrow> db_ok d \<and> rows_view d = rows_view (ct_db c)"
  shows "cat_ok c' \<and> cat_view c' = cat_view c"
proof -
  obtain r0 where t: "in_tx flt g c = (c', r0)" using no_answer_eq [OF f] by blast
  show ?thesis by (rule in_tx_keeps [OF ok t]) (rule k)
qed

lemma neutral_keeps:
  assumes ok: "cat_ok c" and n: "row_neutral op" and f: "cat_exec flt now op c = (c', r)"
  shows "cat_ok c' \<and> cat_view c' = cat_view c"
proof -
  note D = cat_ok_db [OF ok]
  note tx = tx_keeps [OF ok]
  show ?thesis
  proof (cases op)
    case (OpUpsertBlob d b)
    have "db_ok (put_blob True d sz cr ac (ct_db c)) \<and>
        rows_view (put_blob True d sz cr ac (ct_db c)) = rows_view (ct_db c)" for sz cr ac
      using put_blob_ok [OF D] rows_view_cong [of "put_blob True d sz cr ac (ct_db c)"] by simp
    then show ?thesis using f ok OpUpsertBlob
      by (cases "digest_valid d") (auto simp: upsert_blob_def no_answer_def intro!: tx)
  next
    case (OpTouchBlobs ds at)
    let ?f = "\<lambda>dg d. d\<lparr>db_blobs := update_key dg (\<lambda>b. b\<lparr>br_access := col_time at\<rparr>) (db_blobs d)\<rparr>"
    have "db_ok (fold ?f ds (ct_db c)) \<and> rows_view (fold ?f ds (ct_db c)) = rows_view (ct_db c)"
      using D by (rule fold_keeps [of ?f, rotated]) (rule touch_blob_keeps)
    then show ?thesis using f ok OpTouchBlobs
      by (cases "ds = []") (auto simp: touch_blobs_def no_answer_def intro!: tx)
  next
    case (OpDeleteBlob d)
    show ?thesis
    proof (rule tx)
      show "no_answer (in_tx flt (\<lambda>db. if \<exists>e \<in> snd ` set (db_entries db). en_digest e = d then Inl (CatSql ''FOREIGN KEY'')
          else Inr (db\<lparr>db_blobs := delete_where (\<lambda>k r. k = d) (db_blobs db)\<rparr>, ())) c) = (c', r)"
        using f OpDeleteBlob by (simp add: delete_blob_record_def)
    next
      fix d' a
      assume "(if \<exists>e \<in> snd ` set (db_entries (ct_db c)). en_digest e = d then Inl (CatSql ''FOREIGN KEY'')
          else Inr ((ct_db c)\<lparr>db_blobs := delete_where (\<lambda>k r. k = d) (db_blobs (ct_db c))\<rparr>, ())) = Inr (d', a)"
      then have nx: "\<not> (\<exists>e \<in> snd ` set (db_entries (ct_db c)). en_digest e = d)"
        and d': "d' = (ct_db c)\<lparr>db_blobs := delete_where (\<lambda>k r. k = d) (db_blobs (ct_db c))\<rparr>"
        by (auto split: if_splits)
      show "db_ok d' \<and> rows_view d' = rows_view (ct_db c)"
        using delete_blob_keeps [OF nx D] rows_view_cong [of d' "ct_db c"] by (simp add: d')
    qed
  next
    case (OpPutSnapshot s)
    show ?thesis
      by (rule tx [of flt "\<lambda>d. map_sum id (\<lambda>d'. (d', ())) (insert_snapshot now s d)"])
         (use f OpPutSnapshot insert_snapshot_keeps [OF _ D] in
           \<open>auto simp: put_snapshot_def map_sum_def split: sum.splits\<close>)
  next
    case (OpCommitSnapshot s)
    show ?thesis
      by (rule tx [of flt "\<lambda>d. map_sum id (\<lambda>d'. (set_head_row (sn_project s) (sn_id s) d', ())) (insert_snapshot now s d)"])
         (use f OpCommitSnapshot insert_snapshot_keeps [OF _ D] set_head_keeps in
           \<open>auto simp: commit_snapshot_def map_sum_def split: sum.splits\<close>)
  next
    case (OpRecord a t)
    have "db_ok (fold fold_traffic t (fold fold_access a (ct_db c))) \<and>
        rows_view (fold fold_traffic t (fold fold_access a (ct_db c))) = rows_view (ct_db c)"
      using fold_keeps [of fold_traffic, OF fold_traffic_keeps]
        fold_keeps [of fold_access, OF fold_access_keeps D] by simp
    then show ?thesis using f ok OpRecord
      by (cases "a = [] \<and> t = []") (auto simp: record_access_def no_answer_def intro!: tx)
  qed (use f n D in \<open>auto simp: put_ref_def delete_ref_def put_artifact_def delete_artifacts_def
      delete_artifact_version_def set_head_def intro!: artifacts_only dest!: tx
      simp: refs_only upsert_artifact_ok set_head_keeps db_ok_artifacts\<close>)
qed


section \<open>The specification: a map from keys to contents\<close>

text \<open>What a successful operation does to the map; the other operations leave it alone.\<close>

fun spec_op :: "cat_op \<Rightarrow> (entry_key \<Rightarrow> (digest \<times> int64 \<times> string) option) \<Rightarrow> entry_key \<Rightarrow> (digest \<times> int64 \<times> string) option" where
  "spec_op (OpPut e) m = m(en_key e \<mapsto> en_content e)"
| "spec_op (OpCommit e a q b) m = m(en_key e \<mapsto> en_content e)"
| "spec_op (OpDelete k) m = m(k := None)"
| "spec_op (OpEvict k) m = m(k := None)"
| "spec_op (OpDeleteProject p) m = (\<lambda>k. if k_project k = p then None else m k)"
| "spec_op (OpApply p h i chk src err ix) m = (\<lambda>k. if k_project k = p then manifest_view p src k else m k)"
| "spec_op _ m = m"

text \<open>
  A put takes effect unless it was refused outright: it also reports an earlier flush's
  failure. Every other operation takes effect when it returns no error.
\<close>

definition takes_effect :: "cat_op \<Rightarrow> catalog \<Rightarrow> cat_error + entry option \<Rightarrow> bool" where
  "takes_effect op c r = (case op of OpPut e \<Rightarrow> digest_valid (en_digest e) \<and> \<not> ct_closed c | _ \<Rightarrow> is_ok r)"

definition op_spec :: "db_fault \<Rightarrow> cat_op \<Rightarrow> catalog \<Rightarrow> catalog \<Rightarrow> cat_error + entry option \<Rightarrow> bool" where
  "op_spec flt op c c' r \<longleftrightarrow>
     (\<forall>k. op \<noteq> OpDelete k \<or> is_ok r \<longrightarrow>
        cat_view c' k = (if takes_effect op c r then spec_op op (cat_view c) k else cat_view c k)) \<and>
     (\<forall>k. op = OpGet k \<and> flt \<noteq> TxFault \<longrightarrow>
        r = Inl CatNotFound \<and> cat_view c k = None \<or> (\<exists>e. r = Inr (Some e) \<and> cat_view c k = Some (en_content e)))"

lemma op_specI:
  "cat_view c' = (if takes_effect op c r then spec_op op (cat_view c) else cat_view c) \<Longrightarrow>
   (\<forall>k. op \<noteq> OpGet k) \<Longrightarrow> op_spec flt op c c' r"
  by (simp add: op_spec_def)

lemma exec_spec:
  assumes ok: "cat_ok c" and f: "cat_exec flt now op c = (c', r)"
  shows "cat_ok c' \<and> ((\<forall>b n. op \<noteq> OpRestart b n) \<longrightarrow> op_spec flt op c c' r)"
proof (cases op)
  case (OpGet k)
  then obtain r0 where g: "get_entry flt k c = (c', r0)" and r: "r = map_sum id Some r0"
    using f by (cases "get_entry flt k c") auto
  show ?thesis using get_entry_spec [OF ok g] r OpGet
    by (cases r0) (auto simp: op_spec_def)
next
  case (OpPut e)
  then obtain w r0 where p: "put_entry now e c = (c', w, r0)" and r: "is_ok r = is_ok r0"
    using f by (auto split: prod.splits dest!: no_answer_eq)
  then show ?thesis using put_entry_spec [OF ok p] OpPut
    by (auto intro!: op_specI simp: takes_effect_def)
next
  case (OpCommit e a q b)
  then obtain r0 where "commit_entry flt now e a q b c = (c', r0)" "is_ok r = is_ok r0"
    using f by (auto dest!: no_answer_eq)
  then show ?thesis using commit_entry_spec [OF ok] OpCommit
    by (auto intro!: op_specI simp: takes_effect_def)
next
  case (OpDelete k)
  then obtain r0 where d: "delete_entry flt k c = (c', r0)" and r: "is_ok r = is_ok r0"
    using f by (auto dest!: no_answer_eq)
  show ?thesis using delete_entry_spec [OF ok d] r OpDelete
    by (auto simp: op_spec_def takes_effect_def)
next
  case (OpEvict k)
  then obtain r0 where "evict_entry flt k c = (c', r0)" "is_ok r = is_ok r0"
    using f by (auto dest!: no_answer_eq)
  then show ?thesis using evict_entry_spec [OF ok] OpEvict
    by (auto intro!: op_specI simp: takes_effect_def)
next
  case (OpDeleteProject p)
  then obtain r0 where "delete_project flt p c = (c', r0)" "is_ok r = is_ok r0"
    using f by (auto dest!: no_answer_eq)
  then show ?thesis using delete_project_spec [OF ok] OpDeleteProject
    by (auto intro!: op_specI simp: takes_effect_def)
next
  case (OpApply p h i chk src err ix)
  then obtain r0 where "apply_snapshot flt now p h i chk src err ix c = (c', r0)" "is_ok r = is_ok r0"
    using f by (auto dest!: no_answer_eq)
  then show ?thesis using apply_snapshot_spec [OF ok] OpApply
    by (auto intro!: op_specI simp: takes_effect_def)
next
  case (OpTouch t)
  then obtain r0 where "touch_entries flt t c = (c', r0)" using f by (auto dest!: no_answer_eq)
  then show ?thesis using touch_entries_spec [OF ok] OpTouch by (auto intro!: op_specI)
next
  case OpFlush
  then obtain r0 where "flush flt c = (c', r0)" using f by (auto dest!: no_answer_eq)
  then show ?thesis using flush_keeps [OF ok] OpFlush by (auto intro!: op_specI)
next
  case OpTick
  then show ?thesis using tick_keeps [OF ok] f by (auto intro!: op_specI)
next
  case OpClose
  then obtain r0 where "catalog_close flt c = (c', r0)" using f by (auto dest!: no_answer_eq)
  then show ?thesis using close_keeps [OF ok] OpClose by (auto intro!: op_specI)
next
  case (OpRestart b n)
  then show ?thesis using open_ok [OF cat_ok_db [OF ok]] f by auto
qed (use neutral_keeps [OF ok _ f] in \<open>auto intro!: op_specI\<close>)

lemma reaches_ok: "cat_reaches c \<Longrightarrow> cat_ok c"
proof (induction rule: cat_reaches.induct)
  case (first b n)
  then show ?case by (rule open_ok [OF empty_db_ok])
next
  case (step c flt now op c' r)
  then show ?case using exec_spec by blast
qed

text \<open>
  C9. The catalog refines a map from entry keys to contents. In every reachable state, restarts
  and refused transactions included, a lookup answers with exactly what the map holds, a
  queued entry and a cached one included; a put, commit, delete, eviction, project deletion
  or snapshot application that takes effect changes the map as specified; and every other
  operation, and every failed one except a delete (whose key may lose its queued entry),
  leaves the map as it was.
\<close>

theorem catalog_refines:
  assumes "cat_reaches c" and "cat_exec flt now op c = (c', r)" and "\<forall>b n. op \<noteq> OpRestart b n"
  shows "op_spec flt op c c' r"
  using exec_spec [OF reaches_ok [OF assms(1)] assms(2)] assms(3) by blast

section \<open>Quotas\<close>

definition project_total :: "string \<Rightarrow> db \<Rightarrow> int" where
  "project_total p d = sum_list (map en_size (select (\<lambda>k _. k_project k = p) (db_entries d)))"

definition artifact_total :: "string \<Rightarrow> db \<Rightarrow> int" where
  "artifact_total p = count_artifacts (\<lambda>k. fst k = p)"

lemma sum_update:
  "distinct (map fst t) \<Longrightarrow> map_of t k = Some old \<Longrightarrow>
   sum_list (map g (select (\<lambda>j _. P j) (AList.update k new t))) =
     sum_list (map g (select (\<lambda>j _. P j) t)) + (if P k then g new - g old else (0::int))"
proof (induction t)
  case Nil
  then show ?case by simp
next
  case (Cons x t)
  obtain j r where x: "x = (j, r)" by (cases x)
  show ?case
  proof (cases "j = k")
    case True
    then show ?thesis using Cons.prems x by (auto simp: select_def)
  next
    case False
    then show ?thesis using Cons x by (auto simp: select_def)
  qed
qed

lemma sum_upsert:
  assumes "distinct (map fst t)"
  shows "sum_list (map g (select (\<lambda>j _. P j) (upsert k r f t))) =
     sum_list (map g (select (\<lambda>j _. P j) t)) +
       (if P k then (case map_of t k of None \<Rightarrow> g r | Some old \<Rightarrow> g (f old) - g old) else (0::int))"
proof (cases "map_of t k")
  case None
  then show ?thesis by (simp add: upsert_def select_def)
next
  case (Some old)
  then show ?thesis using sum_update [OF assms Some, of g P "f old"] by (simp add: upsert_def)
qed

lemma put_row_total:
  assumes "put_row e d = Inr d'" and "distinct (map fst (db_entries d))"
  shows "project_total (k_project (en_key e)) d' = project_total (k_project (en_key e)) d -
    (case map_of (db_entries d) (en_key e) of None \<Rightarrow> 0 | Some r \<Rightarrow> en_size r) + en_size e"
proof -
  have d': "db_entries d' = upsert (en_key e) (entry_row e) (merge_entry e) (db_entries d)"
    using assms(1) by (auto simp: put_row_Inr)
  show ?thesis unfolding project_total_def d' sum_upsert [OF assms(2)]
    by (simp split: option.splits)
qed

lemma check_bytes_bound:
  assumes "check_bytes e q d = Inr ()" and "qu_bytes q > 0"
    and t: "tot = project_total (k_project (en_key e)) d -
      (case map_of (db_entries d) (en_key e) of None \<Rightarrow> 0 | Some r \<Rightarrow> en_size r) + en_size e"
    and "is_int64 tot"
  shows "tot \<le> qu_bytes q"
proof -
  let ?old = "case map_of (db_entries d) (en_key e) of None \<Rightarrow> 0 | Some r \<Rightarrow> en_size r"
  have s: "project_size (k_project (en_key e)) d = Inr (project_total (k_project (en_key e)) d)"
    using assms(1) by (auto simp: check_bytes_def project_size_def sql_sum_def project_total_def split: if_splits)
  have "\<not> wrap64 (wrap64 (project_total (k_project (en_key e)) d - ?old) + en_size e) > qu_bytes q"
    using assms(1,2) by (auto simp: check_bytes_def s Let_def split: if_splits)
  then show ?thesis using assms(4) by (simp add: wrap64_add t)
qed

lemma count_upsert:
  "distinct (map fst (db_artifacts d)) \<Longrightarrow>
   count_artifacts P (upsert_artifact a d) =
     count_artifacts P d + (if P (artifact_key a) \<and> map_of (db_artifacts d) (artifact_key a) = None then 1 else 0)"
proof -
  have keys: "map fst (AList.update k v t) = (if map_of t k = None then map fst t @ [k] else map fst t)"
    for k v and t :: "(artifact_key \<times> artifact) list"
    by (induction t) auto
  have len: "length (filter (\<lambda>r. P (fst r)) t) = length (filter P (map fst t))" for t :: "(artifact_key \<times> artifact) list"
    by (induction t) auto
  show ?thesis
    by (cases "map_of (db_artifacts d) (artifact_key a)")
       (simp_all add: count_artifacts_def upsert_artifact_def upsert_def len keys)
qed

lemma count_partition:
  "count_artifacts P (d\<lparr>db_artifacts := delete_where (\<lambda>k _. Q k) (db_artifacts d)\<rparr>) =
   count_artifacts P d - count_artifacts (\<lambda>k. P k \<and> Q k) d"
proof -
  have "int (length (filter (\<lambda>r. P (fst r)) (filter (\<lambda>kr. \<not> Q (fst kr)) t))) =
      int (length (filter (\<lambda>r. P (fst r)) t)) - int (length (filter (\<lambda>r. P (fst r) \<and> Q (fst r)) t))"
    for t :: "(artifact_key \<times> artifact) list"
    by (induction t) auto
  then show ?thesis by (simp add: count_artifacts_def delete_where_def)
qed

lemma count_key_zero:
  "distinct (map fst (db_artifacts d)) \<Longrightarrow>
   count_artifacts (\<lambda>k. k = key) d = (if map_of (db_artifacts d) key = None then 0 else 1)"
proof -
  have "distinct (map fst t) \<Longrightarrow>
      int (length (filter (\<lambda>r. fst r = key) t)) = (if map_of t key = None then 0 else 1)"
    for t :: "(artifact_key \<times> artifact) list"
  proof (induction t)
    case (Cons x t)
    have "map_of t (fst x) = None" using Cons.prems by (simp add: map_of_eq_None_iff)
    then show ?case using Cons by (cases x) auto
  qed simp
  then show "distinct (map fst (db_artifacts d)) \<Longrightarrow> ?thesis" by (simp add: count_artifacts_def)
qed

lemma check_artifacts_bound:
  assumes "check_artifacts e (Some a) q b d = Inr ()" and "qu_artifacts q > 0"
    and dist: "distinct (map fst (db_artifacts d))"
    and t: "d' = publish_artifact b (describe now e a) d"
  shows "artifact_total (k_project (en_key e)) d' \<le> qu_artifacts q"
proof -
  let ?p = "k_project (en_key e)" and ?eco = "k_eco (en_key e)" and ?a = "describe now e a"
  have key: "artifact_key ?a = (?p, ?eco, ar_name a, ar_version a, ar_arch a)"
    and ap: "ar_project ?a = ?p" "ar_eco ?a = ?eco" "ar_name ?a = ar_name a"
    by (simp_all add: artifact_key_def describe_def)
  show ?thesis
  proof (cases b)
    case False
    have "artifact_total ?p d' = count_artifacts (\<lambda>k. fst k = ?p) d +
        (if count_artifacts (\<lambda>k. k = artifact_key ?a) d = 0 then 1 else 0)"
      unfolding t publish_artifact_def artifact_total_def using False
      by (simp add: count_upsert [OF dist] count_key_zero [OF dist] key)
    then show ?thesis using assms(1,2) False
      by (simp add: check_artifacts_def Let_def key split: if_splits)
  next
    case True
    let ?d = "d\<lparr>db_artifacts := delete_where (\<lambda>k _. in_name ?p ?eco (ar_name a) k) (db_artifacts d)\<rparr>"
    have dd: "distinct (map fst (db_artifacts ?d))" using dist by simp
    have gone: "map_of (db_artifacts ?d) (artifact_key ?a) = None"
      by (simp add: key in_name_def)
    have sub: "count_artifacts (\<lambda>k. fst k = ?p \<and> in_name ?p ?eco (ar_name a) k) d =
        count_artifacts (in_name ?p ?eco (ar_name a)) d"
      unfolding count_artifacts_def by (rule arg_cong [where f = "\<lambda>f. int (length (filter f (db_artifacts d)))"])
        (auto simp: in_name_def fun_eq_iff)
    have "artifact_total ?p d' = count_artifacts (\<lambda>k. fst k = ?p) ?d + 1"
      unfolding t publish_artifact_def artifact_total_def ap using True gone
      by (simp add: count_upsert [OF dd, unfolded ap] key)
    also have "\<dots> = count_artifacts (\<lambda>k. fst k = ?p) d - count_artifacts (in_name ?p ?eco (ar_name a)) d + 1"
      by (simp add: count_partition sub)
    finally show ?thesis using assms(1,2) True
      by (simp add: check_artifacts_def Let_def split: if_splits)
  qed
qed

lemma after_flush_Inr:
  assumes "after_flush flt f c = (c', r)"
  shows "(\<exists>c1 e. flush flt c = (c1, Inl e) \<and> c' = c1 \<and> r = Inl e) \<or>
    (\<exists>c1 u. flush flt c = (c1, Inr u) \<and> f c1 = (c', r))"
  using assms by (auto simp: after_flush_def split: prod.splits sum.splits)

lemma flush_error: "flush flt c = (c1, Inl e) \<Longrightarrow> cat_ok c \<Longrightarrow> \<exists>m. e = CatSql m"
proof -
  assume f: "flush flt c = (c1, Inl e)" and ok: "cat_ok c"
  obtain c0 where l: "flush_locked flt c = (c0, Inl e)" using f by (auto simp: flush_def split: prod.splits)
  obtain d' where "write_entries (ct_pending c) (ct_db c) = Inr d'"
    using write_entries_ok [OF cat_ok_batch [OF ok] cat_ok_db [OF ok]] by blast
  then show ?thesis using l
    by (auto simp: flush_locked_def flush_detach_def in_tx_def split: if_splits)
qed

lemma commit_entry_cases:
  assumes ok: "cat_ok c" and f: "commit_entry flt now e art q b c = (c', r)"
  obtains (invalid) "r = Inl CatInvalidDigest"
    | (sql) m where "r = Inl (CatSql m)"
    | (tx) c1 x where "flush flt c = (c1, Inr ())" "cat_ok c1"
        "commit_tx now (with_times now e) art q b (ct_db c1) = x"
        "r = map_sum id (\<lambda>_. ()) x" "ct_db c' = (case x of Inl _ \<Rightarrow> ct_db c1 | Inr d \<Rightarrow> d)"
        "digest_valid (en_digest e)"
proof (cases "digest_valid (en_digest e)")
  case False
  then show thesis using invalid f by (simp add: commit_entry_def)
next
  case v: True
  let ?tx = "\<lambda>d. map_sum id (\<lambda>d'. (d', ())) (commit_tx now (with_times now e) art q b d)"
  let ?g = "\<lambda>c. case in_tx flt ?tx c of
          (c', Inl err) \<Rightarrow> (c', Inl err)
        | (c', Inr _) \<Rightarrow> (c'\<lparr>ct_cache := cache_put (en_key (with_times now e)) (with_times now e) (ct_cache c')\<rparr>, Inr ())"
  have g: "after_flush flt ?g c = (c', r)"
    using f v by (simp only: commit_entry_def Let_def not_True_eq_False if_False)
  from after_flush_Inr [OF g] show thesis
  proof (elim disjE exE conjE)
    fix c1 err
    assume "flush flt c = (c1, Inl err)" "r = Inl err"
    then show thesis using flush_error [OF _ ok] sql by blast
  next
    fix c1 and u :: unit
    assume fl: "flush flt c = (c1, Inr u)" and gc: "?g c1 = (c', r)"
    have ok1: "cat_ok c1" using flush_keeps [OF ok fl] by simp
    show thesis
    proof (cases "flt = TxFault")
      case True
      then show thesis using gc sql by (auto simp: in_tx_def)
    next
      case False
      let ?x = "commit_tx now (with_times now e) art q b (ct_db c1)"
      have "r = map_sum id (\<lambda>_. ()) ?x \<and> ct_db c' = (case ?x of Inl _ \<Rightarrow> ct_db c1 | Inr d \<Rightarrow> d)"
        using gc False by (cases ?x) (auto simp: in_tx_def)
      then show thesis using tx [of c1 ?x] fl ok1 v by simp
    qed
  qed
qed


definition ex_digest :: "char \<Rightarrow> digest" where
  "ex_digest c = replicate 64 c"

lemma ex_digest_valid [simp]: "lower_hex c \<Longrightarrow> digest_valid (ex_digest c)"
  by (simp add: ex_digest_def digest_valid_def digest_len_def list_all_iff)

definition ex_entry :: "string \<Rightarrow> char \<Rightarrow> int \<Rightarrow> entry" where
  "ex_entry k c n = \<lparr>en_key = EntryKey ''prod'' ''pypi'' k, en_digest = ex_digest c, en_size = n,
     en_media = ''text/html'', en_cached = 0, en_access = 0, en_hits = 0\<rparr>"

definition ex_artifact :: artifact where
  "ex_artifact = \<lparr>ar_project = [], ar_eco = [], ar_name = ''six'', ar_version = ''1'', ar_arch = [],
     ar_digest = [], ar_size = 0, ar_origin = [], ar_cached = 0, ar_extra = []\<rparr>"

definition ex_catalog :: catalog where
  "ex_catalog = catalog_open 0 0 empty_db"

lemma ex_reaches: "cat_reaches ex_catalog"
  unfolding ex_catalog_def by (rule cat_reaches.first)

lemma ex_catalog_simps [simp]:
  "ct_db ex_catalog = empty_db" "ct_pending ex_catalog = []" "ct_closed ex_catalog = False"
  "flush NoFault ex_catalog = (ex_catalog, Inr ())"
  by (simp_all add: ex_catalog_def catalog_open_def flush_def flush_locked_def record_flush_def)

lemma ex_commit_ok:
  "commit_entry NoFault 5 (ex_entry ''six'' CHR ''a'' 7) (Some ex_artifact) \<lparr>qu_bytes = 10, qu_artifacts = 1\<rparr> False ex_catalog
     = (c', r) \<Longrightarrow> r = Inr ()"
  by (auto simp: commit_entry_def after_flush_def in_tx_def commit_tx_def check_bytes_def check_artifacts_def
      project_size_def sql_sum_def select_def empty_db_def is_int64_def wrap64_def put_row_def put_blob_def
      upsert_def count_artifacts_def Let_def ex_entry_def lower_hex_def ord_def)


theorem catalog_refines_witness:
  "\<exists>c'. cat_exec NoFault 5 (OpPut (ex_entry ''six'' CHR ''a'' 7)) ex_catalog = (c', Inr None) \<and>
     cat_view c' (EntryKey ''prod'' ''pypi'' ''six'') = Some (ex_digest CHR ''a'', 7, ''text/html'')"
proof -
  obtain c' r where f: "cat_exec NoFault 5 (OpPut (ex_entry ''six'' CHR ''a'' 7)) ex_catalog = (c', r)"
    by fastforce
  have v: "lower_hex CHR ''a''" by (simp add: lower_hex_def ord_def)
  have "r = Inr None" using f v
    by (auto simp: put_entry_def no_answer_def ex_entry_def Let_def ex_catalog_def catalog_open_def)
  moreover have "op_spec NoFault (OpPut (ex_entry ''six'' CHR ''a'' 7)) ex_catalog c' r"
    by (rule catalog_refines [OF ex_reaches f]) simp
  ultimately show ?thesis using f v
    by (auto simp: op_spec_def takes_effect_def ex_entry_def en_content_def)
qed

section \<open>Garbage collection\<close>

text \<open>
  C12. UnreferencedBlobs is exactly the collectable set: every digest it returns is recorded,
  older than the cutoff and held by no entry (a queued one included), artifact or snapshot
  manifest, every such digest is returned, and deleting its record is not refused by the
  foreign key and keeps the database's invariant.
\<close>

theorem unreferenced_exact:
  assumes "cat_reaches c" and f: "unreferenced_blobs flt older c = (c', Inr ds)"
  shows "cat_view c' = cat_view c \<and>
    (\<forall>dg. dg \<in> set ds \<longleftrightarrow>
       (\<exists>b. map_of (db_blobs (ct_db c')) dg = Some b \<and> ts (br_created b) < ts older) \<and>
       \<not> (\<exists>k sz mt. cat_view c' k = Some (dg, sz, mt)) \<and>
       \<not> (\<exists>a \<in> snd ` set (db_artifacts (ct_db c')). ar_digest a = dg) \<and>
       \<not> (\<exists>s \<in> snd ` set (db_snapshots (ct_db c')). sn_manifest s = dg)) \<and>
    (\<forall>dg \<in> set ds. \<exists>c''. delete_blob_record NoFault dg c' = (c'', Inr ()) \<and> db_ok (ct_db c''))"
proof -
  have ok: "cat_ok c" by (rule reaches_ok [OF assms(1)])
  from ok f[unfolded unreferenced_blobs_def] show ?thesis
  proof (cases rule: after_flush_cases)
    case (flushed c1)
    let ?d = "ct_db c'"
    have c': "c' = c1" and ds: "ds = map fst (filter (\<lambda>r. ts (br_created (snd r)) < ts older \<and> \<not> referenced (fst r) ?d) (db_blobs ?d))"
      using flushed(4) by (auto split: if_splits)
    have D: "db_ok ?d" using cat_ok_db [OF flushed(1)] c' by simp
    have v: "cat_view c' = rows_view ?d" "cat_view c' = cat_view c" using flushed(3,5) c' by simp_all
    have ent: "(\<exists>k sz mt. cat_view c' k = Some (dg, sz, mt)) \<longleftrightarrow> (\<exists>e \<in> snd ` set (db_entries ?d). en_digest e = dg)" for dg
    proof
      assume "\<exists>k sz mt. cat_view c' k = Some (dg, sz, mt)"
      then show "\<exists>e \<in> snd ` set (db_entries ?d). en_digest e = dg"
        unfolding v(1) rows_view_def en_content_def by (auto dest!: map_of_SomeD) force
    next
      assume "\<exists>e \<in> snd ` set (db_entries ?d). en_digest e = dg"
      then obtain k e where "(k, e) \<in> set (db_entries ?d)" "en_digest e = dg" by auto
      then have "rows_view ?d k = Some (dg, en_size e, en_media e)"
        using db_ok_rows [OF D] by (simp add: rows_view_def en_content_def)
      then show "\<exists>k sz mt. cat_view c' k = Some (dg, sz, mt)" unfolding v(1) by blast
    qed
    have mem: "dg \<in> set ds \<longleftrightarrow>
       (\<exists>b. map_of (db_blobs ?d) dg = Some b \<and> ts (br_created b) < ts older) \<and> \<not> referenced dg ?d" for dg
      unfolding ds using db_ok_blobs [OF D] by (force simp: image_iff)
    have del: "\<exists>c''. delete_blob_record NoFault dg c' = (c'', Inr ()) \<and> db_ok (ct_db c'')" if "dg \<in> set ds" for dg
    proof -
      have nx: "\<not> (\<exists>e \<in> snd ` set (db_entries ?d). en_digest e = dg)"
        using that by (simp add: mem referenced_def)
      have "delete_blob_record NoFault dg c' =
          (c'\<lparr>ct_db := ?d\<lparr>db_blobs := delete_where (\<lambda>k r. k = dg) (db_blobs ?d)\<rparr>\<rparr>, Inr ())"
        unfolding delete_blob_record_def in_tx_def using nx by simp
      then show ?thesis using delete_blob_keeps [OF nx D] by simp
    qed
    show ?thesis using v(2) mem ent del by (simp add: referenced_def)
  qed auto
qed

text \<open>
  C13. Eviction. It returns what the entry held, drops the entry with the refs that point at its
  key and the inventory rows of its content, and says the content is still referenced exactly
  when an entry, an artifact or a snapshot manifest of any project still holds it.
\<close>

theorem evict_exact:
  assumes "cat_reaches c" and f: "evict_entry flt k c = (c', Inr (dg, sz, still))"
  shows "(\<exists>mt. cat_view c k = Some (dg, sz, mt)) \<and> cat_view c' = (cat_view c)(k := None) \<and>
    still = referenced dg (ct_db c') \<and>
    (\<forall>j r. map_of (db_refs (ct_db c')) j = Some r \<longrightarrow>
       \<not> (rk_project j = k_project k \<and> rk_eco j = k_eco k \<and> rf_target r = k_key k)) \<and>
    (\<forall>j a. map_of (db_artifacts (ct_db c')) j = Some a \<longrightarrow>
       \<not> (fst j = k_project k \<and> fst (snd j) = k_eco k \<and> ar_digest a = dg))"
proof -
  have ok: "cat_ok c" by (rule reaches_ok [OF assms(1)])
  have v: "cat_view c' = (cat_view c)(k := None)" using evict_entry_spec [OF ok f] by simp
  from ok f[unfolded evict_entry_def] show ?thesis
  proof (cases rule: after_flush_cases)
    case (flushed c1)
    obtain d where d: "evict_tx k (ct_db c1) = Inr (d, dg, sz, still)" and c': "ct_db c' = d"
      using flushed(4) by (auto simp: in_tx_def split: if_splits sum.splits prod.splits)
    note E = evict_tx_Inr [OF d cat_ok_db [OF flushed(1)]]
    obtain e where e: "map_of (db_entries (ct_db c1)) k = Some e" "dg = en_digest e" "sz = en_size e"
      using E by auto
    have "cat_view c k = Some (dg, sz, en_media e)"
      using e flushed(5) by (simp add: rows_view_def en_content_def flip: flushed(5))
    moreover have "db_refs d = delete_where (\<lambda>j r. rk_project j = k_project k \<and> rk_eco j = k_eco k \<and>
          rf_target r = k_key k) (db_refs (ct_db c1))"
      and "db_artifacts d = delete_where (\<lambda>j a. fst j = k_project k \<and> fst (snd j) = k_eco k \<and>
          ar_digest a = dg) (db_artifacts (ct_db c1))"
      using d e by (auto simp: evict_tx_def Let_def)
    ultimately show ?thesis using v E c'
      by (auto simp: delete_where_def dest!: map_of_SomeD)
  qed auto
qed

section \<open>Applying a snapshot: the whole result\<close>

lemma apply_snapshot_full:
  assumes ok: "cat_ok c" and f: "apply_snapshot flt now p h i chk src err ix c = (c', r)"
  shows "(is_ok r \<longrightarrow>
      (\<forall>k. cat_view c' k = (if k_project k = p then manifest_view p src k else cat_view c k)) \<and>
      get_head p c' = i \<and> (chk \<longrightarrow> get_head p c = h) \<and> err = None \<and>
      distinct (map (restored_key p) src) \<and> (\<forall>j. rk_project j = p \<longrightarrow> map_of (db_refs (ct_db c')) j = None)) \<and>
    (\<not> is_ok r \<longrightarrow> cat_view c' = cat_view c \<and> (\<forall>q. get_head q c' = get_head q c))"
proof -
  note V = apply_snapshot_spec [OF ok f]
  show ?thesis
  proof (cases "p = [] \<or> i = []")
    case True
    then show ?thesis using f by (auto simp: apply_snapshot_def)
  next
    case False
    let ?tx = "\<lambda>d. map_sum id (\<lambda>d'. (d', ())) (snapshot_tx now p h i chk src err ix d)"
    let ?g = "\<lambda>c. case in_tx flt ?tx c of
            (c', Inl err) \<Rightarrow> (c', Inl err)
          | (c', Inr _) \<Rightarrow> (c'\<lparr>ct_cache := drop_project p (ct_cache c')\<rparr>, Inr ())"
    have g: "after_flush flt ?g c = (c', r)" using f False by (simp add: apply_snapshot_def)
    obtain c1 u where fl: "flush_locked flt c = (c1, u)" by fastforce
    have h1: "db_heads (ct_db c1) = db_heads (ct_db c)" using flush_locked_keeps(8) [OF ok fl] .
    from g have "ct_db c' = ct_db c1 \<and> \<not> is_ok r \<or>
        (\<exists>d. snapshot_tx now p h i chk src err ix (ct_db c1) = Inr d \<and> ct_db c' = d \<and> is_ok r)"
      by (auto simp: after_flush_def flush_def fl record_flush_def in_tx_def
          split: sum.splits if_splits) (auto simp: map_sum_def split: sum.splits)
    then show ?thesis
    proof (elim disjE exE conjE)
      assume "ct_db c' = ct_db c1" "\<not> is_ok r"
      then show ?thesis using V h1 by (simp add: get_head_def)
    next
      fix d assume d: "snapshot_tx now p h i chk src err ix (ct_db c1) = Inr d" "ct_db c' = d" "is_ok r"
      have D1: "db_ok (ct_db c1)" using flush_locked_keeps(1) [OF ok fl] cat_ok_db by blast
      note S = snapshot_tx_Inr [OF d(1) D1]
      have "get_head p c' = i" "chk \<longrightarrow> get_head p c = h" using S d(2) h1 by (auto simp: get_head_def)
      moreover have "rk_project j = p \<longrightarrow> map_of (db_refs (ct_db c')) j = None" for j
        using S d(2) by simp
      ultimately show ?thesis using V S d(3) by simp
    qed
  qed
qed


section \<open>Prefix listings and searches match literally\<close>

lemma glob_star_end: "glob ''*'' s"
  by (induction s) (simp_all add: glob.simps)

lemma class_singleton: "c \<noteq> CHR ''^'' \<Longrightarrow> glob_class (c # CHR '']'' # p) = Some (False, [c], p)"
  by (simp add: glob_class_def)

lemma glob_escape_prefix: "glob (glob_escape p @ ''*'') s \<longleftrightarrow> has_prefix s p"
proof (induction p arbitrary: s)
  case Nil
  then show ?case by (simp add: glob_escape_def glob_star_end)
next
  case (Cons c p)
  show ?case
  proof (cases "glob_special c")
    case True
    have e: "glob_escape (c # p) @ ''*'' = CHR ''['' # c # CHR '']'' # (glob_escape p @ ''*'')"
      using True by (simp add: glob_escape_def)
    have cl: "glob_class (c # CHR '']'' # (glob_escape p @ ''*'')) = Some (False, [c], glob_escape p @ ''*'')"
      by (rule class_singleton) (use True in \<open>auto simp: glob_special_def\<close>)
    show ?thesis unfolding e using cl Cons.IH by (cases s) (simp_all add: glob.simps)
  next
    case False
    have e: "glob_escape (c # p) @ ''*'' = c # (glob_escape p @ ''*'')"
      using False by (simp add: glob_escape_def)
    show ?thesis unfolding e using False Cons.IH by (cases s) (auto simp: glob.simps glob_special_def)
  qed
qed

text \<open>\<open>contains\<close>: the pattern occurs in the text, letters in either case.\<close>

fun contains_fold :: "string \<Rightarrow> string \<Rightarrow> bool" where
  "contains_fold s q = (has_prefix (to_lower s) (to_lower q) \<or> (case s of [] \<Rightarrow> False | _ # t \<Rightarrow> contains_fold t q))"

declare contains_fold.simps [simp del]

lemma like_percent_end: "like ''%'' s"
  by (induction s) (simp_all add: like.simps)

lemma lower_Cons [simp]: "to_lower (c # s) = lower_char c # to_lower s"
  by (simp add: to_lower_def)

lemma lower_Nil [simp]: "to_lower [] = []"
  by (simp add: to_lower_def)

lemma like_escape_prefix: "like (like_escape q @ ''%'') s \<longleftrightarrow> has_prefix (to_lower s) (to_lower q)"
proof (induction q arbitrary: s)
  case Nil
  then show ?case by (simp add: like_escape_def like_percent_end)
next
  case (Cons c q)
  show ?case
  proof (cases "c = CHR 0x5C \<or> c = CHR ''%'' \<or> c = CHR ''_''")
    case True
    have e: "like_escape (c # q) @ ''%'' = CHR 0x5C # c # (like_escape q @ ''%'')"
      using True by (simp add: like_escape_def)
    show ?thesis unfolding e using Cons.IH by (cases s) (auto simp: like.simps)
  next
    case False
    have e: "like_escape (c # q) @ ''%'' = c # (like_escape q @ ''%'')"
      using False by (simp add: like_escape_def)
    show ?thesis unfolding e using False Cons.IH by (cases s) (auto simp: like.simps)
  qed
qed

lemma like_contains: "like (''%'' @ like_escape q @ ''%'') s \<longleftrightarrow> contains_fold s q"
proof (induction s)
  case Nil
  then show ?case using like_escape_prefix [of q "[]"]
    by (subst contains_fold.simps) (simp add: like.simps)
next
  case (Cons c s)
  then show ?case using like_escape_prefix [of q "c # s"]
    by (subst contains_fold.simps) (simp add: like.simps)
qed


lemma sorted_first: "sorted (map f (sort_key (\<lambda>a. (f a, g a)) xs))"
proof -
  have "sorted (map (\<lambda>a. (f a, g a)) (sort_key (\<lambda>a. (f a, g a)) xs))" by simp
  then show ?thesis by (auto simp: sorted_map elim: sorted_wrt_mono_rel [rotated])
qed



definition ex_named :: "string \<Rightarrow> int \<Rightarrow> artifact" where
  "ex_named n sz = ex_artifact\<lparr>ar_project := ''prod'', ar_eco := ''pypi'', ar_name := n, ar_size := sz\<rparr>"


lemma ex_put:
  assumes "lower_hex x"
  shows "\<exists>c'. cat_exec NoFault 5 (OpPut (ex_entry k x n)) ex_catalog = (c', Inr None) \<and>
    cat_view c' = [EntryKey ''prod'' ''pypi'' k \<mapsto> (ex_digest x, n, ''text/html'')]"
proof -
  obtain c' w r where p: "put_entry 5 (ex_entry k x n) ex_catalog = (c', w, r)" by (metis prod_cases3)
  have v: "digest_valid (en_digest (ex_entry k x n))" using assms by (simp add: ex_entry_def)
  have "r = Inr ()" using p v by (auto simp: put_entry_def Let_def ex_catalog_def catalog_open_def)
  moreover have "cat_view c' = (cat_view ex_catalog)(en_key (ex_entry k x n) \<mapsto> en_content (ex_entry k x n))"
    using put_entry_spec [OF reaches_ok [OF ex_reaches] p] v by simp
  moreover have "cat_view ex_catalog = Map.empty"
    by (simp add: cat_view_def rows_view_def empty_db_def map_add_def fun_eq_iff)
  ultimately show ?thesis using p by (simp add: no_answer_def ex_entry_def en_content_def)
qed

lemma lower_hex_ab [simp]: "lower_hex CHR ''a''" "lower_hex CHR ''b''"
  by (simp_all add: lower_hex_def ord_def)

lemma ok_result:
  assumes "cat_ok c" and "after_flush NoFault (\<lambda>c. (c, Inr (g c))) c = (c', r)"
  shows "\<exists>x. r = Inr x"
  using assms by (cases rule: after_flush_cases) auto



text \<open>A database with one old blob nobody references, reached by recording it.\<close>

lemma ex_flush: "flush NoFault (ex_catalog\<lparr>ct_db := d\<rparr>) = (ex_catalog\<lparr>ct_db := d\<rparr>, Inr ())"
  by (simp add: ex_catalog_def catalog_open_def flush_def flush_locked_def record_flush_def)

lemma ex_blob_step:
  "cat_exec NoFault (9 * second) (OpUpsertBlob (ex_digest CHR ''b'') \<lparr>br_size = 3, br_created = 0, br_access = 0\<rparr>) ex_catalog
   = (ex_catalog\<lparr>ct_db := empty_db\<lparr>db_blobs := [(ex_digest CHR ''b'',
        \<lparr>br_size = 3, br_created = 9 * second, br_access = 9 * second\<rparr>)]\<rparr>\<rparr>, Inr None)"
  by (simp add: upsert_blob_def no_answer_def in_tx_def put_blob_def empty_db_def upsert_def or_now_def
      col_time_def ts_def from_ts_def)

theorem unreferenced_exact_witness:
  "\<exists>c c' ds. cat_reaches c \<and> unreferenced_blobs NoFault (20 * second) c = (c', Inr ds) \<and> ex_digest CHR ''b'' \<in> set ds"
proof -
  let ?c = "ex_catalog\<lparr>ct_db := empty_db\<lparr>db_blobs := [(ex_digest CHR ''b'',
        \<lparr>br_size = 3, br_created = 9 * second, br_access = 9 * second\<rparr>)]\<rparr>\<rparr>"
  have r: "cat_reaches ?c" by (rule cat_reaches.step [OF ex_reaches ex_blob_step])
  obtain c' x where f: "unreferenced_blobs NoFault (20 * second) ?c = (c', x)" by fastforce
  have c': "c' = ?c" "\<exists>ds. x = Inr ds" using f by (auto simp: unreferenced_blobs_def after_flush_def ex_flush)
  then obtain ds where x: "x = Inr ds" by blast
  have "ex_digest CHR ''b'' \<in> set ds"
    using unreferenced_exact [OF r f [unfolded x]] unfolding c'(1)
    by (simp add: empty_db_def ts_def cat_view_def rows_view_def ex_catalog_def catalog_open_def map_add_def)
  then show ?thesis using r f x by blast
qed

lemma ex_in_tx: "in_tx NoFault f c = (case f (ct_db c) of Inl e \<Rightarrow> (c, Inl e) | Inr (d, a) \<Rightarrow> (c\<lparr>ct_db := d\<rparr>, Inr a))"
  by (simp add: in_tx_def)

theorem evict_exact_witness:
  "\<exists>c c' dg sz still. cat_reaches c \<and> evict_entry NoFault (EntryKey ''prod'' ''pypi'' ''six'') c = (c', Inr (dg, sz, still)) \<and>
     dg = ex_digest CHR ''a'' \<and> sz = 7"
proof -
  let ?k = "EntryKey ''prod'' ''pypi'' ''six''"
  obtain c where c: "cat_exec NoFault 5 (OpPut (ex_entry ''six'' CHR ''a'' 7)) ex_catalog = (c, Inr None)"
    and v: "cat_view c = [?k \<mapsto> (ex_digest CHR ''a'', 7, ''text/html'')]"
    using ex_put [OF lower_hex_ab(1)] by blast
  have r: "cat_reaches c" by (rule cat_reaches.step [OF ex_reaches c])
  obtain c' x where f: "evict_entry NoFault ?k c = (c', x)" by fastforce
  have "\<exists>y. x = Inr y"
    using reaches_ok [OF r] f[unfolded evict_entry_def]
  proof (cases rule: after_flush_cases)
    case (flushed c1)
    have "rows_view (ct_db c1) ?k \<noteq> None" using flushed(5) v by simp
    then obtain e where "map_of (db_entries (ct_db c1)) ?k = Some e" by (auto simp: rows_view_def)
    then show ?thesis using flushed(4) by (auto simp: ex_in_tx evict_tx_def Let_def)
  qed simp
  then obtain dg sz still where x: "x = Inr (dg, sz, still)" by (metis prod_cases3)
  from evict_exact [OF r f [unfolded x]] have "dg = ex_digest CHR ''a''" "sz = 7" by (simp_all add: v)
  then show ?thesis using r f x by blast
qed


section \<open>A lookup that overlaps a delete\<close>

text \<open>
  C16. A lookup is not atomic. When an entry is deleted between a lookup's read of the row and its
  filling of the cache, the deleted entry stays in the cache: the table no longer holds the
  key and the next lookup still answers with it. So the refinement of the map holds for
  operations that do not overlap, and not for a lookup that overlaps a delete.
\<close>

theorem get_delete_race:
  assumes "cat_reaches c" and fast: "get_fast k c = (c1, None)" and row: "get_row NoFault k c1 = Inr e"
    and del: "delete_entry NoFault k c1 = (c2, Inr ())"
  shows "cat_view (get_fill e c2) k = None \<and> snd (get_entry NoFault k (get_fill e c2)) = Inr e"
proof -
  have ok: "cat_ok c" by (rule reaches_ok [OF assms(1)])
  note F = get_fast_cases [OF ok fast]
  have ok1: "cat_ok c1" using F by simp
  have key: "en_key e = k" using row by (auto simp: get_row_def split: option.splits)
  have D: "cat_ok c2" "cat_view c2 k = None" using delete_entry_spec [OF ok1 del] by simp_all
  have p2: "map_of (ct_pending c2) k = None"
    using del F by (auto simp: delete_entry_def ex_in_tx)
  have "cache_look (cache_put k e (ct_cache c2)) k = Some e"
    using cat_ok_cache [OF D(1)] by (intro lru.put_same) (simp add: lru.agrees_def)
  then have "snd (cache_get k (cache_put k e (ct_cache c2))) = Some e" by (simp add: lru.get_result)
  then show ?thesis using D p2 key
    by (auto simp: get_fill_def get_entry_def get_fast_def split: prod.splits option.splits)
qed

lemma ex_row_state:
  "\<exists>c. cat_reaches c \<and> get_fast (EntryKey ''prod'' ''pypi'' ''six'') c = (c, None) \<and>
     (\<exists>e. get_row NoFault (EntryKey ''prod'' ''pypi'' ''six'') c = Inr e)"
proof -
  let ?k = "EntryKey ''prod'' ''pypi'' ''six''"
  obtain a where a: "cat_exec NoFault 5 (OpPut (ex_entry ''six'' CHR ''a'' 7)) ex_catalog = (a, Inr None)"
    and v: "cat_view a = [?k \<mapsto> (ex_digest CHR ''a'', 7, ''text/html'')]"
    using ex_put [OF lower_hex_ab(1)] by blast
  have ra: "cat_reaches a" by (rule cat_reaches.step [OF ex_reaches a])
  obtain b u where b: "flush_locked NoFault a = (b, u)" by fastforce
  note K = flush_locked_keeps [OF reaches_ok [OF ra] b]
  have p: "ct_pending b = []" using K(5,6) by simp
  have rb: "cat_reaches (flush_tick NoFault a)"
    by (rule cat_reaches.step [OF ra, of NoFault 0 OpTick]) simp
  have db: "ct_db (flush_tick NoFault a) = ct_db b" by (simp add: flush_tick_def b record_flush_def)
  let ?c = "catalog_open 0 0 (ct_db (flush_tick NoFault a))"
  have rc: "cat_reaches ?c" by (rule cat_reaches.step [OF rb, of NoFault 0 "OpRestart 0 0"]) simp
  have "rows_view (ct_db b) ?k \<noteq> None" using K(2) v cat_view_no_pending [OF p] by simp
  then have "\<exists>e. get_row NoFault ?k ?c = Inr e"
    by (auto simp: get_row_def catalog_open_def db rows_view_def)
  moreover have "get_fast ?k ?c = (?c, None)"
    by (simp add: get_fast_def catalog_open_def cache_get_def new_entry_cache_def)
  ultimately show ?thesis using rc by blast
qed

theorem get_delete_race_witness:
  "\<exists>c e. cat_view c (EntryKey ''prod'' ''pypi'' ''six'') = None \<and>
     snd (get_entry NoFault (EntryKey ''prod'' ''pypi'' ''six'') c) = Inr e"
proof -
  obtain c e where c: "cat_reaches c" "get_fast (EntryKey ''prod'' ''pypi'' ''six'') c = (c, None)"
    "get_row NoFault (EntryKey ''prod'' ''pypi'' ''six'') c = Inr e" using ex_row_state by blast
  obtain d where d: "delete_entry NoFault (EntryKey ''prod'' ''pypi'' ''six'') c = (d, Inr ())"
    by (simp add: delete_entry_def ex_in_tx)
  from get_delete_race [OF c d] show ?thesis by blast
qed

end
