(* ===== verification/Fetch.thy ===== *)
theory Fetch
  imports Blob Upstream Catalog
begin

text \<open>
  One in-flight download and its readers (go/internal/engine/inflight.go): the Fetch state
  shared by the transfer and any number of followers, the followers themselves, and the
  Registry that keeps one Fetch per key. Every method that runs under the fetch's mutex is
  one definition; the step relation interleaves them freely. What holds of
  them is in FetchSpec.
\<close>

section \<open>Errors\<close>

datatype engine_error =
    FeDigestMismatch
  | FeSizeMismatch
  | FeUpstreamStatus string int
  | FeCancelled
  | FeCommitted
  | FeContext
  | FeUpstream up_error
  | FeBlob blob_error
  | FeCatalog cat_error
  | FeOpenStaging
  | FeReadBody string
  | FeReadStaging
  | FeNotPartial int
  | FeNotCached

section \<open>Fetch\<close>

text \<open>
  A channel that is closed once is a flag (\<open>fe_ready\<close>); the notify channel, closed and
  replaced at every change, is the number of changes so far (\<open>fe_gen\<close>).
\<close>

record fetch =
  fe_key :: string
  fe_eco :: string
  fe_cache_key :: string
  fe_total :: int64
  fe_media :: string
  fe_ready :: bool
  fe_written :: int64
  fe_done :: bool
  fe_err :: "engine_error option"
  fe_digest :: digest
  fe_size :: int64
  fe_gen :: nat
  fe_staging :: path
  fe_read :: "nat option"
  fe_refs :: int
  fe_closed :: bool
  fe_bound :: bool
  fe_cancel_req :: bool
  fe_cancelled :: bool

definition new_fetch :: "string \<Rightarrow> string \<Rightarrow> fetch" where
  "new_fetch key eco =
     \<lparr>fe_key = key, fe_eco = eco, fe_cache_key = [], fe_total = -1, fe_media = [], fe_ready = False,
      fe_written = 0, fe_done = False, fe_err = None, fe_digest = [], fe_size = 0, fe_gen = 0,
      fe_staging = [], fe_read = None, fe_refs = 1, fe_closed = False, fe_bound = False,
      fe_cancel_req = False, fe_cancelled = False\<rparr>"

definition fetch_state :: "fetch \<Rightarrow> int64 \<times> bool \<times> nat \<times> engine_error option" where
  "fetch_state f = (fe_written f, fe_done f, fe_gen f, fe_err f)"

definition fetch_digest :: "fetch \<Rightarrow> digest \<times> int64 \<times> engine_error option" where
  "fetch_digest f = (fe_digest f, fe_size f, fe_err f)"

text \<open>Wait, at one look at the state: \<open>None\<close> is to wait for the next change.\<close>

definition fetch_wait :: "bool \<Rightarrow> fetch \<Rightarrow> (engine_error option) option" where
  "fetch_wait ctx_done f =
     (if fe_done f then Some (fe_err f) else if ctx_done then Some (Some FeContext) else None)"

definition broadcast :: "fetch \<Rightarrow> fetch" where
  "broadcast f = f\<lparr>fe_gen := Suc (fe_gen f)\<rparr>"

definition fetch_advance :: "int64 \<Rightarrow> fetch \<Rightarrow> fetch" where
  "fetch_advance n f = broadcast (f\<lparr>fe_written := fe_written f + n\<rparr>)"

text \<open>The result says whether the descriptor was closed by this call.\<close>

definition release :: "fetch \<Rightarrow> fetch \<times> bool" where
  "release f =
     (let f1 = f\<lparr>fe_refs := fe_refs f - 1\<rparr>;
          closes = (fe_refs f1 \<le> 0 \<and> \<not> fe_closed f1 \<and> fe_read f1 \<noteq> None)
      in (if closes then f1\<lparr>fe_closed := True\<rparr> else f1, closes))"

definition acquire :: "fetch \<Rightarrow> fetch option" where
  "acquire f = (if fe_closed f \<or> fe_read f = None then None else Some (f\<lparr>fe_refs := fe_refs f + 1\<rparr>))"

text \<open>finish: the recorded outcome, then the waiters for headers and the registry, then the release.\<close>

definition finish_record :: "digest \<Rightarrow> int64 \<Rightarrow> engine_error option \<Rightarrow> fetch \<Rightarrow> fetch option" where
  "finish_record d sz err f =
     (if fe_done f then None
      else Some (broadcast (f\<lparr>fe_done := True, fe_digest := d, fe_size := sz, fe_err := err\<rparr>)))"

definition finish_release :: "fetch \<Rightarrow> fetch \<times> bool" where
  "finish_release f = release (f\<lparr>fe_ready := True\<rparr>)"

definition fetch_finish :: "digest \<Rightarrow> int64 \<Rightarrow> engine_error option \<Rightarrow> fetch \<Rightarrow> fetch \<times> bool" where
  "fetch_finish d sz err f =
     (case finish_record d sz err f of None \<Rightarrow> (f, False) | Some f1 \<Rightarrow> finish_release f1)"

definition publish_headers :: "int64 \<Rightarrow> string \<Rightarrow> path \<Rightarrow> nat \<Rightarrow> fetch \<Rightarrow> fetch" where
  "publish_headers len media staging ino f =
     f\<lparr>fe_total := len, fe_media := media, fe_staging := staging, fe_read := Some ino, fe_ready := True\<rparr>"

definition event_key :: "fetch \<Rightarrow> string" where
  "event_key f = (if fe_cache_key f \<noteq> [] then fe_cache_key f else fe_key f)"

definition fetch_cancel :: "fetch \<Rightarrow> fetch \<times> bool" where
  "fetch_cancel f =
     (if fe_done f then (f, False)
      else (f\<lparr>fe_cancel_req := True, fe_cancelled := (fe_cancelled f \<or> fe_bound f)\<rparr>, True))"

definition bind_cancel :: "fetch \<Rightarrow> fetch" where
  "bind_cancel f = f\<lparr>fe_bound := True, fe_cancelled := (fe_cancelled f \<or> fe_cancel_req f)\<rparr>"

section \<open>Followers\<close>

record follower =
  fo_start :: nat
  fo_pos :: nat
  fo_closed :: bool
  fo_got :: string

text \<open>ReaderFrom once the headers are ready: refused with the fetch's error or as committed.\<close>

definition reader_from :: "nat \<Rightarrow> fetch \<Rightarrow> fetch \<times> (engine_error + follower)" where
  "reader_from offset f =
     (if fe_done f then (f, Inl (case fe_err f of Some e \<Rightarrow> e | None \<Rightarrow> FeCommitted))
      else case fe_err f of
        Some e \<Rightarrow> if fe_written f = 0 then (f, Inl e) else
          (case acquire f of None \<Rightarrow> (f, Inl FeCommitted)
           | Some f' \<Rightarrow> (f', Inr \<lparr>fo_start = offset, fo_pos = offset, fo_closed = False, fo_got = []\<rparr>))
      | None \<Rightarrow>
          (case acquire f of None \<Rightarrow> (f, Inl FeCommitted)
           | Some f' \<Rightarrow> (f', Inr \<lparr>fo_start = offset, fo_pos = offset, fo_closed = False, fo_got = []\<rparr>)))"

datatype read_result = RdBytes string | RdEOF | RdFailed engine_error | RdWait nat

text \<open>
  One turn of follower.Read: \<open>data\<close> is what the staging file holds, \<open>short\<close> a failing
  ReadAt. Bytes past the published mark are never asked for.
\<close>

definition follower_read :: "string \<Rightarrow> bool \<Rightarrow> bool \<Rightarrow> nat \<Rightarrow> fetch \<Rightarrow> follower \<Rightarrow> follower \<times> read_result" where
  "follower_read data short ctx_done plen f r =
     (let avail = nat (fe_written f) - fo_pos r;
          got = (if int (fo_pos r) < fe_written f \<and> \<not> short
                 then take (min plen avail) (drop (fo_pos r) data) else [])
      in if got \<noteq> [] then (r\<lparr>fo_pos := fo_pos r + length got, fo_got := fo_got r @ got\<rparr>, RdBytes got)
         else if int (fo_pos r) < fe_written f \<and> short then (r, RdFailed FeReadStaging)
         else if fe_done f then (r, case fe_err f of Some e \<Rightarrow> RdFailed e | None \<Rightarrow> RdEOF)
         else if ctx_done then (r, RdFailed FeContext)
         else (r, RdWait (fe_gen f)))"

definition follower_close :: "follower \<Rightarrow> fetch \<Rightarrow> follower \<times> fetch \<times> bool" where
  "follower_close r f =
     (if fo_closed r then (r, f, False)
      else case release f of (f', closes) \<Rightarrow> (r\<lparr>fo_closed := True\<rparr>, f', closes))"

section \<open>A fetch and its readers, interleaved\<close>

datatype owner = Starting | Streaming | Finishing | Finished

record fetch_sys =
  fy_fetch :: fetch
  fy_file :: string
  fy_owner :: owner
  fy_followers :: "follower list"
  fy_closes :: nat

definition fetch_init :: "string \<Rightarrow> string \<Rightarrow> fetch_sys" where
  "fetch_init key eco =
     \<lparr>fy_fetch = new_fetch key eco, fy_file = [], fy_owner = Starting, fy_followers = [], fy_closes = 0\<rparr>"

text \<open>
  The owner publishes the headers, writes, advances and finishes; a transfer that succeeds
  has advanced over everything it wrote. Readers attach, read and detach at any time.
\<close>

inductive fetch_step :: "fetch_sys \<Rightarrow> fetch_sys \<Rightarrow> bool" where
  headers: "fy_owner s = Starting \<Longrightarrow>
    fetch_step s (s\<lparr>fy_fetch := publish_headers len media staging ino (fy_fetch s), fy_owner := Streaming\<rparr>)"
| written: "fy_owner s = Streaming \<Longrightarrow> fetch_step s (s\<lparr>fy_file := fy_file s @ chunk\<rparr>)"
| advanced: "fy_owner s = Streaming \<Longrightarrow> 0 < n \<Longrightarrow> fe_written (fy_fetch s) + n \<le> int (length (fy_file s)) \<Longrightarrow>
    fetch_step s (s\<lparr>fy_fetch := fetch_advance n (fy_fetch s)\<rparr>)"
| finished: "fy_owner s = Starting \<or> fy_owner s = Streaming \<Longrightarrow> finish_record d sz err (fy_fetch s) = Some f \<Longrightarrow>
    (fy_owner s = Streaming \<and> err = None \<longrightarrow> fe_written (fy_fetch s) = int (length (fy_file s)) \<and> sz = int (length (fy_file s))) \<Longrightarrow>
    fetch_step s (s\<lparr>fy_fetch := f, fy_owner := Finishing\<rparr>)"
| released: "fy_owner s = Finishing \<Longrightarrow> finish_release (fy_fetch s) = (f, c) \<Longrightarrow>
    fetch_step s (s\<lparr>fy_fetch := f, fy_owner := Finished, fy_closes := fy_closes s + (if c then 1 else 0)\<rparr>)"
| attached: "fe_ready (fy_fetch s) \<Longrightarrow> acquire (fy_fetch s) = Some f \<Longrightarrow>
    fetch_step s (s\<lparr>fy_fetch := f, fy_followers := fy_followers s @ [\<lparr>fo_start = o0, fo_pos = o0, fo_closed = False, fo_got = []\<rparr>]\<rparr>)"
| read: "i < length (fy_followers s) \<Longrightarrow> \<not> fo_closed (fy_followers s ! i) \<Longrightarrow>
    follower_read (fy_file s) short ctx plen (fy_fetch s) (fy_followers s ! i) = (r, x) \<Longrightarrow>
    fetch_step s (s\<lparr>fy_followers := (fy_followers s)[i := r]\<rparr>)"
| closed: "i < length (fy_followers s) \<Longrightarrow> follower_close (fy_followers s ! i) (fy_fetch s) = (r, f, c) \<Longrightarrow>
    fetch_step s (s\<lparr>fy_fetch := f, fy_followers := (fy_followers s)[i := r], fy_closes := fy_closes s + (if c then 1 else 0)\<rparr>)"
| cancelled: "fetch_step s (s\<lparr>fy_fetch := fst (fetch_cancel (fy_fetch s))\<rparr>)"
| bound: "fetch_step s (s\<lparr>fy_fetch := bind_cancel (fy_fetch s)\<rparr>)"

inductive fetch_reaches :: "fetch_sys \<Rightarrow> fetch_sys \<Rightarrow> bool" where
  here: "fetch_reaches s s"
| step: "fetch_reaches s t \<Longrightarrow> fetch_step t u \<Longrightarrow> fetch_reaches s u"

section \<open>Registry\<close>

text \<open>
  Fetches are numbered as they are created; the map holds the number registered under each
  key. \<open>rg_live\<close> are the fetches whose onFinish has not run.
\<close>

record registry =
  rg_map :: "(string \<times> nat) list"
  rg_live :: "(nat \<times> string) list"
  rg_next :: nat

definition new_registry :: registry where
  "new_registry = \<lparr>rg_map = [], rg_live = [], rg_next = 0\<rparr>"

definition registry_start :: "string \<Rightarrow> registry \<Rightarrow> registry \<times> nat \<times> bool" where
  "registry_start key r =
     (case map_of (rg_map r) key of
        Some i \<Rightarrow> (r, i, False)
      | None \<Rightarrow> (r\<lparr>rg_map := (key, rg_next r) # rg_map r, rg_live := (rg_next r, key) # rg_live r,
                   rg_next := Suc (rg_next r)\<rparr>, rg_next r, True))"

text \<open>onFinish of fetch \<open>i\<close>, started under \<open>key\<close>: it removes only itself.\<close>

definition registry_finish :: "nat \<Rightarrow> registry \<Rightarrow> registry" where
  "registry_finish i r =
     (case map_of (rg_live r) i of
        None \<Rightarrow> r
      | Some key \<Rightarrow>
          let r1 = r\<lparr>rg_live := AList.delete i (rg_live r)\<rparr>
          in if map_of (rg_map r) key = Some i then r1\<lparr>rg_map := AList.delete key (rg_map r)\<rparr> else r1)"

definition registry_len :: "registry \<Rightarrow> nat" where
  "registry_len r = length (rg_map r)"

text \<open>Cancel finds the fetch of the key, if one is registered.\<close>

definition registry_cancel :: "string \<Rightarrow> registry \<Rightarrow> nat option" where
  "registry_cancel key r = map_of (rg_map r) key"

text \<open>Wait: the fetches to wait for in this round; none means the drain is over.\<close>

definition registry_round :: "registry \<Rightarrow> nat list" where
  "registry_round r = map snd (rg_map r)"

inductive registry_reaches :: "registry \<Rightarrow> bool" where
  new: "registry_reaches new_registry"
| start: "registry_reaches r \<Longrightarrow> registry_reaches (fst (registry_start key r))"
| finish: "registry_reaches r \<Longrightarrow> registry_reaches (registry_finish i r)"

end
