(* ===== verification/Quota.thy ===== *)
theory Quota
  imports Catalog Fetch
begin

text \<open>
  A project's quota as the engine sees it (go/internal/engine/engine.go) and the part of the
  configuration it reads (go/internal/config/types.go). The usage figure is cached for two
  seconds per project, so the state is that cache beside the catalog it is computed from.
  The theorems say exactly which transfers the pre-flight check lets through, including
  where the sum of usage and size leaves the 64-bit range, and how stale the figure is.
\<close>

section \<open>Configuration\<close>

record project_cfg =
  pj_name :: string
  pj_offline :: bool
  pj_quota_bytes :: int64
  pj_quota_artifacts :: int64
  pj_rate_limit :: int
  pj_rate_burst :: int
  pj_data_plane_auth :: string
  pj_owner :: string

definition zero_project :: project_cfg where
  "zero_project = \<lparr>pj_name = [], pj_offline = False, pj_quota_bytes = 0, pj_quota_artifacts = 0,
     pj_rate_limit = 0, pj_rate_burst = 0, pj_data_plane_auth = [], pj_owner = []\<rparr>"

record config =
  cf_offline :: bool
  cf_projects :: "(string \<times> project_cfg) list"

definition global_project :: string where
  "global_project = ''global''"

definition offline_for :: "config \<Rightarrow> string \<Rightarrow> bool" where
  "offline_for s project =
     (if cf_offline s then True
      else case map_of (cf_projects s) project of None \<Rightarrow> False | Some p \<Rightarrow> pj_offline p)"

definition has_project :: "config \<Rightarrow> string \<Rightarrow> bool" where
  "has_project s name = (if name = global_project then True else map_of (cf_projects s) name \<noteq> None)"

section \<open>The engine's view of a quota\<close>

text \<open>\<open>None\<close> is an engine built without a configuration.\<close>

definition engine_quota :: "config option \<Rightarrow> string \<Rightarrow> quota" where
  "engine_quota cfg project =
     (case cfg of
        None \<Rightarrow> \<lparr>qu_bytes = 0, qu_artifacts = 0\<rparr>
      | Some s \<Rightarrow>
          let p = (case map_of (cf_projects s) project of None \<Rightarrow> zero_project | Some p \<Rightarrow> p)
          in \<lparr>qu_bytes = pj_quota_bytes p, qu_artifacts = pj_quota_artifacts p\<rparr>)"

definition engine_offline :: "config option \<Rightarrow> string \<Rightarrow> bool" where
  "engine_offline cfg project = (case cfg of None \<Rightarrow> False | Some s \<Rightarrow> offline_for s project)"

section \<open>The cached usage figure\<close>

record usage_sample =
  us_count :: int64
  us_bytes :: int64
  us_at :: gotime

type_synonym usage_cache = "(string \<times> usage_sample) list"

definition quota_usage_ttl :: gotime where
  "quota_usage_ttl = 2 * second"

type_synonym quota_state = "usage_cache \<times> catalog"

definition project_usage ::
  "db_fault \<Rightarrow> gotime \<Rightarrow> string \<Rightarrow> quota_state \<Rightarrow> quota_state \<times> (cat_error + int64 \<times> int64)" where
  "project_usage flt now project x =
     (case x of (u, c) \<Rightarrow>
        let fresh = (case count_entries flt project c of
                (c1, Inl e) \<Rightarrow> ((u, c1), Inl e)
              | (c1, Inr (n, used)) \<Rightarrow>
                  ((AList.update project \<lparr>us_count = n, us_bytes = used, us_at = now\<rparr> u, c1),
                   Inr (n, used)))
        in case map_of u project of
             Some s \<Rightarrow> if now - us_at s < quota_usage_ttl then ((u, c), Inr (us_count s, us_bytes s)) else fresh
           | None \<Rightarrow> fresh)"

definition invalidate_usage :: "string \<Rightarrow> usage_cache \<Rightarrow> usage_cache" where
  "invalidate_usage project u = AList.delete project u"

definition quota_verdict :: "quota \<Rightarrow> int64 \<Rightarrow> int64 \<Rightarrow> int64 \<Rightarrow> engine_error + unit" where
  "quota_verdict q incoming n used =
     (let attempt0 = wrap64 (used + incoming);
          attempt = (if attempt0 \<le> used then wrap64 (used + 1) else attempt0)
      in if qu_bytes q > 0 \<and> (used \<ge> qu_bytes q \<or> attempt > qu_bytes q)
         then Inl (FeCatalog (CatQuota ''bytes'' used (qu_bytes q) attempt))
         else if qu_artifacts q > 0 \<and> n \<ge> qu_artifacts q
         then Inl (FeCatalog (CatQuota ''artifacts'' n (qu_artifacts q) (wrap64 (n + 1))))
         else Inr ())"

definition check_quota ::
  "config option \<Rightarrow> db_fault \<Rightarrow> gotime \<Rightarrow> string \<Rightarrow> int64 \<Rightarrow> quota_state \<Rightarrow> quota_state \<times> (engine_error + unit)" where
  "check_quota cfg flt now project incoming x =
     (let q = engine_quota cfg project
      in if qu_bytes q \<le> 0 \<and> qu_artifacts q \<le> 0 then (x, Inr ())
         else case project_usage flt now project x of
                (x1, Inl _) \<Rightarrow> (x1, Inr ())
              | (x1, Inr (n, used)) \<Rightarrow> (x1, quota_verdict q incoming n used))"

text \<open>The bytes still allowed: 0 without a limit, 1 when nothing is left.\<close>

definition quota_room :: "config option \<Rightarrow> db_fault \<Rightarrow> gotime \<Rightarrow> string \<Rightarrow> quota_state \<Rightarrow> quota_state \<times> int64" where
  "quota_room cfg flt now project x =
     (let limit = qu_bytes (engine_quota cfg project)
      in if limit \<le> 0 then (x, 0)
         else case project_usage flt now project x of
                (x1, Inl _) \<Rightarrow> (x1, 0)
              | (x1, Inr (n, used)) \<Rightarrow>
                  let room = wrap64 (limit - used) in (x1, if room > 0 then room else 1))"

definition quota_exceeded ::
  "config option \<Rightarrow> db_fault \<Rightarrow> gotime \<Rightarrow> string \<Rightarrow> int64 \<Rightarrow> quota_state \<Rightarrow> quota_state \<times> engine_error" where
  "quota_exceeded cfg flt now project attempted x =
     (let limit = qu_bytes (engine_quota cfg project)
      in case project_usage flt now project x of
           (x1, Inl _) \<Rightarrow> (x1, FeCatalog (CatQuota ''bytes'' 0 limit (wrap64 (0 + attempted))))
         | (x1, Inr (n, used)) \<Rightarrow> (x1, FeCatalog (CatQuota ''bytes'' used limit (wrap64 (used + attempted)))))"

section \<open>What the check lets through\<close>

lemma project_usage_cases:
  assumes "project_usage flt now project (u, c) = ((u', c'), r)"
  obtains (cached) s where "map_of u project = Some s" "now - us_at s < quota_usage_ttl" "u' = u" "c' = c"
      "r = Inr (us_count s, us_bytes s)"
  | (failed) e where "count_entries flt project c = (c', Inl e)" "u' = u" "r = Inl e"
  | (counted) n b where "count_entries flt project c = (c', Inr (n, b))" "r = Inr (n, b)"
      "u' = AList.update project \<lparr>us_count = n, us_bytes = b, us_at = now\<rparr> u"
  using assms unfolding project_usage_def
  by (auto simp: Let_def split: prod.splits sum.splits option.splits if_splits)

definition usage_ok :: "usage_cache \<Rightarrow> bool" where
  "usage_ok u \<longleftrightarrow> (\<forall>s \<in> snd ` set u. is_int64 (us_bytes s))"

lemma usage_ok_look: "usage_ok u \<Longrightarrow> map_of u p = Some s \<Longrightarrow> is_int64 (us_bytes s)"
  unfolding usage_ok_def by (metis image_eqI map_of_SomeD snd_conv)

lemma count_entries_int64: "count_entries flt p c = (c', Inr (n, b)) \<Longrightarrow> is_int64 b"
  unfolding count_entries_def after_flush_def
  by (auto simp: project_size_def sql_sum_def split: prod.splits sum.splits if_splits)

lemma usage_ok_update: "usage_ok u \<Longrightarrow> is_int64 (us_bytes s) \<Longrightarrow> usage_ok (AList.update p s u)"
  unfolding usage_ok_def by (induction u) auto

lemma project_usage_ok:
  assumes "usage_ok u" and "project_usage flt now p (u, c) = ((u', c'), r)"
  shows "usage_ok u' \<and> (\<forall>n b. r = Inr (n, b) \<longrightarrow> is_int64 b)"
  using assms(2)
proof (cases rule: project_usage_cases)
  case (cached s)
  then show ?thesis using assms(1) usage_ok_look [OF assms(1)] by auto
next
  case (failed e)
  then show ?thesis using assms(1) by simp
next
  case (counted n b)
  then show ?thesis using count_entries_int64 [OF counted(1)] usage_ok_update [OF assms(1)] by auto
qed

lemma verdict_ok:
  assumes "is_int64 used" and "0 \<le> incoming" and "is_int64 incoming"
  shows "quota_verdict q incoming n used = Inr () \<longleftrightarrow>
    (qu_bytes q > 0 \<longrightarrow> used < qu_bytes q \<and>
       (0 < incoming \<and> used + incoming \<le> max_int64 \<longrightarrow> used + incoming \<le> qu_bytes q)) \<and>
    (qu_artifacts q > 0 \<longrightarrow> n < qu_artifacts q)"
proof -
  let ?a = "wrap64 (used + incoming)"
  have up: "?a = used + incoming" if "used + incoming \<le> max_int64"
    using that assms by (simp add: is_int64_def max_int64_def)
  have over: "?a = used + incoming - 18446744073709551616" if "\<not> used + incoming \<le> max_int64"
    using that assms unfolding wrap64_def is_int64_def max_int64_def
    by (smt (verit) mod_pos_pos_trivial minus_mod_self2)
  have one: "used < qu_bytes q \<Longrightarrow> wrap64 (used + 1) \<le> qu_bytes q"
    using assms(1) unfolding wrap64_def is_int64_def by (smt (verit) mod_pos_pos_trivial pos_mod_bound)
  show ?thesis
  proof (cases "used + incoming \<le> max_int64")
    case True
    then show ?thesis using up one assms(2) unfolding quota_verdict_def Let_def by auto
  next
    case False
    then have "?a \<le> used" using over assms(3) by (simp add: is_int64_def)
    then show ?thesis using False one unfolding quota_verdict_def Let_def by auto
  qed
qed

text \<open>
  C27. The quota pre-flight, exactly. A fill is let through when the project has no quota or its
  usage cannot be read; otherwise the figure it is judged by is the catalog's own count or
  one at most two seconds old, and it is let through exactly when the usage is below the byte
  limit, the declared size fits under it (a size of zero is an unknown one, and a size whose
  sum with the usage leaves the 64-bit range counts as unknown too), and the artifact count is
  below its limit.
\<close>

theorem quota_check_exact:
  assumes "usage_ok u" and "0 \<le> incoming" and "is_int64 incoming"
    and c: "check_quota cfg flt now project incoming (u, c) = ((u', c'), r)"
    and q: "q = engine_quota cfg project"
  shows "usage_ok u' \<and> (r = Inr () \<longleftrightarrow>
    qu_bytes q \<le> 0 \<and> qu_artifacts q \<le> 0 \<or>
    (\<exists>e. project_usage flt now project (u, c) = ((u', c'), Inl e)) \<or>
    (\<exists>n used. project_usage flt now project (u, c) = ((u', c'), Inr (n, used)) \<and>
       ((\<exists>s. map_of u project = Some s \<and> now < us_at s + 2 * second \<and> n = us_count s \<and> used = us_bytes s) \<or>
        count_entries flt project c = (c', Inr (n, used))) \<and>
       (qu_bytes q > 0 \<longrightarrow> used < qu_bytes q \<and>
          (0 < incoming \<and> used + incoming \<le> max_int64 \<longrightarrow> used + incoming \<le> qu_bytes q)) \<and>
       (qu_artifacts q > 0 \<longrightarrow> n < qu_artifacts q)))"
proof (cases "qu_bytes q \<le> 0 \<and> qu_artifacts q \<le> 0")
  case True
  then show ?thesis using c q assms(1) by (simp add: check_quota_def)
next
  case False
  obtain u1 c1 r1 where p: "project_usage flt now project (u, c) = ((u1, c1), r1)" by (metis prod.collapse)
  have ok: "usage_ok u1" "\<And>n b. r1 = Inr (n, b) \<Longrightarrow> is_int64 b"
    using project_usage_ok [OF assms(1) p] by auto
  from c False p have e: "u' = u1" "c' = c1"
      "r = (case r1 of Inl _ \<Rightarrow> Inr () | Inr (n, used) \<Rightarrow> quota_verdict q incoming n used)"
    unfolding check_quota_def Let_def q by (auto split: sum.splits prod.splits)
  show ?thesis
  proof (cases r1)
    case (Inl a)
    then show ?thesis using e p ok by auto
  next
    case (Inr nu)
    obtain n used where nu: "nu = (n, used)" by fastforce
    have src: "(\<exists>s. map_of u project = Some s \<and> now < us_at s + 2 * second \<and> n = us_count s \<and> used = us_bytes s) \<or>
        count_entries flt project c = (c1, Inr (n, used))"
      using p [unfolded Inr nu] by (cases rule: project_usage_cases) (auto simp: quota_usage_ttl_def)
    have "r = Inr () \<longleftrightarrow> (qu_bytes q > 0 \<longrightarrow> used < qu_bytes q \<and>
          (0 < incoming \<and> used + incoming \<le> max_int64 \<longrightarrow> used + incoming \<le> qu_bytes q)) \<and>
       (qu_artifacts q > 0 \<longrightarrow> n < qu_artifacts q)"
      unfolding e(3) Inr nu using verdict_ok [OF ok(2) assms(2,3)] Inr nu by simp
    then have "r = Inr () \<longleftrightarrow> (\<exists>n used. project_usage flt now project (u, c) = ((u', c'), Inr (n, used)) \<and>
       ((\<exists>s. map_of u project = Some s \<and> now < us_at s + 2 * second \<and> n = us_count s \<and> used = us_bytes s) \<or>
        count_entries flt project c = (c', Inr (n, used))) \<and>
       (qu_bytes q > 0 \<longrightarrow> used < qu_bytes q \<and>
          (0 < incoming \<and> used + incoming \<le> max_int64 \<longrightarrow> used + incoming \<le> qu_bytes q)) \<and>
       (qu_artifacts q > 0 \<longrightarrow> n < qu_artifacts q))"
      using src p e(1,2) unfolding Inr nu by simp
    moreover have n1: "(qu_bytes q \<le> 0 \<and> qu_artifacts q \<le> 0) = False"
      and n2: "(\<exists>x. project_usage flt now project (u, c) = ((u', c'), Inl x)) = False"
      using False p [unfolded Inr nu] by simp_all
    ultimately show ?thesis using ok(1) unfolding n1 n2 e(1) by blast
  qed
qed

definition ex_quota_cfg :: config where
  "ex_quota_cfg = \<lparr>cf_offline = False, cf_projects = [(''p'', zero_project\<lparr>pj_quota_bytes := 10\<rparr>)]\<rparr>"

theorem quota_check_exact_witness:
  "snd (check_quota (Some ex_quota_cfg) NoFault 5 ''p'' 7 ([(''p'', \<lparr>us_count = 1, us_bytes = 4, us_at = 0\<rparr>)], catalog_open 0 0 empty_db))
     \<noteq> Inr ()"
proof -
  let ?u = "[(''p'', \<lparr>us_count = 1, us_bytes = 4, us_at = 0\<rparr>)]" and ?c = "catalog_open 0 0 empty_db"
  obtain u' c' r where f: "check_quota (Some ex_quota_cfg) NoFault 5 ''p'' 7 (?u, ?c) = ((u', c'), r)"
    by (metis prod.collapse)
  have q: "engine_quota (Some ex_quota_cfg) ''p'' = \<lparr>qu_bytes = 10, qu_artifacts = 0\<rparr>"
    by (simp add: engine_quota_def ex_quota_cfg_def zero_project_def)
  have p: "project_usage NoFault 5 ''p'' (?u, ?c) = ((?u, ?c), Inr (1, 4))"
    by (simp add: project_usage_def quota_usage_ttl_def)
  have "r \<noteq> Inr ()"
    using quota_check_exact [OF _ _ _ f refl] unfolding p q
    by (simp add: usage_ok_def is_int64_def max_int64_def)
  then show ?thesis using f by simp
qed

end
