(* ===== verification/EngineCore.thy ===== *)
theory EngineCore
  imports Streaming
begin

text \<open>
  The engine's shared ground (go/internal/engine): the state its operations thread through
  - request pool, files, catalog - what surrounds them, and the small operations the larger
  ones are made of: storing a buffer, reading a cached one back, recording a mutable pointer
  (document.go), and deleting what an adapter generated.
\<close>

section \<open>State and surroundings\<close>

datatype cat_call = CallGet | CallPut | CallDelete | CallRef | CallCommit | CallCount | CallTouch | CallRecord

text \<open>
  \<open>ee_db\<close> says which transactions of which catalog call the driver refuses; \<open>ee_gunzip\<close> is
  compress/gzip: from a body and how it ended to the decompressed stream and how that ends,
  or nothing when the header is not gzip's.
\<close>

record engine_env =
  ee_net :: net
  ee_store :: store
  ee_cfg :: "config option"
  ee_faults :: faults
  ee_db :: "cat_call \<Rightarrow> db_fault"
  ee_now :: gotime
  ee_temp :: "fs \<Rightarrow> string"
  ee_accept :: "nat \<Rightarrow> nat"
  ee_gunzip :: "string \<times> body_end \<Rightarrow> (string \<times> body_end) option"

record engine_state =
  eg_pool :: pool
  eg_fs :: fs
  eg_cat :: catalog

section \<open>document.go: the buffer operations\<close>

definition store_bytes :: "engine_env \<Rightarrow> string \<Rightarrow> engine_state \<Rightarrow> engine_state \<times> (engine_error + digest)" where
  "store_bytes env body g =
     (case writer_create (ee_faults env) (ee_store env) (eg_fs g) (ee_temp env (eg_fs g)) (ee_now env) of
        (s1, Inl e) \<Rightarrow> (g\<lparr>eg_fs := s1\<rparr>, Inl (FeBlob e))
      | (s1, Inr w) \<Rightarrow>
          (case writer_write (ee_accept env 0) (ee_now env) s1 w body of
             (s2, w2, Inl e, _) \<Rightarrow> (g\<lparr>eg_fs := fst (writer_abort (ee_faults env) s2 w2)\<rparr>, Inl (FeBlob e))
           | (s2, w2, Inr _, _) \<Rightarrow>
               (case writer_commit (ee_faults env) (ee_now env) (ee_store env) s2 w2 of
                  (s3, w3, Inl e) \<Rightarrow> (g\<lparr>eg_fs := fst (writer_abort (ee_faults env) s3 w3)\<rparr>, Inl (FeBlob e))
                | (s3, w3, Inr (d, _)) \<Rightarrow> (g\<lparr>eg_fs := fst (writer_abort (ee_faults env) s3 w3)\<rparr>, Inr d))))"

definition new_entry :: "engine_env \<Rightarrow> entry_key \<Rightarrow> digest \<Rightarrow> int64 \<Rightarrow> string \<Rightarrow> entry" where
  "new_entry env k d n media =
     \<lparr>en_key = k, en_digest = d, en_size = n, en_media = media, en_cached = ee_now env,
      en_access = ee_now env, en_hits = 0\<rparr>"

definition put_bytes ::
  "engine_env \<Rightarrow> string \<Rightarrow> string \<Rightarrow> string \<Rightarrow> string \<Rightarrow> string \<Rightarrow> engine_state \<Rightarrow> engine_state \<times> (engine_error + digest)" where
  "put_bytes env project eco key body media g =
     (case store_bytes env body g of
        (g1, Inl e) \<Rightarrow> (g1, Inl e)
      | (g1, Inr d) \<Rightarrow>
          (case put_entry (ee_now env) (new_entry env (EntryKey project eco key) d (int (length body)) media) (eg_cat g1) of
             (c, _, Inl e) \<Rightarrow> (g1\<lparr>eg_cat := c\<rparr>, Inl (FeCatalog e))
           | (c, _, Inr _) \<Rightarrow> (g1\<lparr>eg_cat := c\<rparr>, Inr d)))"

definition lookup_ref :: "ref_key \<Rightarrow> engine_state \<Rightarrow> ref_row option" where
  "lookup_ref k g = (case get_ref k (eg_cat g) of Inl _ \<Rightarrow> None | Inr r \<Rightarrow> Some r)"

definition engine_ref :: "string \<Rightarrow> string \<Rightarrow> string \<Rightarrow> engine_state \<Rightarrow> ref_row option" where
  "engine_ref project eco name g = lookup_ref (RefKey project eco name) g"

definition set_ref :: "engine_env \<Rightarrow> ref_row \<Rightarrow> engine_state \<Rightarrow> engine_state \<times> (engine_error + unit)" where
  "set_ref env r g =
     (let r1 = (if rf_fetched r = 0 then r\<lparr>rf_fetched := ee_now env\<rparr> else r)
      in case put_ref (ee_db env CallRef) (ee_now env) r1 (eg_cat g) of
           (c, res) \<Rightarrow> (g\<lparr>eg_cat := c\<rparr>, map_sum FeCatalog id res))"

definition engine_list_refs :: "string \<Rightarrow> string \<Rightarrow> string \<Rightarrow> engine_state \<Rightarrow> ref_row list" where
  "engine_list_refs project eco prefix g = list_refs project eco prefix (eg_cat g)"

text \<open>putRef ignores the outcome; the validators come from the response.\<close>

definition put_doc_ref ::
  "engine_env \<Rightarrow> ref_key \<Rightarrow> string \<Rightarrow> string \<Rightarrow> string \<Rightarrow> response \<Rightarrow> gotime \<Rightarrow> engine_state \<Rightarrow> engine_state" where
  "put_doc_ref env k target media source resp ttl g =
     g\<lparr>eg_cat := fst (put_ref (ee_db env CallRef) (ee_now env)
         \<lparr>rf_key = k, rf_target = target, rf_media = media, rf_etag = hdr_get (rs_headers resp) ''ETag'',
          rf_modified = hdr_get (rs_headers resp) ''Last-Modified'', rf_fetched = ee_now env, rf_ttl = ttl,
          rf_source = source\<rparr> (eg_cat g))\<rparr>"

end
