(* ===== verification/Series.thy ===== *)
theory Series
  imports Catalog Upstream
begin

text \<open>
  The usage statistics: the time series of the catalog (catalog/series.go), the summary of
  its tallies (Stats in catalog/sqlite.go) and the collector in front of them
  (engine/stats.go). The series tables are touched by no other code; a method that reads
  through \<open>Flush\<close> works on the pair of the catalog and the series. Counters are
  unbounded here: SQLite keeps a sum past 64 bits as a floating-point number.
\<close>

section \<open>types.go: spans and rows\<close>

definition span_fine :: int64 where "span_fine = 300"
definition span_hour :: int64 where "span_hour = 3600"
definition span_day :: int64 where "span_day = 86400"

definition retain_fine :: gotime where "retain_fine = 48 * 3600 * second"
definition retain_hour :: gotime where "retain_hour = 30 * 24 * 3600 * second"
definition retain_day :: gotime where "retain_day = 2 * 365 * 24 * 3600 * second"

record series_delta =
  sd_bucket :: gotime
  sd_project :: string
  sd_eco :: string
  sd_outcome :: string
  sd_count :: int64
  sd_bytes :: int64

record upstream_delta =
  ud_bucket :: gotime
  ud_project :: string
  ud_upstream :: string
  ud_requests :: int64
  ud_errors :: int64
  ud_bytes :: int64
  ud_ms_sum :: int64
  ud_ms_max :: int64

record series_query =
  sq_project :: string
  sq_eco :: string
  sq_span :: int64
  sq_from :: gotime
  sq_to :: gotime
  sq_group :: string

record traffic_point =
  tp_bucket :: gotime
  tp_eco :: string
  tp_outcome :: string
  tp_count :: int64
  tp_bytes :: int64

record upstream_point =
  up_bucket :: gotime
  up_upstream :: string
  up_requests :: int64
  up_errors :: int64
  up_bytes :: int64
  up_mean :: int64
  up_max :: int64

record storage_sample =
  sa_bucket :: gotime
  sa_blob_count :: int64
  sa_blob_bytes :: int64
  sa_entry_count :: int64
  sa_entry_bytes :: int64
  sa_fs_free :: int64
  sa_fs_total :: int64

record age_bucket =
  ag_label :: string
  ag_days :: int64
  ag_entries :: int64
  ag_bytes :: int64

text \<open>The rows of the three tables, by primary key.\<close>

type_synonym traffic_key = "int64 \<times> int64 \<times> string \<times> string \<times> string"
type_synonym upstream_key = "int64 \<times> int64 \<times> string \<times> string"
type_synonym upstream_tally = "int64 \<times> int64 \<times> int64 \<times> int64 \<times> int64"

record series_db =
  sd_traffic :: "(traffic_key \<times> (int64 \<times> int64)) list"
  sd_upstream :: "(upstream_key \<times> upstream_tally) list"
  sd_storage :: "(int64 \<times> storage_sample) list"

definition empty_series :: series_db where
  "empty_series = \<lparr>sd_traffic = [], sd_upstream = [], sd_storage = []\<rparr>"

section \<open>series.go\<close>

text \<open>Go's division truncates; the shift makes it a floor.\<close>

definition bucket :: "gotime \<Rightarrow> int64 \<Rightarrow> gotime" where
  "bucket t span0 =
     (let span = (if span0 \<le> 0 then span_fine else span0);
          seconds = t div second;
          shifted = (if seconds < 0 then seconds - (span - 1) else seconds)
      in quot shifted span * span * second)"

definition series_tx :: "bool \<Rightarrow> (series_db \<Rightarrow> cat_error + series_db) \<Rightarrow> series_db \<Rightarrow> series_db \<times> (cat_error + unit)" where
  "series_tx refused f s =
     (if refused then (s, Inl (CatSql ''refused''))
      else case f s of Inl e \<Rightarrow> (s, Inl e) | Inr s' \<Rightarrow> (s', Inr ()))"

definition add_traffic :: "traffic_key \<Rightarrow> int64 \<times> int64 \<Rightarrow> series_db \<Rightarrow> series_db" where
  "add_traffic k v s =
     s\<lparr>sd_traffic := upsert k v (\<lambda>old. (fst old + fst v, snd old + snd v)) (sd_traffic s)\<rparr>"

definition record_traffic_row :: "series_delta \<Rightarrow> series_db \<Rightarrow> series_db" where
  "record_traffic_row t =
     add_traffic (span_fine, ts (bucket (sd_bucket t) span_fine), sd_project t, sd_eco t, sd_outcome t)
       (sd_count t, sd_bytes t)"

definition record_upstream_row :: "upstream_delta \<Rightarrow> series_db \<Rightarrow> series_db" where
  "record_upstream_row u s =
     s\<lparr>sd_upstream := upsert (span_hour, ts (bucket (ud_bucket u) span_hour), ud_project u, ud_upstream u)
         (ud_requests u, ud_errors u, ud_bytes u, ud_ms_sum u, ud_ms_max u)
         (\<lambda>(r, e, b, m, x). (r + ud_requests u, e + ud_errors u, b + ud_bytes u, m + ud_ms_sum u, max x (ud_ms_max u)))
         (sd_upstream s)\<rparr>"

definition record_series ::
  "bool \<Rightarrow> series_delta list \<Rightarrow> upstream_delta list \<Rightarrow> series_db \<Rightarrow> series_db \<times> (cat_error + unit)" where
  "record_series refused traffic upstream s =
     (if traffic = [] \<and> upstream = [] then (s, Inr ())
      else series_tx refused
             (\<lambda>s. Inr (fold record_upstream_row upstream (fold record_traffic_row traffic s))) s)"

text \<open>
  A grouped read: the distinct group keys with their rows. A column that is selected bare is
  the one of some row of its group; which one is the database's choice, \<open>pick\<close>.
\<close>

fun map_res :: "('a \<Rightarrow> 'e + 'b) \<Rightarrow> 'a list \<Rightarrow> 'e + 'b list" where
  "map_res f [] = Inr []"
| "map_res f (x # xs) = bind_res (f x) (\<lambda>y. bind_res (map_res f xs) (\<lambda>ys. Inr (y # ys)))"

definition group_rows :: "('r \<Rightarrow> 'g) \<Rightarrow> 'r list \<Rightarrow> ('g \<times> 'r list) list" where
  "group_rows g rs = map (\<lambda>k. (k, filter (\<lambda>r. g r = k) rs)) (remdups (map g rs))"

definition group_fields :: "string \<Rightarrow> bool \<times> bool" where
  "group_fields g =
     (let fs = map trim_space (split_on (CHR '','') g) in (''eco'' \<in> set fs, ''outcome'' \<in> set fs))"

definition in_window :: "series_query \<Rightarrow> int64 \<Rightarrow> int64 \<Rightarrow> bool" where
  "in_window q span b \<longleftrightarrow>
     (sq_from q \<noteq> 0 \<longrightarrow> b \<ge> ts (bucket (sq_from q) span)) \<and> (sq_to q \<noteq> 0 \<longrightarrow> b \<le> ts (sq_to q))"

type_synonym traffic_rows = "(traffic_key \<times> (int64 \<times> int64)) list"

definition traffic_series ::
  "(traffic_rows \<Rightarrow> string \<times> string) \<Rightarrow> db_fault \<Rightarrow> series_query \<Rightarrow> catalog \<times> series_db \<Rightarrow>
   (catalog \<times> series_db) \<times> (cat_error + traffic_point list)" where
  "traffic_series pick flt q cs =
     (case flush flt (fst cs) of
        (c, Inl e) \<Rightarrow> ((c, snd cs), Inl e)
      | (c, Inr _) \<Rightarrow>
          ((c, snd cs),
           if flt = TxFault then Inl (CatSql ''refused'')
           else
             let span = (if sq_span q = 0 then span_fine else sq_span q);
                 (by_eco, by_outcome) = group_fields (sq_group q);
                 rows = filter (\<lambda>((sp, b, p, e, o'), _). sp = span \<and> (sq_project q \<noteq> [] \<longrightarrow> p = sq_project q) \<and>
                          (sq_eco q \<noteq> [] \<longrightarrow> e = sq_eco q) \<and> in_window q span b) (sd_traffic (snd cs));
                 groups = group_rows (\<lambda>((sp, b, p, e, o'), _).
                            (b, if by_eco then e else [], if by_outcome then o' else [])) rows;
                 ordered = sort_key (\<lambda>((b, e, o'), rs).
                            (b, if by_eco then e else fst (pick rs), if by_outcome then o' else snd (pick rs))) groups
             in map_res (\<lambda>((b, e, o'), rs).
                  bind_res (sql_sum (map (fst \<circ> snd) rs)) (\<lambda>n.
                  bind_res (sql_sum (map (snd \<circ> snd) rs)) (\<lambda>m.
                    Inr \<lparr>tp_bucket = from_ts b, tp_eco = e, tp_outcome = o', tp_count = n, tp_bytes = m\<rparr>))) ordered))"

definition upstream_series ::
  "db_fault \<Rightarrow> series_query \<Rightarrow> catalog \<times> series_db \<Rightarrow> (catalog \<times> series_db) \<times> (cat_error + upstream_point list)" where
  "upstream_series flt q cs =
     (case flush flt (fst cs) of
        (c, Inl e) \<Rightarrow> ((c, snd cs), Inl e)
      | (c, Inr _) \<Rightarrow>
          ((c, snd cs),
           if flt = TxFault then Inl (CatSql ''refused'')
           else
             let rows = filter (\<lambda>((sp, b, p, u), _). sp = span_hour \<and> (sq_project q \<noteq> [] \<longrightarrow> p = sq_project q) \<and>
                          in_window q span_hour b) (sd_upstream (snd cs));
                 groups = sort_key fst (group_rows (\<lambda>((sp, b, p, u), _). (b, u)) rows)
             in map_res (\<lambda>((b, u), rs).
                  bind_res (sql_sum (map (\<lambda>(_, r, e, n, m, x). r) rs)) (\<lambda>r.
                  bind_res (sql_sum (map (\<lambda>(_, r, e, n, m, x). e) rs)) (\<lambda>e.
                  bind_res (sql_sum (map (\<lambda>(_, r, e, n, m, x). n) rs)) (\<lambda>n.
                  bind_res (sql_sum (map (\<lambda>(_, r, e, n, m, x). m) rs)) (\<lambda>m.
                    Inr \<lparr>up_bucket = from_ts b, up_upstream = u, up_requests = r, up_errors = e, up_bytes = n,
                         up_mean = (if r > 0 then quot m r else 0),
                         up_max = Max (set (map (\<lambda>(_, r, e, n, m, x). x) rs))\<rparr>))))) groups))"

definition sample_storage :: "bool \<Rightarrow> storage_sample \<Rightarrow> series_db \<Rightarrow> series_db \<times> (cat_error + unit)" where
  "sample_storage refused a =
     series_tx refused (\<lambda>s.
       let b = ts (bucket (sa_bucket a) span_hour); row = a\<lparr>sa_bucket := from_ts b\<rparr>
       in Inr (s\<lparr>sd_storage := upsert b row (\<lambda>_. row) (sd_storage s)\<rparr>))"

definition storage_series :: "gotime \<Rightarrow> gotime \<Rightarrow> series_db \<Rightarrow> storage_sample list" where
  "storage_series from to s =
     map snd (sort_key fst (filter (\<lambda>(b, _). (from \<noteq> 0 \<longrightarrow> b \<ge> ts (bucket from span_hour)) \<and>
                                          (to \<noteq> 0 \<longrightarrow> b \<le> ts to)) (sd_storage s)))"

definition storage_totals ::
  "db_fault \<Rightarrow> catalog \<Rightarrow> catalog \<times> (cat_error + (int64 \<times> int64) \<times> int64 \<times> int64)" where
  "storage_totals flt =
     after_flush flt (\<lambda>c. (c,
       if flt = TxFault then Inl (CatSql ''refused'')
       else bind_res (sql_sum (map (br_size \<circ> snd) (db_blobs (ct_db c)))) (\<lambda>b.
            bind_res (sql_sum (map (en_size \<circ> snd) (db_entries (ct_db c)))) (\<lambda>e.
              Inr ((int (length (db_blobs (ct_db c))), b), int (length (db_entries (ct_db c))), e)))))"

definition age_bounds :: "int64 list" where
  "age_bounds = [1, 7, 30, 90, 365]"

definition age_label :: "int64 \<Rightarrow> string" where
  "age_label days =
     (if days = 1 then ''24h''
      else if days < 30 then format_int days @ ''d''
      else if days < 365 then format_int (quot days 30) @ ''m''
      else format_int (quot days 365) @ ''y'')"

text \<open>The CASE expression: the first bound the entry's age is under.\<close>

definition age_index :: "gotime \<Rightarrow> entry \<Rightarrow> nat" where
  "age_index now e =
     (if ts (en_access e) = 0 then length age_bounds
      else case find (\<lambda>i. ts now - ts (en_access e) < age_bounds ! i * 86400) [0..<length age_bounds] of
             Some i \<Rightarrow> i | None \<Rightarrow> length age_bounds)"

definition empty_ages :: "age_bucket list" where
  "empty_ages =
     map (\<lambda>b. \<lparr>ag_label = ''under '' @ age_label b, ag_days = b, ag_entries = 0, ag_bytes = 0\<rparr>) age_bounds @
     [\<lparr>ag_label = ''over '' @ age_label (last age_bounds), ag_days = 0, ag_entries = 0, ag_bytes = 0\<rparr>]"

definition entry_ages ::
  "db_fault \<Rightarrow> string \<Rightarrow> gotime \<Rightarrow> catalog \<Rightarrow> catalog \<times> (cat_error + age_bucket list)" where
  "entry_ages flt p now =
     after_flush flt (\<lambda>c. (c,
       if flt = TxFault then Inl (CatSql ''refused'')
       else
         let rows = map snd (filter (\<lambda>r. p \<noteq> [] \<longrightarrow> k_project (fst r) = p) (db_entries (ct_db c)))
         in fold_res (\<lambda>(i, rs) bs.
              bind_res (sql_sum (map en_size rs)) (\<lambda>n.
                Inr (bs[i := (bs ! i)\<lparr>ag_entries := int (length rs), ag_bytes := n\<rparr>])))
              (group_rows (age_index now) rows) empty_ages))"

section \<open>Compaction\<close>

definition fold_source :: "int64 \<Rightarrow> int64 \<Rightarrow> traffic_key \<Rightarrow> bool" where
  "fold_source from cutoff k \<longleftrightarrow> fst k = from \<and> fst (snd k) < cutoff"

definition fold_group :: "int64 \<Rightarrow> traffic_key \<Rightarrow> traffic_key" where
  "fold_group to k = (case k of (sp, b, rest) \<Rightarrow> (to, quot b to * to, rest))"

definition fold_step ::
  "traffic_key \<times> traffic_rows \<Rightarrow> series_db \<Rightarrow> cat_error + series_db" where
  "fold_step g s =
     bind_res (sql_sum (map (fst \<circ> snd) (snd g))) (\<lambda>n.
     bind_res (sql_sum (map (snd \<circ> snd) (snd g))) (\<lambda>m.
       Inr (add_traffic (fst g) (n, m) s)))"

definition fold_rows :: "int64 \<Rightarrow> int64 \<Rightarrow> int64 \<Rightarrow> series_db \<Rightarrow> cat_error + series_db" where
  "fold_rows from to cutoff s =
     bind_res (fold_res fold_step
         (group_rows (fold_group to \<circ> fst) (filter (\<lambda>r. fold_source from cutoff (fst r)) (sd_traffic s))) s)
       (\<lambda>s1. Inr (s1\<lparr>sd_traffic := delete_where (\<lambda>k _. fold_source from cutoff k) (sd_traffic s1)\<rparr>))"

definition expire_traffic :: "int64 \<Rightarrow> int64 \<Rightarrow> series_db \<Rightarrow> series_db" where
  "expire_traffic span cutoff s =
     s\<lparr>sd_traffic := delete_where (\<lambda>k _. fst k = span \<and> fst (snd k) < cutoff) (sd_traffic s)\<rparr>"

definition expire_upstream :: "int64 \<Rightarrow> int64 \<Rightarrow> series_db \<Rightarrow> series_db" where
  "expire_upstream span cutoff s =
     s\<lparr>sd_upstream := delete_where (\<lambda>k _. fst k = span \<and> fst (snd k) < cutoff) (sd_upstream s)\<rparr>"

definition expire_storage :: "int64 \<Rightarrow> series_db \<Rightarrow> series_db" where
  "expire_storage cutoff s = s\<lparr>sd_storage := delete_where (\<lambda>b _. b < cutoff) (sd_storage s)\<rparr>"

definition compact_steps :: "gotime \<Rightarrow> (series_db \<Rightarrow> cat_error + series_db) list" where
  "compact_steps now =
     [fold_rows span_fine span_hour (ts (bucket (now - retain_fine) span_hour)),
      fold_rows span_hour span_day (ts (bucket (now - retain_hour) span_day)),
      Inr \<circ> expire_traffic span_day (ts (now - retain_day)),
      Inr \<circ> expire_upstream span_hour (ts (now - retain_hour)),
      Inr \<circ> expire_storage (ts (now - retain_day))]"

text \<open>The statements run one after the other, each its own transaction; \<open>refused\<close> lists which fail.\<close>

fun run_steps ::
  "bool list \<Rightarrow> (series_db \<Rightarrow> cat_error + series_db) list \<Rightarrow> series_db \<Rightarrow> series_db \<times> (cat_error + unit)" where
  "run_steps refused [] s = (s, Inr ())"
| "run_steps refused (f # fs) s =
     (case series_tx (refused \<noteq> [] \<and> hd refused) f s of
        (s1, Inl e) \<Rightarrow> (s1, Inl e)
      | (s1, Inr _) \<Rightarrow> run_steps (tl refused) fs s1)"

definition compact_series :: "bool list \<Rightarrow> gotime \<Rightarrow> series_db \<Rightarrow> series_db \<times> (cat_error + unit)" where
  "compact_series refused now = run_steps refused (compact_steps now)"

end
