(* ===== verification/Usage.thy ===== *)
theory Usage
  imports Series
begin

text \<open>
  The summary of the catalog's tallies (Stats, sortEcoStats, leaderboard and artifactTop of
  catalog/sqlite.go) and the collector the engine counts in between two flushes
  (engine/stats.go). A Go map that is iterated yields its values in any order: \<open>order\<close>
  stands for it.
\<close>

section \<open>sqlite.go: Stats\<close>

record eco_stats =
  es_project :: string
  es_eco :: string
  es_count :: int64
  es_size :: int64
  es_requests :: int64
  es_hit_count :: int64
  es_hit_bytes :: int64
  es_miss_count :: int64
  es_miss_bytes :: int64

record stats_result =
  re_by_eco :: "eco_stats list"
  re_leaderboard :: "(string \<times> string \<times> int64 \<times> gotime) list"
  re_largest :: "artifact list"
  re_recent :: "artifact list"
  re_blobs :: int64
  re_bytes :: int64

definition eco_before :: "eco_stats \<Rightarrow> eco_stats \<Rightarrow> bool" where
  "eco_before a b \<longleftrightarrow> es_project a < es_project b \<or> es_project a = es_project b \<and> es_eco a < es_eco b"

text \<open>The two loops of sortEcoStats: element \<open>i\<close> is swapped down while it precedes its left neighbour.\<close>

fun sift_down :: "nat \<Rightarrow> eco_stats list \<Rightarrow> eco_stats list" where
  "sift_down 0 s = s"
| "sift_down (Suc j) s =
     (if eco_before (s ! Suc j) (s ! j) then sift_down j (s[Suc j := s ! j, j := s ! Suc j]) else s)"

definition sort_eco_stats :: "eco_stats list \<Rightarrow> eco_stats list" where
  "sort_eco_stats s = fold sift_down [1..<length s] s"

definition eco_key :: "string \<Rightarrow> string \<Rightarrow> string" where
  "eco_key p e = p @ CHR 0x00 # e"

definition zero_eco :: "string \<Rightarrow> string \<Rightarrow> eco_stats" where
  "zero_eco p e = \<lparr>es_project = p, es_eco = e, es_count = 0, es_size = 0, es_requests = 0,
     es_hit_count = 0, es_hit_bytes = 0, es_miss_count = 0, es_miss_bytes = 0\<rparr>"

text \<open>The closure \<open>get\<close> of Stats, followed by the assignment to what it returns.\<close>

definition set_eco ::
  "string \<times> string \<Rightarrow> (eco_stats \<Rightarrow> eco_stats) \<Rightarrow> (string \<times> eco_stats) list \<Rightarrow> (string \<times> eco_stats) list" where
  "set_eco pe f m = upsert (eco_key (fst pe) (snd pe)) (f (zero_eco (fst pe) (snd pe))) f m"

definition stats_inventory ::
  "(string \<times> string \<Rightarrow> bool) \<Rightarrow> db \<Rightarrow> (string \<times> eco_stats) list \<Rightarrow> cat_error + (string \<times> eco_stats) list" where
  "stats_inventory sel d =
     fold_res (\<lambda>(pe, rs) m. bind_res (sql_sum (map (ar_size \<circ> snd) rs)) (\<lambda>n.
         Inr (set_eco pe (\<lambda>s. s\<lparr>es_count := int (length rs), es_size := n\<rparr>) m)))
       (group_rows (\<lambda>((p, e, _), _). (p, e)) (filter (\<lambda>((p, e, _), _). sel (p, e)) (db_artifacts d)))"

definition stats_traffic ::
  "(string \<times> string \<Rightarrow> bool) \<Rightarrow> db \<Rightarrow> (string \<times> eco_stats) list \<Rightarrow> (string \<times> eco_stats) list" where
  "stats_traffic sel d =
     fold (\<lambda>(pe, t). set_eco pe (\<lambda>s. s\<lparr>es_hit_count := tr_hit_count t, es_hit_bytes := tr_hit_bytes t,
                                       es_miss_count := tr_miss_count t, es_miss_bytes := tr_miss_bytes t\<rparr>))
       (filter (\<lambda>r. sel (fst r)) (db_traffic d))"

definition stats_requests ::
  "(string \<times> string \<Rightarrow> bool) \<Rightarrow> db \<Rightarrow> (string \<times> eco_stats) list \<Rightarrow> cat_error + (string \<times> eco_stats) list" where
  "stats_requests sel d =
     fold_res (\<lambda>(pe, rs) m. bind_res (sql_sum (map (\<lambda>(_, n, _). n) rs)) (\<lambda>n.
         Inr (set_eco pe (\<lambda>s. s\<lparr>es_requests := n\<rparr>) m)))
       (group_rows (\<lambda>((p, e, _), _). (p, e)) (filter (\<lambda>((p, e, _), _). sel (p, e)) (db_access d)))"

definition leaderboard ::
  "(string \<times> string \<Rightarrow> bool) \<Rightarrow> db \<Rightarrow> nat \<Rightarrow> (string \<times> string \<times> int64 \<times> gotime) list" where
  "leaderboard sel d n =
     take n (map (\<lambda>((p, e, nm), c, t). (e, nm, c, t))
       (sort_key (\<lambda>((p, e, nm), c, t). (- c, nm)) (filter (\<lambda>((p, e, nm), _). sel (p, e)) (db_access d))))"

definition artifact_top ::
  "(artifact \<Rightarrow> int) \<Rightarrow> (string \<times> string \<Rightarrow> bool) \<Rightarrow> db \<Rightarrow> nat \<Rightarrow> artifact list" where
  "artifact_top col sel d n =
     take n (sort_key (\<lambda>a. - col a) (map snd (filter (\<lambda>((p, e, _), _). sel (p, e)) (db_artifacts d))))"

definition stats_select :: "string \<Rightarrow> string \<Rightarrow> string \<times> string \<Rightarrow> bool" where
  "stats_select p e pe \<longleftrightarrow> (p \<noteq> [] \<longrightarrow> fst pe = p) \<and> (e \<noteq> [] \<longrightarrow> snd pe = e)"

definition stats_eco_map :: "(string \<times> string \<Rightarrow> bool) \<Rightarrow> db \<Rightarrow> cat_error + (string \<times> eco_stats) list" where
  "stats_eco_map sel d =
     bind_res (stats_inventory sel d []) (\<lambda>m. stats_requests sel d (stats_traffic sel d m))"

definition catalog_stats ::
  "(eco_stats list \<Rightarrow> eco_stats list) \<Rightarrow> db_fault \<Rightarrow> string \<Rightarrow> string \<Rightarrow> catalog \<Rightarrow>
   catalog \<times> (cat_error + stats_result)" where
  "catalog_stats order flt p e =
     after_flush flt (\<lambda>c. (c,
       if flt = TxFault then Inl (CatSql ''refused'')
       else let sel = stats_select p e; d = ct_db c in
            bind_res (stats_eco_map sel d) (\<lambda>m.
            bind_res (sql_sum (map (br_size \<circ> snd) (db_blobs d))) (\<lambda>n.
              Inr \<lparr>re_by_eco = sort_eco_stats (order (map snd m)),
                   re_leaderboard = leaderboard sel d 20,
                   re_largest = artifact_top ar_size sel d 15,
                   re_recent = artifact_top ar_cached sel d 15,
                   re_blobs = int (length (db_blobs d)), re_bytes = n\<rparr>))))"

section \<open>engine/stats.go: the collector\<close>

type_synonym series_key = "int64 \<times> string \<times> string \<times> string"

record collector =
  co_access :: "((string \<times> string \<times> string) \<times> int64 \<times> gotime) list"
  co_traffic :: "((string \<times> string) \<times> traffic_row) list"
  co_touch :: "(entry_key \<times> digest \<times> int64 \<times> gotime) list"
  co_series :: "(series_key \<times> int64 \<times> int64) list"

definition new_collector :: collector where
  "new_collector = \<lparr>co_access = [], co_traffic = [], co_touch = [], co_series = []\<rparr>"

definition record_package :: "string \<Rightarrow> string \<Rightarrow> string \<Rightarrow> gotime \<Rightarrow> collector \<Rightarrow> collector" where
  "record_package p e name at s =
     s\<lparr>co_access := upsert (p, e, name) (1, at) (\<lambda>(n, _). (n + 1, at)) (co_access s)\<rparr>"

definition record_touch :: "entry_key \<Rightarrow> digest \<Rightarrow> gotime \<Rightarrow> collector \<Rightarrow> collector" where
  "record_touch k d at s =
     s\<lparr>co_touch := upsert k (d, 1, at) (\<lambda>(d0, n, _). (if d0 = [] then d else d0, n + 1, at)) (co_touch s)\<rparr>"

definition count_traffic :: "bool \<Rightarrow> int64 \<Rightarrow> traffic_row \<Rightarrow> traffic_row" where
  "count_traffic hit n t =
     (if hit then t\<lparr>tr_hit_count := tr_hit_count t + 1, tr_hit_bytes := tr_hit_bytes t + n\<rparr>
      else t\<lparr>tr_miss_count := tr_miss_count t + 1, tr_miss_bytes := tr_miss_bytes t + n\<rparr>)"

definition record_traffic :: "string \<Rightarrow> string \<Rightarrow> bool \<Rightarrow> int64 \<Rightarrow> collector \<Rightarrow> collector" where
  "record_traffic p e hit n s =
     (if n < 0 then s
      else s\<lparr>co_traffic := upsert (p, e)
               (count_traffic hit n \<lparr>tr_hit_count = 0, tr_hit_bytes = 0, tr_miss_count = 0, tr_miss_bytes = 0\<rparr>)
               (count_traffic hit n) (co_traffic s)\<rparr>)"

text \<open>One resolved request: its project, ecosystem, outcome, bytes and time.\<close>

record request_event =
  ev_project :: string
  ev_eco :: string
  ev_outcome :: string
  ev_bytes :: int64
  ev_at :: gotime

definition count_series :: "request_event \<Rightarrow> collector \<Rightarrow> collector" where
  "count_series v s =
     (let n = (if ev_bytes v < 0 then 0 else ev_bytes v);
          k = (ts (bucket (ev_at v) span_fine), ev_project v, ev_eco v, ev_outcome v)
      in s\<lparr>co_series := upsert k (1, n) (\<lambda>(c, b). (c + 1, b + n)) (co_series s)\<rparr>)"

type_synonym window =
  "access_delta list \<times> ((string \<times> string) \<times> traffic_row) list \<times> entry_touch list \<times> series_delta list"

definition drain :: "collector \<Rightarrow> collector \<times> window" where
  "drain s =
     (new_collector,
      map (\<lambda>((p, e, n), c, t). \<lparr>ad_project = p, ad_eco = e, ad_name = n, ad_count = c, ad_access = t\<rparr>) (co_access s),
      co_traffic s,
      map (\<lambda>(k, d, n, t). \<lparr>to_key = k, to_digest = d, to_hits = n, to_access = t\<rparr>) (co_touch s),
      map (\<lambda>((b, p, e, o'), c, n). \<lparr>sd_bucket = from_ts b, sd_project = p, sd_eco = e, sd_outcome = o',
                                     sd_count = c, sd_bytes = n\<rparr>) (co_series s))"

text \<open>
  Flush: each of the three writes may be refused on its own, the window is gone either way,
  and \<open>order\<close> is the order the maps were iterated in.
\<close>

record flush_faults =
  ff_access :: db_fault
  ff_touch :: db_fault
  ff_series :: bool

definition engine_flush ::
  "(series_delta list \<Rightarrow> series_delta list) \<Rightarrow> flush_faults \<Rightarrow> collector \<times> catalog \<times> series_db \<Rightarrow>
   (collector \<times> catalog \<times> series_db) \<times> cat_error list" where
  "engine_flush order flt = (\<lambda>(s, c, sd).
     case drain s of
       (s', access, traffic, touch, series) \<Rightarrow>
         if access = [] \<and> traffic = [] \<and> touch = [] \<and> series = [] then ((s', c, sd), [])
         else
           let (c1, r1) = record_access (ff_access flt) access traffic c;
               (c2, r2) = touch_entries (ff_touch flt) touch c1;
               (sd1, r3) = record_series (ff_series flt) (order series) [] sd
           in ((s', c2, sd1), concat (map (\<lambda>r. case r of Inl e \<Rightarrow> [e] | Inr _ \<Rightarrow> []) [r1, r2, r3])))"

end
