(* ===== verification/Serve.thy ===== *)
theory Serve
  imports EngineCore Usage
begin

text \<open>
  Serving a resolution (engine.go, passthrough.go, blob/serve.go): the fixed order of hit,
  deduplication, peer, offline, quota, guard and miss, the bookkeeping of each, and the
  answers given from a transfer in progress. One request is a function of the engine's
  state; a miss runs its own transfer (runFetch) to the end before it is answered, which is
  one of the schedules the code allows - the answers of the others, from the transfer while
  it runs, are the functions of the last section, over what a follower has read.
\<close>

section \<open>Requests and answers\<close>

record http_req =
  hq_method :: string
  hq_headers :: header

record reply =
  ry_status :: int
  ry_headers :: header
  ry_body :: string

datatype outcome = OutcomeHit | OutcomeDedup | OutcomePeer | OutcomeMiss | OutcomeFail | OutcomeUncached

fun outcome_label :: "outcome \<Rightarrow> string" where
  "outcome_label OutcomeHit = ''hit''"
| "outcome_label OutcomeDedup = ''dedup''"
| "outcome_label OutcomePeer = ''peer''"
| "outcome_label OutcomeMiss = ''miss''"
| "outcome_label OutcomeFail = ''fail''"
| "outcome_label OutcomeUncached = ''uncached''"

record resolution =
  rv_project :: string
  rv_eco :: string
  rv_key :: string
  rv_upstream :: request
  rv_expect :: expect
  rv_media :: string
  rv_headers :: header
  rv_artifact :: "artifact option"
  rv_access :: string

text \<open>
  \<open>sv_peer\<close>: the sibling caches, \<open>sv_guard\<close>: the local budget's guard, both optional in the
  code. \<open>sv_other\<close>: net/http's answer to a request with preconditions or several ranges, which
  the sources only pass on. \<open>sv_client_ok\<close>: the client takes the whole body, and if not,
  \<open>sv_taken\<close> bytes of it.
\<close>

record serve_env =
  sv_env :: engine_env
  sv_peer :: "(string \<Rightarrow> string \<Rightarrow> digest \<Rightarrow> engine_state \<Rightarrow> engine_state \<times> bool \<times> int64) option"
  sv_guard :: "(int64 \<Rightarrow> bool \<times> string) option"
  sv_other :: "http_req \<Rightarrow> string \<Rightarrow> int \<times> string"
  sv_ctx_done :: "nat \<Rightarrow> bool"
  sv_cause :: engine_error
  sv_cancelled :: bool
  sv_client_ok :: bool
  sv_taken :: nat

record serve_state =
  sx_eng :: engine_state
  sx_usage :: usage_cache
  sx_stats :: collector
  sx_flights :: registry
  sx_events :: "(string \<times> string \<times> string \<times> string \<times> int64) list"

section \<open>net/http: one range of a file\<close>

datatype range_spec = WholeFile | OneRange int64 int64 | NoOverlap | BadRange | ManyRanges

text \<open>parseRange for one range of a file of \<open>n\<close> bytes: its start and length.\<close>

definition parse_one_range :: "string \<Rightarrow> int64 \<Rightarrow> range_spec" where
  "parse_one_range s n =
     (case cut s ''-'' of
        None \<Rightarrow> BadRange
      | Some (a0, b0) \<Rightarrow>
          let a = trim_space a0; b = trim_space b0
          in if a = [] then
               (if b = [] \<or> hd b = CHR ''-'' then BadRange
                else case parse_int b of
                       None \<Rightarrow> BadRange
                     | Some i \<Rightarrow> if i < 0 then BadRange else OneRange (n - min i n) (min i n))
             else case parse_int a of
                    None \<Rightarrow> BadRange
                  | Some i \<Rightarrow>
                      if i < 0 then BadRange
                      else if i \<ge> n then NoOverlap
                      else if b = [] then OneRange i (n - i)
                      else case parse_int b of
                             None \<Rightarrow> BadRange
                           | Some j \<Rightarrow> if i > j then BadRange else OneRange i (min j (n - 1) - i + 1))"

definition parse_range :: "string \<Rightarrow> int64 \<Rightarrow> range_spec" where
  "parse_range s n =
     (if s = [] then WholeFile
      else case cut_prefix s ''bytes='' of
             None \<Rightarrow> BadRange
           | Some t \<Rightarrow>
               (case filter (\<lambda>r. r \<noteq> []) (map trim_space (split_on (CHR '','') t)) of
                  [] \<Rightarrow> WholeFile
                | [r] \<Rightarrow> parse_one_range r n
                | _ \<Rightarrow> ManyRanges))"

definition plain_request :: "http_req \<Rightarrow> bool" where
  "plain_request r \<longleftrightarrow> (\<forall>k \<in> {''If-Match'', ''If-None-Match'', ''If-Modified-Since'', ''If-Unmodified-Since'', ''If-Range''}.
     hdr_get (hq_headers r) k = [])"

definition serve_content :: "(http_req \<Rightarrow> string \<Rightarrow> int \<times> string) \<Rightarrow> http_req \<Rightarrow> string \<Rightarrow> int \<times> string" where
  "serve_content other r data =
     (let n = int (length data); show_body = (\<lambda>b. if hq_method r = ''HEAD'' then [] else b)
      in if \<not> plain_request r then other r data
         else case parse_range (hdr_get (hq_headers r) ''Range'') n of
                WholeFile \<Rightarrow> (200, show_body data)
              | OneRange i len \<Rightarrow> if len > n then (200, show_body data)
                                  else (206, show_body (take (nat len) (drop (nat i) data)))
              | NoOverlap \<Rightarrow> if n = 0 then (200, show_body data) else (416, [])
              | BadRange \<Rightarrow> (416, [])
              | ManyRanges \<Rightarrow> other r data)"

section \<open>blob/serve.go\<close>

definition blob_headers :: "digest \<Rightarrow> string \<Rightarrow> header \<Rightarrow> header" where
  "blob_headers d media h0 =
     (let h1 = (if media \<noteq> [] then hdr_set ''Content-Type'' media h0 else h0);
          h2 = hdr_set ''Accept-Ranges'' ''bytes'' (hdr_set ''ETag'' ([CHR 0x22] @ d @ [CHR 0x22]) h1)
      in if hdr_get h2 ''Cache-Control'' = [] then hdr_set ''Cache-Control'' ''public, max-age=31536000, immutable'' h2 else h2)"

definition blob_serve :: "serve_env \<Rightarrow> http_req \<Rightarrow> header \<Rightarrow> digest \<Rightarrow> string \<Rightarrow> fs \<Rightarrow> engine_error + reply" where
  "blob_serve env r h d media s =
     (case blob_open (ee_faults (sv_env env)) (ee_store (sv_env env)) s d of
        Inl e \<Rightarrow> Inl (FeBlob e)
      | Inr (data, m) \<Rightarrow>
          (case serve_content (sv_other env) r data of
             (code, body) \<Rightarrow> Inr \<lparr>ry_status = code, ry_headers = blob_headers d media h, ry_body = body\<rparr>))"

section \<open>engine.go: the pieces\<close>

definition apply_headers :: "resolution \<Rightarrow> header \<Rightarrow> header" where
  "apply_headers res h = fold (\<lambda>(k, vs) h. fold (hdr_add k) vs h) (rv_headers res) h"

definition media_type :: "resolution \<Rightarrow> string \<Rightarrow> string" where
  "media_type res fallback = (if rv_media res \<noteq> [] then rv_media res else fallback)"

definition inflight_key :: "string \<Rightarrow> string \<Rightarrow> string \<Rightarrow> string" where
  "inflight_key project eco key = project @ CHR 0x00 # eco @ CHR 0x00 # key"

definition entry_key_of :: "resolution \<Rightarrow> entry_key" where
  "entry_key_of res = EntryKey (rv_project res) (rv_eco res) (rv_key res)"

definition engine_record :: "serve_env \<Rightarrow> resolution \<Rightarrow> outcome \<Rightarrow> int64 \<Rightarrow> serve_state \<Rightarrow> serve_state" where
  "engine_record env res out n x =
     (let x1 = x\<lparr>sx_stats := count_series \<lparr>ev_project = rv_project res, ev_eco = rv_eco res,
                   ev_outcome = outcome_label out, ev_bytes = n, ev_at = ee_now (sv_env env)\<rparr> (sx_stats x)\<rparr>
      in case out of
           OutcomeMiss \<Rightarrow> x1\<lparr>sx_stats := record_traffic (rv_project res) (rv_eco res) False n (sx_stats x1)\<rparr>
         | OutcomeFail \<Rightarrow> x1
         | OutcomeUncached \<Rightarrow> x1
         | _ \<Rightarrow> x1\<lparr>sx_stats := record_traffic (rv_project res) (rv_eco res) True n (sx_stats x1),
                   sx_events := sx_events x1 @ [(''cache_hit'', rv_project res, rv_eco res, rv_key res, n)]\<rparr>)"

definition note_touch :: "serve_env \<Rightarrow> resolution \<Rightarrow> digest \<Rightarrow> serve_state \<Rightarrow> serve_state" where
  "note_touch env res d x =
     x\<lparr>sx_stats := record_touch (entry_key_of res) d (ee_now (sv_env env)) (sx_stats x)\<rparr>"

definition linked_artifact :: "engine_env \<Rightarrow> resolution \<Rightarrow> digest \<Rightarrow> int64 \<Rightarrow> artifact option" where
  "linked_artifact env res d n =
     map_option (\<lambda>a. a\<lparr>ar_project := rv_project res, ar_eco := rv_eco res, ar_digest := d, ar_size := n,
                      ar_cached := (if ar_cached a = 0 then ee_now env else ar_cached a)\<rparr>) (rv_artifact res)"

text \<open>link: under the store's read lock, the entry row and the inventory row.\<close>

definition link_entry :: "engine_env \<Rightarrow> resolution \<Rightarrow> digest \<Rightarrow> int64 \<Rightarrow> fs \<Rightarrow> catalog \<Rightarrow> catalog \<times> (engine_error + unit)" where
  "link_entry env res d sz s c =
     with_blob FeBlob (ee_faults env) (ee_store env) s d
       (\<lambda>m c.
          let n = (if sz \<le> 0 then st_size m else sz);
              e = \<lparr>en_key = entry_key_of res, en_digest = d, en_size = n, en_media = rv_media res,
                   en_cached = ee_now env, en_access = ee_now env, en_hits = 0\<rparr>
          in case commit_entry (ee_db env CallCommit) (ee_now env) e (linked_artifact env res d n)
                    (engine_quota (ee_cfg env) (rv_project res)) False c of
               (c', r) \<Rightarrow> (c', map_sum FeCatalog id r)) c"

definition set_cat :: "catalog \<Rightarrow> serve_state \<Rightarrow> serve_state" where
  "set_cat c x = x\<lparr>sx_eng := (sx_eng x)\<lparr>eg_cat := c\<rparr>\<rparr>"

text \<open>publishEntry: a refused entry is an event, a written one drops the cached usage.\<close>

definition publish_entry ::
  "engine_env \<Rightarrow> resolution \<Rightarrow> fs \<Rightarrow> digest \<Rightarrow> int64 \<Rightarrow> catalog \<times> usage_cache \<times> (string \<times> string \<times> string \<times> string \<times> int64) list
     \<Rightarrow> catalog \<times> usage_cache \<times> (string \<times> string \<times> string \<times> string \<times> int64) list" where
  "publish_entry env res s d sz = (\<lambda>(c, u, ev).
     case link_entry env res d sz s c of
       (c', Inl e) \<Rightarrow> (c', u, ev @ [(''fetch_error'', rv_project res, rv_eco res, rv_key res, 0)])
     | (c', Inr _) \<Rightarrow> (c', invalidate_usage (rv_project res) u, ev))"

section \<open>Serve up to the miss\<close>

text \<open>Each step either answers or hands the state on.\<close>

type_synonym answer = "serve_state \<times> outcome \<times> (engine_error + reply)"

definition from_blob :: "serve_env \<Rightarrow> http_req \<Rightarrow> resolution \<Rightarrow> outcome \<Rightarrow> digest \<Rightarrow> string \<Rightarrow> serve_state \<Rightarrow> answer" where
  "from_blob env r res out d media x =
     (x, out, blob_serve env r (apply_headers res []) d media (eg_fs (sx_eng x)))"

definition serve_held ::
  "serve_env \<Rightarrow> http_req \<Rightarrow> resolution \<Rightarrow> outcome \<Rightarrow> digest \<Rightarrow> int64 \<Rightarrow> string \<Rightarrow> serve_state \<Rightarrow> answer" where
  "serve_held env r res out d n media x =
     from_blob env r res out d (media_type res media) (engine_record env res out n (note_touch env res d x))"

definition holds :: "serve_env \<Rightarrow> digest \<Rightarrow> serve_state \<Rightarrow> bool" where
  "holds env d x = blob_exists (ee_faults (sv_env env)) (ee_store (sv_env env)) (eg_fs (sx_eng x)) d"

definition try_hit :: "serve_env \<Rightarrow> http_req \<Rightarrow> resolution \<Rightarrow> serve_state \<Rightarrow> serve_state + answer" where
  "try_hit env r res x =
     (case get_entry (ee_db (sv_env env) CallGet) (entry_key_of res) (eg_cat (sx_eng x)) of
        (c, Inr e) \<Rightarrow>
          if holds env (en_digest e) x then Inr (serve_held env r res OutcomeHit (en_digest e) (en_size e) (en_media e) (set_cat c x))
          else Inl (set_cat (fst (delete_entry (ee_db (sv_env env) CallDelete) (entry_key_of res) c)) x)
      | (c, Inl e) \<Rightarrow>
          if e = CatNotFound then Inl (set_cat c x) else Inr (set_cat c x, OutcomeFail, Inl (FeCatalog e)))"

definition link_and_serve ::
  "serve_env \<Rightarrow> http_req \<Rightarrow> resolution \<Rightarrow> outcome \<Rightarrow> int64 \<Rightarrow> serve_state \<Rightarrow> answer" where
  "link_and_serve env r res out n x =
     (case link_entry (sv_env env) res (xp_digest (rv_expect res)) n (eg_fs (sx_eng x)) (eg_cat (sx_eng x)) of
        (c, Inl e) \<Rightarrow> (set_cat c x, OutcomeFail, Inl e)
      | (c, Inr _) \<Rightarrow> serve_held env r res out (xp_digest (rv_expect res)) n [] (set_cat c x))"

definition try_dedup :: "serve_env \<Rightarrow> http_req \<Rightarrow> resolution \<Rightarrow> serve_state \<Rightarrow> serve_state + answer" where
  "try_dedup env r res x =
     (let d = xp_digest (rv_expect res)
      in if d \<noteq> [] \<and> holds env d x
         then Inr (link_and_serve env r res OutcomeDedup
                (case blob_stat (ee_faults (sv_env env)) (ee_store (sv_env env)) (eg_fs (sx_eng x)) d of
                   None \<Rightarrow> 0 | Some m \<Rightarrow> st_size m) x)
         else Inl x)"

definition try_peer :: "serve_env \<Rightarrow> http_req \<Rightarrow> resolution \<Rightarrow> serve_state \<Rightarrow> serve_state + answer" where
  "try_peer env r res x =
     (case sv_peer env of
        None \<Rightarrow> Inl x
      | Some fetch_from \<Rightarrow>
          if xp_digest (rv_expect res) = [] then Inl x
          else case fetch_from (rv_project res) (rv_eco res) (xp_digest (rv_expect res)) (sx_eng x) of
                 (g, found, n) \<Rightarrow>
                   let x1 = x\<lparr>sx_eng := g\<rparr>
                   in if found then Inr (link_and_serve env r res OutcomePeer n x1) else Inl x1)"

definition refuse :: "serve_env \<Rightarrow> resolution \<Rightarrow> engine_error \<Rightarrow> serve_state \<Rightarrow> answer" where
  "refuse env res e x = (engine_record env res OutcomeFail 0 x, OutcomeFail, Inl e)"

definition try_offline :: "serve_env \<Rightarrow> resolution \<Rightarrow> serve_state \<Rightarrow> serve_state + answer" where
  "try_offline env res x =
     (if engine_offline (ee_cfg (sv_env env)) (rv_project res) \<or> rq_url (rv_upstream res) = []
      then Inr (refuse env res FeNotCached x) else Inl x)"

definition try_quota :: "serve_env \<Rightarrow> resolution \<Rightarrow> serve_state \<Rightarrow> serve_state + answer" where
  "try_quota env res x =
     (case check_quota (ee_cfg (sv_env env)) (ee_db (sv_env env) CallCount) (ee_now (sv_env env)) (rv_project res)
             (xp_size (rv_expect res)) (sx_usage x, eg_cat (sx_eng x)) of
        ((u, c), y) \<Rightarrow>
          let x1 = set_cat c (x\<lparr>sx_usage := u\<rparr>)
          in case y of Inl e \<Rightarrow> Inr (refuse env res e x1) | Inr _ \<Rightarrow> Inl x1)"

section \<open>passthrough.go\<close>

definition relay_header :: "string \<Rightarrow> bool" where
  "relay_header name \<longleftrightarrow>
     canonical_key name \<in> {''Content-Encoding'', ''Content-Disposition'', ''Etag'', ''Last-Modified''}"

definition relayed_headers :: "resolution \<Rightarrow> response \<Rightarrow> string \<Rightarrow> header" where
  "relayed_headers res resp reason =
     (let h1 = fold (\<lambda>(k, vs) h. if relay_header k then fold (hdr_add k) vs h else h) (rs_headers resp) (apply_headers res []);
          media = media_type res (hdr_get (rs_headers resp) ''Content-Type'');
          h2 = (if media \<noteq> [] then hdr_set ''Content-Type'' media h1 else h1)
      in hdr_set ''X-Pkgcache-Uncached'' reason h2)"

definition taken_by_client :: "serve_env \<Rightarrow> string \<Rightarrow> string" where
  "taken_by_client env b = (if sv_client_ok env then b else take (sv_taken env) b)"

definition serve_pass_through :: "serve_env \<Rightarrow> resolution \<Rightarrow> string \<Rightarrow> serve_state \<Rightarrow> answer" where
  "serve_pass_through env res reason x =
     (let req = (rv_upstream res)\<lparr>rq_eco := rv_eco res\<rparr>
      in case pool_open (ee_net (sv_env env)) req (eg_pool (sx_eng x)) of
           (p, Inl e) \<Rightarrow> refuse env res (FeUpstream e) (x\<lparr>sx_eng := (sx_eng x)\<lparr>eg_pool := p\<rparr>\<rparr>)
         | (p, Inr resp) \<Rightarrow>
             let x1 = x\<lparr>sx_eng := (sx_eng x)\<lparr>eg_pool := p\<rparr>\<rparr>
             in if rs_status resp < 200 \<or> rs_status resp \<ge> 300 then
                  refuse env res (FeUpstreamStatus (rq_url req) (rs_status resp))
                    (x1\<lparr>sx_events := sx_events x1 @ [(''fetch_error'', rv_project res, rv_eco res, rv_key res, 0)]\<rparr>)
                else
                  let body = taken_by_client env (body_of resp);
                      x2 = x1\<lparr>sx_events := sx_events x1 @ [(''fetch_done'', rv_project res, rv_eco res, rv_key res, 0)]\<rparr>
                  in (engine_record env res OutcomeUncached (int (length body)) x2, OutcomeUncached,
                      if \<not> sv_client_ok env then Inl FeContext
                      else case rs_end resp of
                             BodyFail m \<Rightarrow> Inl (FeReadBody m)
                           | BodyEOF \<Rightarrow> Inr \<lparr>ry_status = rs_status resp,
                                             ry_headers = relayed_headers res resp reason, ry_body = body\<rparr>))"

definition try_guard :: "serve_env \<Rightarrow> resolution \<Rightarrow> serve_state \<Rightarrow> serve_state + answer" where
  "try_guard env res x =
     (case sv_guard env of
        None \<Rightarrow> Inl x
      | Some g \<Rightarrow> (case g (xp_size (rv_expect res)) of
            (ok, reason) \<Rightarrow> if ok then Inl x else Inr (serve_pass_through env res reason x)))"

section \<open>The miss\<close>

definition stream_env_of :: "serve_env \<Rightarrow> resolution \<Rightarrow> usage_cache \<Rightarrow> catalog \<Rightarrow> fs \<Rightarrow> stream_env" where
  "stream_env_of env res u c s =
     (let e = sv_env env
      in \<lparr>se_net = ee_net e, se_faults = ee_faults e, se_store = ee_store e, se_now = ee_now e,
          se_temp = ee_temp e s, se_accept = ee_accept e, se_ctx_done = sv_ctx_done env, se_cause = sv_cause env,
          se_over = (\<lambda>n. snd (quota_exceeded (ee_cfg e) (ee_db e CallCount) (ee_now e) (rv_project res) n (u, c)))\<rparr>)"

text \<open>The goroutine of the request that created the fetch; the entry is published before the fetch ends.\<close>

definition run_miss :: "serve_env \<Rightarrow> resolution \<Rightarrow> fetch \<Rightarrow> serve_state \<Rightarrow> serve_state \<times> fetch" where
  "run_miss env res f x =
     (case quota_room (ee_cfg (sv_env env)) (ee_db (sv_env env) CallCount) (ee_now (sv_env env)) (rv_project res)
             (sx_usage x, eg_cat (sx_eng x)) of
        ((u, c), room) \<Rightarrow>
          let g = sx_eng x;
              senv = stream_env_of env res u c (eg_fs g);
              req = (rv_upstream res)\<lparr>rq_eco := rv_eco res\<rparr>;
              want = (rv_expect res)\<lparr>xp_room := room\<rparr>;
              s' = sr_fs (stream senv req want (eg_pool g) (eg_fs g) (bind_cancel f));
              o1 = run_fetch senv req want (sv_cancelled env) (publish_entry (sv_env env) res s')
                     (eg_pool g) (eg_fs g) f (c, u, [])
          in (case ro_cat o1 of
                (c', u', ev) \<Rightarrow>
                  (x\<lparr>sx_eng := g\<lparr>eg_pool := ro_pool o1, eg_fs := ro_fs o1, eg_cat := c'\<rparr>, sx_usage := u',
                     sx_events := sx_events x @ ev @
                       map (\<lambda>(k, d, n). (k, rv_project res, rv_eco res, event_key f, n)) (ro_events o1)\<rparr>,
                   ro_fetch o1)))"

text \<open>
  What is answered once the fetch has ended: a HEAD or a range waited for it, and a plain
  GET that attaches after the end is told it is committed. Only the latter accounts for a
  failure: the wait of the former returns the fetch's error at once.
\<close>

definition waits :: "http_req \<Rightarrow> bool" where
  "waits r \<longleftrightarrow> hq_method r = ''HEAD'' \<or> hdr_get (hq_headers r) ''Range'' \<noteq> []"

definition serve_committed :: "serve_env \<Rightarrow> http_req \<Rightarrow> resolution \<Rightarrow> fetch \<Rightarrow> serve_state \<Rightarrow> answer" where
  "serve_committed env r res f x =
     (case fe_err f of
        Some e \<Rightarrow> if waits r then (x, OutcomeFail, Inl e) else refuse env res e x
      | None \<Rightarrow> from_blob env r res OutcomeMiss (fe_digest f) (media_type res (fe_media f))
                  (engine_record env res OutcomeMiss (if hq_method r = ''HEAD'' then 0 else fe_size f) x))"

text \<open>A miss that starts its own fetch; the catalog is looked up again once it holds the key.\<close>

definition serve_miss :: "serve_env \<Rightarrow> http_req \<Rightarrow> resolution \<Rightarrow> serve_state \<Rightarrow> answer" where
  "serve_miss env r res x =
     (let key = inflight_key (rv_project res) (rv_eco res) (rv_key res);
          (reg, i, created) = registry_start key (sx_flights x);
          f = (new_fetch key (rv_eco res))\<lparr>fe_cache_key := rv_key res\<rparr>
      in case get_entry (ee_db (sv_env env) CallGet) (entry_key_of res) (eg_cat (sx_eng x)) of
           (c, y) \<Rightarrow>
             let x1 = set_cat c x
             in case (case y of Inr e \<Rightarrow> if holds env (en_digest e) x1 then Some e else None | Inl _ \<Rightarrow> None) of
                  Some e \<Rightarrow> serve_held env r res OutcomeHit (en_digest e) (en_size e) (en_media e)
                              (x1\<lparr>sx_flights := registry_finish i reg\<rparr>)
                | None \<Rightarrow> (case run_miss env res f x1 of
                    (x2, f') \<Rightarrow> serve_committed env r res f' (x2\<lparr>sx_flights := registry_finish i reg\<rparr>)))"

section \<open>Serve\<close>

fun first_answer :: "(serve_state \<Rightarrow> serve_state + answer) list \<Rightarrow> (serve_state \<Rightarrow> answer) \<Rightarrow> serve_state \<Rightarrow> answer" where
  "first_answer [] final x = final x"
| "first_answer (f # fs) final x = (case f x of Inr a \<Rightarrow> a | Inl x' \<Rightarrow> first_answer fs final x')"

definition count_access :: "serve_env \<Rightarrow> resolution \<Rightarrow> serve_state \<Rightarrow> serve_state" where
  "count_access env res x =
     (if rv_access res = [] then x
      else x\<lparr>sx_stats := record_package (rv_project res) (rv_eco res) (rv_access res) (ee_now (sv_env env)) (sx_stats x)\<rparr>)"

definition serve :: "serve_env \<Rightarrow> http_req \<Rightarrow> resolution \<Rightarrow> serve_state \<Rightarrow> answer" where
  "serve env r res x =
     first_answer [try_hit env r res, try_dedup env r res, try_peer env r res, try_offline env res, try_quota env res,
                   try_guard env res]
       (serve_miss env r res) (count_access env res x)"

definition cancel_fetch :: "string \<Rightarrow> string \<Rightarrow> string \<Rightarrow> serve_state \<Rightarrow> nat option" where
  "cancel_fetch project eco key x = registry_cancel (inflight_key project eco key) (sx_flights x)"

section \<open>Answers from a transfer in progress\<close>

definition open_ended_range :: "http_req \<Rightarrow> int64 option" where
  "open_ended_range r =
     (if hq_method r \<noteq> ''GET'' \<or> hdr_get (hq_headers r) ''If-Range'' \<noteq> [] then None
      else case cut_prefix (trim_space (hdr_get (hq_headers r) ''Range'')) ''bytes='' of
             None \<Rightarrow> None
           | Some spec \<Rightarrow>
               (case cut_suffix spec ''-'' of
                  None \<Rightarrow> None
                | Some start \<Rightarrow>
                    if start = [] then None
                    else case parse_int start of
                           None \<Rightarrow> None
                         | Some n \<Rightarrow> if n < 0 then None else Some n))"

definition typed_headers :: "resolution \<Rightarrow> fetch \<Rightarrow> header" where
  "typed_headers res f =
     (let h = apply_headers res []; media = media_type res (fe_media f)
      in if media \<noteq> [] then hdr_set ''Content-Type'' media h else h)"

definition progress_headers :: "resolution \<Rightarrow> fetch \<Rightarrow> header" where
  "progress_headers res f =
     hdr_set ''Accept-Ranges'' ''bytes''
       (if fe_total f \<ge> 0 then hdr_set ''Content-Length'' (format_int (fe_total f)) (typed_headers res f)
        else typed_headers res f)"

definition range_headers :: "resolution \<Rightarrow> fetch \<Rightarrow> int64 \<Rightarrow> header" where
  "range_headers res f from =
     hdr_set ''Accept-Ranges'' ''bytes''
       (hdr_set ''Content-Length'' (format_int (fe_total f - from))
         (hdr_set ''Content-Range''
           (''bytes '' @ format_int from @ ''-'' @ format_int (fe_total f - 1) @ ''/'' @ format_int (fe_total f))
           (typed_headers res f)))"

text \<open>
  \<open>got\<close>: what the follower read before it ended or the client stopped taking, \<open>failed\<close> how
  the copy failed, if it did. The headers have gone out by then.
\<close>

definition copied ::
  "serve_env \<Rightarrow> resolution \<Rightarrow> string \<Rightarrow> engine_error option \<Rightarrow> reply \<Rightarrow> serve_state \<Rightarrow> answer" where
  "copied env res got failed rep x =
     (case failed of
        Some e \<Rightarrow> (engine_record env res OutcomeFail (int (length got)) x, OutcomeFail, Inl e)
      | None \<Rightarrow> (engine_record env res OutcomeMiss (int (length got)) x, OutcomeMiss, Inr rep))"

definition serve_progressive ::
  "serve_env \<Rightarrow> resolution \<Rightarrow> fetch \<Rightarrow> string \<Rightarrow> engine_error option \<Rightarrow> serve_state \<Rightarrow> answer" where
  "serve_progressive env res f got failed =
     copied env res got failed \<lparr>ry_status = 200, ry_headers = progress_headers res f, ry_body = got\<rparr>"

text \<open>None: the caller falls back to waiting for the commit.\<close>

definition serve_range_in_flight ::
  "serve_env \<Rightarrow> resolution \<Rightarrow> fetch \<Rightarrow> int64 \<Rightarrow> string \<Rightarrow> engine_error option \<Rightarrow> serve_state \<Rightarrow> answer option" where
  "serve_range_in_flight env res f from got failed x =
     (if fe_total f \<le> 0 \<or> from \<ge> fe_total f then None
      else Some (copied env res got failed
                   \<lparr>ry_status = 206, ry_headers = range_headers res f from, ry_body = got\<rparr> x))"

definition head_in_flight ::
  "serve_env \<Rightarrow> resolution \<Rightarrow> fetch \<Rightarrow> serve_state \<Rightarrow> answer option" where
  "head_in_flight env res f x =
     (if \<not> fe_ready f \<or> fe_done f \<or> fe_total f < 0 then None
      else Some (engine_record env res OutcomeMiss 0 x, OutcomeMiss,
                 Inr \<lparr>ry_status = 200,
                      ry_headers = hdr_set ''Accept-Ranges'' ''bytes''
                        (hdr_set ''Content-Length'' (format_int (fe_total f)) (typed_headers res f)),
                      ry_body = []\<rparr>))"

text \<open>
  Which of them a request that joined a transfer gets, and at which byte its follower
  starts: a range to the end rides along, a HEAD without a declared digest needs the headers
  only, other ranges and HEADs wait, the rest is streamed.
\<close>

datatype join_mode = JoinRange int64 | JoinHead | JoinWait | JoinStream

definition join_mode :: "http_req \<Rightarrow> resolution \<Rightarrow> fetch \<Rightarrow> join_mode" where
  "join_mode r res f =
     (case (case open_ended_range r of
              Some from \<Rightarrow> if fe_done f \<or> fe_total f \<le> 0 \<or> from \<ge> fe_total f then None else Some from
            | None \<Rightarrow> None) of
        Some from \<Rightarrow> JoinRange from
      | None \<Rightarrow>
          if hq_method r = ''HEAD'' \<and> xp_digest (rv_expect res) = [] \<and> fe_ready f \<and> \<not> fe_done f \<and> fe_total f \<ge> 0
          then JoinHead
          else if waits r then JoinWait else JoinStream)"

end
