(* ===== verification/Document.thy ===== *)
theory Document
  imports EngineCore
begin

text \<open>
  Mutable documents (document.go): fetching, caching and revalidating an index, with the
  order of preference the code documents. One call is a function of the engine's state; the
  collapse of concurrent calls for one document (singleflight) is not modelled, since it
  only shares this call's result.
\<close>

section \<open>Specifications and documents\<close>

record doc_spec =
  ds_project :: string
  ds_eco :: string
  ds_name :: string
  ds_key :: string
  ds_url :: string
  ds_ttl :: gotime
  ds_immutable :: bool
  ds_expect :: expect
  ds_headers :: header
  ds_fallbacks :: "fallback list"
  ds_proxy :: string
  ds_optional :: bool
  ds_credential :: "credential option"
  ds_max_bytes :: int64
  ds_compressible :: bool

definition doc_key :: "doc_spec \<Rightarrow> string" where
  "doc_key d = (if ds_key d \<noteq> [] then ds_key d else ds_name d)"

record document =
  dc_body :: string
  dc_media :: string
  dc_digest :: digest
  dc_from_cache :: bool
  dc_revalidated :: bool
  dc_stale :: bool
  dc_source :: string

definition default_doc_max_bytes :: int64 where
  "default_doc_max_bytes = 67108864"

definition document_attempts :: nat where
  "document_attempts = 3"

datatype doc_error = DocEngine engine_error | DocReading | DocTooLarge int64 | DocExpectSize | DocExpectDigest | DocNotCached

section \<open>The cached copy\<close>

text \<open>A row whose content cannot be opened is dropped, so that the next request fetches again.\<close>

definition load_document :: "engine_env \<Rightarrow> entry_key \<Rightarrow> engine_state \<Rightarrow> engine_state \<times> document option" where
  "load_document env k g =
     (case get_entry (ee_db env CallGet) k (eg_cat g) of
        (c, Inl _) \<Rightarrow> (g\<lparr>eg_cat := c\<rparr>, None)
      | (c, Inr e) \<Rightarrow>
          (case blob_open (ee_faults env) (ee_store env) (eg_fs g) (en_digest e) of
             Inl _ \<Rightarrow> (g\<lparr>eg_cat := fst (delete_entry (ee_db env CallDelete) k c)\<rparr>, None)
           | Inr (body, _) \<Rightarrow>
               if ee_faults env SysCopy then (g\<lparr>eg_cat := c\<rparr>, None)
               else (g\<lparr>eg_cat := c\<rparr>,
                     Some \<lparr>dc_body = body, dc_media = en_media e, dc_digest = en_digest e, dc_from_cache = False,
                           dc_revalidated = False, dc_stale = False, dc_source = []\<rparr>)))"

definition stale_or :: "document option \<Rightarrow> doc_error \<Rightarrow> doc_error + document" where
  "stale_or cached e =
     (case cached of Some d \<Rightarrow> Inr (d\<lparr>dc_from_cache := True, dc_stale := True\<rparr>) | None \<Rightarrow> Inl e)"

section \<open>Reading a document whole\<close>

text \<open>io.ReadAll of a LimitReader: an error past the limit is not seen.\<close>

definition read_limited :: "int64 \<Rightarrow> string \<times> body_end \<Rightarrow> string option" where
  "read_limited n s =
     (case s of (body, fin) \<Rightarrow>
        if int (length body) \<ge> n then Some (take (nat n) body)
        else case fin of BodyEOF \<Rightarrow> Some body | BodyFail _ \<Rightarrow> None)"

definition read_document :: "engine_env \<Rightarrow> response \<Rightarrow> bool \<Rightarrow> int64 \<Rightarrow> string option" where
  "read_document env resp compressible limit =
     (if compressible \<and> equal_fold (hdr_get (rs_headers resp) ''Content-Encoding'') ''gzip''
      then case ee_gunzip env (body_of resp, rs_end resp) of
             None \<Rightarrow> None
           | Some s \<Rightarrow> read_limited (wrap64 (limit + 1)) s
      else read_limited (wrap64 (limit + 1)) (body_of resp, rs_end resp))"

definition doc_request :: "doc_spec \<Rightarrow> ref_row option \<Rightarrow> bool \<Rightarrow> request" where
  "doc_request spec ref cached =
     (let h0 = ds_headers spec;
          h1 = (if ds_compressible spec \<and> hdr_get h0 ''Accept-Encoding'' = []
                then hdr_set ''Accept-Encoding'' ''gzip'' h0 else h0);
          h2 = (case ref of
                  Some r \<Rightarrow> if cached then
                      (let h = (if rf_etag r \<noteq> [] then hdr_set ''If-None-Match'' (rf_etag r) h1 else h1)
                       in if rf_modified r \<noteq> [] then hdr_set ''If-Modified-Since'' (rf_modified r) h else h)
                    else h1
                | None \<Rightarrow> h1)
      in \<lparr>rq_url = ds_url spec, rq_method = [], rq_headers = h2, rq_body = [], rq_credential = ds_credential spec,
          rq_eco = ds_eco spec, rq_fallbacks = ds_fallbacks spec, rq_proxy = ds_proxy spec, rq_optional = ds_optional spec\<rparr>)"

definition hdr_del :: "string \<Rightarrow> header \<Rightarrow> header" where
  "hdr_del k h = AList.delete (canonical_key k) h"

definition retry_request :: "request \<Rightarrow> request" where
  "retry_request req =
     req\<lparr>rq_headers := hdr_del ''If-Modified-Since'' (hdr_del ''If-None-Match'' (rq_headers req))\<rparr>"

text \<open>
  \<open>left\<close> more attempts are allowed. The result is the response read last with its body, or
  what the call ends with: an error to be answered stale if there is a copy.
\<close>

fun doc_read ::
  "engine_env \<Rightarrow> doc_spec \<Rightarrow> request \<Rightarrow> int64 \<Rightarrow> nat \<Rightarrow> response \<Rightarrow> pool \<Rightarrow> pool \<times> (doc_error + response \<times> string)" where
  "doc_read env spec req limit left resp p =
     (case read_document env resp (ds_compressible spec) limit of
        Some body \<Rightarrow> (p, Inr (resp, body))
      | None \<Rightarrow>
          (case left of
             0 \<Rightarrow> (p, Inl DocReading)
           | Suc n \<Rightarrow>
               (case pool_open (ee_net env) (retry_request req) p of
                  (p1, Inl e) \<Rightarrow> (p1, Inl (DocEngine (FeUpstream e)))
                | (p1, Inr nextr) \<Rightarrow>
                    if rs_status nextr \<noteq> 200
                    then (p1, Inl (DocEngine (FeUpstreamStatus (ds_url spec) (rs_status nextr))))
                    else doc_read env spec req limit n nextr p1)))"

declare doc_read.simps [simp del]

section \<open>document\<close>

text \<open>The bytes are checked, stored, entered, and only then does the pointer move.\<close>

definition doc_limit :: "doc_spec \<Rightarrow> int64" where
  "doc_limit spec = (if ds_max_bytes spec \<le> 0 then default_doc_max_bytes else ds_max_bytes spec)"

definition keep_document ::
  "engine_env \<Rightarrow> doc_spec \<Rightarrow> response \<Rightarrow> string \<Rightarrow> engine_state \<Rightarrow> engine_state \<times> (doc_error + document)" where
  "keep_document env spec resp body g =
     (if int (length body) > doc_limit spec then (g, Inl (DocTooLarge (doc_limit spec)))
      else if xp_size (ds_expect spec) > 0 \<and> int (length body) \<noteq> xp_size (ds_expect spec) then (g, Inl DocExpectSize)
      else if xp_digest (ds_expect spec) \<noteq> [] \<and> digest_bytes body \<noteq> xp_digest (ds_expect spec)
      then (g, Inl DocExpectDigest)
      else case store_bytes env body g of
             (g1, Inl e) \<Rightarrow> (g1, Inl (DocEngine e))
           | (g1, Inr d) \<Rightarrow>
               let k = EntryKey (ds_project spec) (ds_eco spec) (doc_key spec);
                   media = hdr_get (rs_headers resp) ''Content-Type'';
                   g2 = g1\<lparr>eg_cat := fst (put_entry (ee_now env) (new_entry env k d (int (length body)) media) (eg_cat g1))\<rparr>;
                   g3 = (if ds_immutable spec then g2
                         else put_doc_ref env (RefKey (ds_project spec) (ds_eco spec) (ds_name spec)) d media
                                (rs_via resp) resp (ds_ttl spec) g2)
               in (g3, Inr \<lparr>dc_body = body, dc_media = media, dc_digest = d, dc_from_cache = False,
                            dc_revalidated = False, dc_stale = False, dc_source = rs_via resp\<rparr>))"

definition fetch_document ::
  "engine_env \<Rightarrow> doc_spec \<Rightarrow> ref_row option \<Rightarrow> document option \<Rightarrow> engine_state \<Rightarrow> engine_state \<times> (doc_error + document)" where
  "fetch_document env spec ref cached g =
     (let req = doc_request spec ref (cached \<noteq> None)
      in case pool_open (ee_net env) req (eg_pool g) of
           (p, Inl e) \<Rightarrow> (g\<lparr>eg_pool := p\<rparr>, stale_or cached (DocEngine (FeUpstream e)))
         | (p, Inr resp) \<Rightarrow>
             let g1 = g\<lparr>eg_pool := p\<rparr>
             in if rs_status resp = 304 \<and> cached \<noteq> None then
                  (let d = the cached;
                       r = (case ref of Some r \<Rightarrow> (rf_target r, rf_source r) | None \<Rightarrow> ([], []))
                   in (put_doc_ref env (RefKey (ds_project spec) (ds_eco spec) (ds_name spec)) (fst r) (dc_media d) (snd r)
                         resp (ds_ttl spec) g1, Inr (d\<lparr>dc_revalidated := True\<rparr>)))
                else if rs_status resp \<noteq> 200 then
                  (g1, stale_or cached (DocEngine (FeUpstreamStatus (ds_url spec) (rs_status resp))))
                else case doc_read env spec req (doc_limit spec) (document_attempts - 1) resp p of
                       (p2, Inl e) \<Rightarrow> (g1\<lparr>eg_pool := p2\<rparr>, stale_or cached e)
                     | (p2, Inr (last_resp, body)) \<Rightarrow> keep_document env spec last_resp body (g1\<lparr>eg_pool := p2\<rparr>))"

text \<open>The pointer, and the cached copy with the source its pointer recorded.\<close>

definition doc_ref :: "doc_spec \<Rightarrow> engine_state \<Rightarrow> ref_row option" where
  "doc_ref spec g = lookup_ref (RefKey (ds_project spec) (ds_eco spec) (ds_name spec)) g"

definition doc_cached :: "engine_env \<Rightarrow> doc_spec \<Rightarrow> engine_state \<Rightarrow> engine_state \<times> document option" where
  "doc_cached env spec g =
     (case load_document env (EntryKey (ds_project spec) (ds_eco spec) (doc_key spec)) g of
        (g1, d0) \<Rightarrow> (g1, case (doc_ref spec g, d0) of (Some r, Some d) \<Rightarrow> Some (d\<lparr>dc_source := rf_source r\<rparr>) | _ \<Rightarrow> d0))"

definition document_call :: "engine_env \<Rightarrow> doc_spec \<Rightarrow> engine_state \<Rightarrow> engine_state \<times> (doc_error + document)" where
  "document_call env spec g =
     (case doc_cached env spec g of
        (g1, cached) \<Rightarrow>
          (case cached of
             Some d \<Rightarrow>
               if ds_immutable spec then (g1, Inr (d\<lparr>dc_from_cache := True\<rparr>))
               else if (case doc_ref spec g of Some r \<Rightarrow> ref_fresh r (ee_now env) | None \<Rightarrow> False)
               then (g1, Inr (d\<lparr>dc_from_cache := True\<rparr>))
               else if engine_offline (ee_cfg env) (ds_project spec)
               then (g1, Inr (d\<lparr>dc_from_cache := True, dc_stale := True\<rparr>))
               else fetch_document env spec (doc_ref spec g) cached g1
           | None \<Rightarrow>
               if engine_offline (ee_cfg env) (ds_project spec) then (g1, Inl DocNotCached)
               else fetch_document env spec (doc_ref spec g) cached g1))"

end
