(* ===== verification/FetchSpec.thy ===== *)
theory FetchSpec
  imports Fetch
begin

text \<open>
  What holds of a fetch, its readers and the registry (Fetch): the reference count and the
  one close of the shared descriptor, the bytes a follower delivers, and single flight.
\<close>

section \<open>References to the descriptor\<close>

definition open_followers :: "fetch_sys \<Rightarrow> nat" where
  "open_followers s = length (filter (\<lambda>r. \<not> fo_closed r) (fy_followers s))"

definition refs_inv :: "fetch_sys \<Rightarrow> bool" where
  "refs_inv s \<longleftrightarrow>
     fe_refs (fy_fetch s) = (if fy_owner s = Finished then 0 else 1) + int (open_followers s) \<and>
     fy_closes s = (if fe_closed (fy_fetch s) then 1 else 0) \<and>
     (fe_closed (fy_fetch s) \<longrightarrow> fe_refs (fy_fetch s) = 0 \<and> fe_read (fy_fetch s) \<noteq> None) \<and>
     (fe_read (fy_fetch s) = None \<longrightarrow> open_followers s = 0) \<and>
     (fe_refs (fy_fetch s) = 0 \<and> fe_read (fy_fetch s) \<noteq> None \<longrightarrow> fe_closed (fy_fetch s)) \<and>
     (fe_done (fy_fetch s) \<longleftrightarrow> fy_owner s = Finishing \<or> fy_owner s = Finished) \<and>
     (fy_owner s = Streaming \<longrightarrow> fe_read (fy_fetch s) \<noteq> None) \<and>
     (fy_owner s = Starting \<longrightarrow> fe_read (fy_fetch s) = None)"

definition follower_inv :: "string \<Rightarrow> follower \<Rightarrow> bool" where
  "follower_inv file r \<longleftrightarrow>
     fo_start r \<le> fo_pos r \<and> fo_pos r \<le> max (fo_start r) (length file) \<and>
     fo_got r = drop (fo_start r) (take (fo_pos r) file)"

definition data_inv :: "fetch_sys \<Rightarrow> bool" where
  "data_inv s \<longleftrightarrow>
     0 \<le> fe_written (fy_fetch s) \<and> fe_written (fy_fetch s) \<le> int (length (fy_file s)) \<and>
     (fe_done (fy_fetch s) \<and> fe_err (fy_fetch s) = None \<and> fe_read (fy_fetch s) \<noteq> None \<longrightarrow>
        fe_written (fy_fetch s) = int (length (fy_file s)) \<and> fe_size (fy_fetch s) = int (length (fy_file s))) \<and>
     (\<forall>r \<in> set (fy_followers s). follower_inv (fy_file s) r)"

lemma open_update:
  assumes "i < length xs"
  shows "length (filter P (xs[i := r])) + (if P (xs ! i) then 1 else 0) = length (filter P xs) + (if P r then 1 else 0)"
  using assms
proof (induction xs arbitrary: i)
  case (Cons x xs)
  then show ?case by (cases i) auto
qed simp

inductive_cases fetch_stepE: "fetch_step s t"

lemma release_eq:
  "release f = (f', c) \<Longrightarrow> fe_refs f' = fe_refs f - 1 \<and> fe_read f' = fe_read f \<and>
     c = (fe_refs f - 1 \<le> 0 \<and> \<not> fe_closed f \<and> fe_read f \<noteq> None) \<and> fe_closed f' = (fe_closed f \<or> c) \<and>
     fe_done f' = fe_done f \<and> fe_written f' = fe_written f \<and> fe_err f' = fe_err f \<and> fe_size f' = fe_size f"
  by (auto simp: release_def Let_def split: if_splits)

lemma acquire_eq:
  "acquire f = Some f' \<longleftrightarrow> \<not> fe_closed f \<and> fe_read f \<noteq> None \<and> f' = f\<lparr>fe_refs := fe_refs f + 1\<rparr>"
  by (auto simp: acquire_def)

lemma finish_record_eq:
  "finish_record d sz err f = Some f' \<Longrightarrow> \<not> fe_done f \<and> fe_done f' \<and> fe_err f' = err \<and> fe_size f' = sz \<and>
     fe_refs f' = fe_refs f \<and> fe_read f' = fe_read f \<and> fe_closed f' = fe_closed f \<and> fe_written f' = fe_written f"
  by (auto simp: finish_record_def broadcast_def split: if_splits)

lemma follower_read_keeps:
  "follower_read data short ctx p f r = (r', x) \<Longrightarrow> fo_closed r' = fo_closed r \<and> fo_start r' = fo_start r"
  by (auto simp: follower_read_def Let_def split: if_splits)

lemma follower_close_eq:
  "follower_close r f = (r', f', c) \<Longrightarrow>
     fo_closed r' \<and> fo_start r' = fo_start r \<and> fo_pos r' = fo_pos r \<and> fo_got r' = fo_got r \<and>
     (if fo_closed r then f' = f \<and> \<not> c else release f = (f', c))"
  by (auto simp: follower_close_def split: if_splits prod.splits)

lemma refs_inv_cong:
  "fe_refs (fy_fetch t) = fe_refs (fy_fetch s) \<Longrightarrow> fe_closed (fy_fetch t) = fe_closed (fy_fetch s) \<Longrightarrow>
   fe_read (fy_fetch t) = fe_read (fy_fetch s) \<Longrightarrow> fe_done (fy_fetch t) = fe_done (fy_fetch s) \<Longrightarrow>
   fy_owner t = fy_owner s \<Longrightarrow> fy_closes t = fy_closes s \<Longrightarrow>
   open_followers t = open_followers s \<Longrightarrow> refs_inv t = refs_inv s"
  by (simp only: refs_inv_def)

lemma refs_inv_same:
  "refs_inv s \<Longrightarrow> fe_refs f = fe_refs (fy_fetch s) \<Longrightarrow> fe_closed f = fe_closed (fy_fetch s) \<Longrightarrow>
   fe_read f = fe_read (fy_fetch s) \<Longrightarrow> fe_done f = fe_done (fy_fetch s) \<Longrightarrow> refs_inv (s\<lparr>fy_fetch := f\<rparr>)"
  by (rule refs_inv_cong [THEN iffD2]) (simp_all add: open_followers_def)

text \<open>The reference count is the transfer itself plus the open followers.\<close>

lemma refs_step: "fetch_step s t \<Longrightarrow> refs_inv s \<Longrightarrow> refs_inv t"
proof (induction rule: fetch_step.induct)
  case (headers s len media staging ino)
  have rd: "fe_read (fy_fetch s) = None" using headers unfolding refs_inv_def by blast
  then have nc: "\<not> fe_closed (fy_fetch s)" and o0: "open_followers s = 0"
    using headers(2) unfolding refs_inv_def by blast+
  have I: "fe_refs (fy_fetch s) = 1" "\<not> fe_closed (fy_fetch s)" "fy_closes s = 0" "open_followers s = 0"
      "\<not> fe_done (fy_fetch s)"
    using headers nc o0 unfolding refs_inv_def by (simp_all only: if_False if_True owner.distinct) simp_all
  show ?case unfolding refs_inv_def using I by (simp add: publish_headers_def open_followers_def)
next
  case (written s chunk)
  show ?case by (rule refs_inv_cong [THEN iffD2, OF _ _ _ _ _ _ _ written(2)]) (simp_all add: open_followers_def)
next
  case (advanced s n)
  show ?case by (rule refs_inv_same [OF advanced(4)]) (simp_all add: fetch_advance_def broadcast_def)
next
  case (finished s d sz err f)
  have "fy_owner s \<noteq> Finished" using finished(1) by auto
  then show ?case using finished(4) finish_record_eq [OF finished(2)]
    unfolding refs_inv_def open_followers_def by (cases "fe_closed (fy_fetch s)") simp_all
next
  case (released s f c)
  have r: "release (fy_fetch s\<lparr>fe_ready := True\<rparr>) = (f, c)" using released(2) by (simp add: finish_release_def)
  show ?case using released(1,3) release_eq [OF r] by (auto simp: refs_inv_def open_followers_def)
next
  case (attached s f o0)
  then show ?case by (auto simp: refs_inv_def open_followers_def acquire_eq)
next
  case (read i s short ctx plen r x)
  have "open_followers (s\<lparr>fy_followers := (fy_followers s)[i := r]\<rparr>) = open_followers s"
    using open_update [OF read(1), of "\<lambda>r. \<not> fo_closed r" r] read(2) follower_read_keeps [OF read(3)]
    by (simp add: open_followers_def)
  then show ?case by (intro refs_inv_cong [THEN iffD2, OF _ _ _ _ _ _ _ read(4)]) simp_all
next
  case (closed i s r f c)
  note C = follower_close_eq [OF closed(2)]
  have o: "open_followers (s\<lparr>fy_fetch := f, fy_followers := (fy_followers s)[i := r], fy_closes := n\<rparr>) +
      (if fo_closed (fy_followers s ! i) then 0 else 1) = open_followers s" for n
    using open_update [OF closed(1), of "\<lambda>r. \<not> fo_closed r" r] C by (auto simp: open_followers_def)
  show ?case
  proof (cases "fo_closed (fy_followers s ! i)")
    case True
    have o': "open_followers (s\<lparr>fy_fetch := f, fy_followers := (fy_followers s)[i := r], fy_closes := n\<rparr>) = open_followers s" for n
      using o [of n] True by simp
    show ?thesis
      by (rule refs_inv_cong [of _ s, THEN iffD2, OF _ _ _ _ _ _ o' closed(3)]) (use C True in simp_all)
  next
    case False
    then have rel: "release (fy_fetch s) = (f, c)" using C by simp
    let ?t = "s\<lparr>fy_fetch := f, fy_followers := (fy_followers s)[i := r], fy_closes := fy_closes s + (if c then 1 else 0)\<rparr>"
    note R = release_eq [OF rel]
    have o1: "open_followers s = Suc (open_followers ?t)" using o [of "fy_closes s + (if c then 1 else 0)"] False by simp
    have I: "fe_refs (fy_fetch s) = (if fy_owner s = Finished then 0 else 1) + int (open_followers s)"
      "fy_closes s = (if fe_closed (fy_fetch s) then 1 else 0)"
      "fe_closed (fy_fetch s) \<longrightarrow> fe_refs (fy_fetch s) = 0 \<and> fe_read (fy_fetch s) \<noteq> None"
      "fe_read (fy_fetch s) = None \<longrightarrow> open_followers s = 0"
      "fe_done (fy_fetch s) \<longleftrightarrow> fy_owner s = Finishing \<or> fy_owner s = Finished"
      "fy_owner s = Starting \<longrightarrow> fe_read (fy_fetch s) = None"
      using closed(3) unfolding refs_inv_def by blast+
    have rd: "fe_read (fy_fetch s) \<noteq> None" using I(4) o1 by simp
    have nc: "\<not> fe_closed (fy_fetch s)" using I(1,3) o1 by (auto split: if_splits)
    have n0: "fy_closes s = 0" using I(2) nc by simp
    have refs: "fe_refs f = (if fy_owner s = Finished then 0 else 1) + int (open_followers ?t)"
      using R I(1) o1 by simp
    have cl: "fe_closed f = c" "c = (fe_refs f = 0)" using R nc rd refs by (simp_all split: if_splits)
    have fr: "fe_read f = fe_read (fy_fetch s)" "fe_done f = fe_done (fy_fetch s)" using R by simp_all
    have "fy_owner s \<noteq> Starting" using I(6) rd by simp
    then show ?thesis
      unfolding refs_inv_def using refs cl fr rd I(5) n0 by auto
  qed
next
  case (cancelled s)
  show ?case by (rule refs_inv_same [OF cancelled]) (simp_all add: fetch_cancel_def)
next
  case (bound s)
  show ?case by (rule refs_inv_same [OF bound]) (simp_all add: bind_cancel_def)
qed

lemma refs_reaches: "fetch_reaches s t \<Longrightarrow> refs_inv s \<Longrightarrow> refs_inv t"
  by (induction rule: fetch_reaches.induct) (auto dest: refs_step)

lemma refs_init: "refs_inv (fetch_init key eco)"
  by (simp add: refs_inv_def fetch_init_def new_fetch_def open_followers_def)

section \<open>What a follower delivers\<close>

lemma follower_inv_append: "follower_inv file r \<Longrightarrow> fo_pos r \<le> length file \<or> fo_pos r = fo_start r \<Longrightarrow> follower_inv (file @ xs) r"
  by (auto simp: follower_inv_def)

lemma follower_inv_grow: "follower_inv file r \<Longrightarrow> follower_inv (file @ xs) r"
  by (rule follower_inv_append) (auto simp: follower_inv_def max_def split: if_splits)

lemma follower_read_inv:
  assumes inv: "follower_inv file r" and f: "follower_read file short ctx p f r = (r', x)"
    and w: "0 \<le> fe_written f" "fe_written f \<le> int (length file)"
  shows "follower_inv file r'"
proof (cases "r' = r")
  case True
  with inv show ?thesis by simp
next
  case False
  let ?got = "take (min p (nat (fe_written f) - fo_pos r)) (drop (fo_pos r) file)"
  have r': "r' = r\<lparr>fo_pos := fo_pos r + length ?got, fo_got := fo_got r @ ?got\<rparr>" and lt: "int (fo_pos r) < fe_written f"
    using f False by (auto simp: follower_read_def Let_def split: if_splits)
  have le: "fo_pos r + length ?got \<le> length file" using lt w by auto
  have st: "fo_start r \<le> fo_pos r" and g: "fo_got r = drop (fo_start r) (take (fo_pos r) file)"
    using inv by (simp_all add: follower_inv_def)
  have "?got = take (length ?got) (drop (fo_pos r) file)" by (simp add: min_def)
  then have "take (fo_pos r + length ?got) file = take (fo_pos r) file @ ?got"
    by (simp only: take_add)
  then have "fo_got r @ ?got = drop (fo_start r) (take (fo_pos r + length ?got) file)"
    using st le g by (simp add: min_def)
  then show ?thesis using st le unfolding r' by (simp add: follower_inv_def)
qed

lemma data_step: "fetch_step s t \<Longrightarrow> refs_inv s \<Longrightarrow> data_inv s \<Longrightarrow> data_inv t"
proof (induction rule: fetch_step.induct)
  case (headers s len media staging ino)
  then show ?case by (auto simp: data_inv_def refs_inv_def publish_headers_def)
next
  case (written s chunk)
  then show ?case by (auto simp: data_inv_def refs_inv_def intro: follower_inv_grow)
next
  case (advanced s n)
  then show ?case by (auto simp: data_inv_def refs_inv_def fetch_advance_def broadcast_def)
next
  case (finished s d sz err f)
  have st: "fy_owner s = Streaming" if "fe_read (fy_fetch s) \<noteq> None"
    using finished(1,4) that unfolding refs_inv_def by auto
  note F = finish_record_eq [OF finished(2)]
  have "fe_written (fy_fetch s) = int (length (fy_file s)) \<and> sz = int (length (fy_file s))"
    if "err = None" "fe_read (fy_fetch s) \<noteq> None"
    using finished(3) st that by blast
  then show ?case using finished(5) F unfolding data_inv_def by simp
next
  case (released s f c)
  have r: "release (fy_fetch s\<lparr>fe_ready := True\<rparr>) = (f, c)" using released(2) by (simp add: finish_release_def)
  show ?case using released release_eq [OF r] by (auto simp: data_inv_def)
next
  case (attached s f o0)
  then show ?case by (auto simp: data_inv_def acquire_eq follower_inv_def)
next
  case (read i s short ctx plen r x)
  have "follower_inv (fy_file s) (fy_followers s ! i)" using read(1,5) by (simp add: data_inv_def)
  then have "follower_inv (fy_file s) r"
    by (rule follower_read_inv [OF _ read(3)]) (use read(5) in \<open>auto simp: data_inv_def\<close>)
  then show ?case using read(5) set_update_subset_insert [of "fy_followers s" i r]
    by (auto simp: data_inv_def)
next
  case (closed i s r f c)
  note C = follower_close_eq [OF closed(2)]
  have "follower_inv (fy_file s) r" using closed(1,4) C by (simp add: data_inv_def follower_inv_def)
  moreover have "fe_written f = fe_written (fy_fetch s) \<and> fe_done f = fe_done (fy_fetch s) \<and> fe_err f = fe_err (fy_fetch s) \<and>
      fe_size f = fe_size (fy_fetch s) \<and> fe_read f = fe_read (fy_fetch s)"
    using C release_eq [of "fy_fetch s" f c] by (auto split: if_splits)
  ultimately show ?case using closed(4) set_update_subset_insert [of "fy_followers s" i r]
    by (auto simp: data_inv_def)
next
  case (cancelled s)
  then show ?case by (auto simp: data_inv_def fetch_cancel_def)
next
  case (bound s)
  then show ?case by (auto simp: data_inv_def bind_cancel_def)
qed

lemma data_reaches: "fetch_reaches s t \<Longrightarrow> refs_inv s \<Longrightarrow> data_inv s \<Longrightarrow> refs_inv t \<and> data_inv t"
  by (induction rule: fetch_reaches.induct) (auto dest: refs_step data_step)

lemma data_init: "data_inv (fetch_init key eco)"
  by (simp add: data_inv_def fetch_init_def new_fetch_def)

text \<open>
  C18. The shared read descriptor is closed exactly once. In every interleaving of the transfer
  with any number of readers attaching, reading, closing (twice included) and cancelling,
  the descriptor is closed at most once, never while a reader is attached, and it has been
  closed once the transfer has finished and every reader has detached.
\<close>

theorem descriptor_closed_once:
  assumes "fetch_reaches (fetch_init key eco) s"
  shows "fy_closes s \<le> 1 \<and> (fy_closes s = 1 \<longrightarrow> open_followers s = 0 \<and> fy_owner s = Finished) \<and>
    (fy_owner s = Finished \<and> open_followers s = 0 \<and> fe_read (fy_fetch s) \<noteq> None \<longrightarrow> fy_closes s = 1)"
  using refs_reaches [OF assms refs_init] by (auto simp: refs_inv_def split: if_splits)

text \<open>
  C19. A reader gets exactly the content. Whatever the interleaving, what a follower has been
  given is the content from the offset it asked for up to its position, without gap, repeat
  or byte beyond what the transfer published; and when it is told the stream ended without
  an error, it has been given everything to the end of the committed size.
\<close>

theorem follower_delivers:
  assumes "fetch_reaches (fetch_init key eco) s" and "0 < plen" and i: "i < length (fy_followers s)"
    and r: "follower_read (fy_file s) short ctx plen (fy_fetch s) (fy_followers s ! i) = (r', x)"
  shows "fo_got (fy_followers s ! i) = drop (fo_start (fy_followers s ! i)) (take (fo_pos (fy_followers s ! i)) (fy_file s)) \<and>
    fo_got r' = drop (fo_start r') (take (fo_pos r') (fy_file s)) \<and>
    (x = RdEOF \<and> fe_read (fy_fetch s) \<noteq> None \<longrightarrow>
       fo_got r' = drop (fo_start r') (fy_file s) \<and> fe_size (fy_fetch s) = int (length (fy_file s)))"
proof -
  have I: "refs_inv s" "data_inv s" using data_reaches [OF assms(1) refs_init data_init] by simp_all
  let ?r = "fy_followers s ! i"
  have fi: "follower_inv (fy_file s) ?r" using I(2) i by (simp add: data_inv_def)
  have w: "0 \<le> fe_written (fy_fetch s)" "fe_written (fy_fetch s) \<le> int (length (fy_file s))"
    using I(2) by (simp_all add: data_inv_def)
  have fi': "follower_inv (fy_file s) r'" by (rule follower_read_inv [OF fi r w])
  have eof: "fo_got r' = drop (fo_start r') (fy_file s) \<and> fe_size (fy_fetch s) = int (length (fy_file s))"
    if "x = RdEOF" "fe_read (fy_fetch s) \<noteq> None"
  proof -
    have d: "fe_done (fy_fetch s)" "fe_err (fy_fetch s) = None" "r' = ?r"
      using r that(1) by (auto simp: follower_read_def Let_def split: if_splits option.splits)
    then have full: "fe_written (fy_fetch s) = int (length (fy_file s))" "fe_size (fy_fetch s) = int (length (fy_file s))"
      using I(2) that(2) by (auto simp: data_inv_def)
    have "length (fy_file s) \<le> fo_pos ?r"
    proof (rule ccontr)
      assume "\<not> length (fy_file s) \<le> fo_pos ?r"
      then have lt: "int (fo_pos ?r) < fe_written (fy_fetch s)" "fo_pos ?r < length (fy_file s)" using full(1) by simp_all
      then have "take (min plen (nat (fe_written (fy_fetch s)) - fo_pos ?r)) (drop (fo_pos ?r) (fy_file s)) \<noteq> []"
        using \<open>0 < plen\<close> by auto
      then show False using r that(1) lt by (auto simp: follower_read_def Let_def split: if_splits)
    qed
    then show ?thesis using fi d(3) full(2) by (simp add: follower_inv_def)
  qed
  show ?thesis using fi fi' eof by (simp add: follower_inv_def)
qed
section \<open>A run: one download, one reader\<close>

definition ex_f1 :: fetch_sys where
  "ex_f1 = (fetch_init ''k'' ''pypi'')\<lparr>fy_fetch := publish_headers 2 ''text/plain'' [] 7 (new_fetch ''k'' ''pypi''), fy_owner := Streaming\<rparr>"

definition ex_f2 :: fetch_sys where
  "ex_f2 = ex_f1\<lparr>fy_file := ''hi'', fy_fetch := fetch_advance 2 (fy_fetch ex_f1\<lparr>fe_refs := 2\<rparr>),
     fy_followers := [\<lparr>fo_start = 0, fo_pos = 0, fo_closed = False, fo_got = []\<rparr>]\<rparr>"

definition ex_ff :: fetch where
  "ex_ff = broadcast (fy_fetch ex_f2\<lparr>fe_done := True, fe_digest := [], fe_size := 2, fe_err := None\<rparr>)"

definition ex_fr :: fetch where
  "ex_fr = (ex_ff\<lparr>fe_ready := True\<rparr>)\<lparr>fe_refs := 1\<rparr>"

definition ex_f3 :: fetch_sys where
  "ex_f3 = ex_f2\<lparr>fy_followers := [\<lparr>fo_start = 0, fo_pos = 2, fo_closed = False, fo_got = ''hi''\<rparr>],
     fy_fetch := ex_fr, fy_owner := Finished\<rparr>"

lemmas ex_fetch_defs = ex_f1_def ex_f2_def fetch_init_def new_fetch_def publish_headers_def
  fetch_advance_def broadcast_def acquire_def

lemma ex_fetch2: "fe_done (fy_fetch ex_f2) = False" "fe_written (fy_fetch ex_f2) = 2" "fe_refs (fy_fetch ex_f2) = 2"
  "fe_closed (fy_fetch ex_f2) = False" "fe_read (fy_fetch ex_f2) = Some 7" "fy_file ex_f2 = ''hi''"
  "fy_owner ex_f2 = Streaming" "fy_closes ex_f2 = 0" "fe_err (fy_fetch ex_f2) = None"
  by (simp_all add: ex_fetch_defs)

lemma ex_fetchr: "fe_done ex_fr = True" "fe_written ex_fr = 2" "fe_refs ex_fr = 1"
  "fe_closed ex_fr = False" "fe_read ex_fr = Some 7" "fe_err ex_fr = None"
  by (simp_all add: ex_fr_def ex_ff_def broadcast_def ex_fetch2)

lemma ex_finish: "finish_record [] 2 None (fy_fetch ex_f2) = Some ex_ff"
  by (simp add: finish_record_def ex_ff_def ex_fetch2)

lemma ex_release: "finish_release ex_ff = (ex_fr, False)"
  by (simp add: finish_release_def release_def ex_fr_def ex_ff_def broadcast_def ex_fetch2)

lemma ex_reach1: "fetch_reaches (fetch_init ''k'' ''pypi'') ex_f1"
proof -
  have "fetch_step (fetch_init ''k'' ''pypi'') ex_f1"
    using fetch_step.headers [of "fetch_init ''k'' ''pypi''" 2 "''text/plain''" "[]" 7]
    by (simp add: ex_f1_def fetch_init_def)
  then show ?thesis using fetch_reaches.step fetch_reaches.here by blast
qed

lemma ex_reach2: "fetch_reaches (fetch_init ''k'' ''pypi'') ex_f2"
proof -
  let ?a = "ex_f1\<lparr>fy_file := ''hi''\<rparr>"
  let ?b = "?a\<lparr>fy_fetch := fy_fetch ex_f1\<lparr>fe_refs := 2\<rparr>, fy_followers := [\<lparr>fo_start = 0, fo_pos = 0, fo_closed = False, fo_got = []\<rparr>]\<rparr>"
  have "fetch_step ex_f1 ?a"
    using fetch_step.written [of ex_f1 "''hi''"] by (simp add: ex_fetch_defs)
  moreover have "fetch_step ?a ?b"
    using fetch_step.attached [of ?a "fy_fetch ex_f1\<lparr>fe_refs := 2\<rparr>" 0] by (simp add: ex_fetch_defs)
  moreover have "fetch_step ?b ex_f2"
    using fetch_step.advanced [of ?b 2] by (simp add: ex_fetch_defs)
  ultimately show ?thesis by (rule fetch_reaches.step [OF fetch_reaches.step [OF fetch_reaches.step [OF ex_reach1]]])
qed

lemma ex_reach3: "fetch_reaches (fetch_init ''k'' ''pypi'') ex_f3"
proof -
  let ?r = "\<lparr>fo_start = 0, fo_pos = 2, fo_closed = False, fo_got = ''hi''\<rparr>"
  let ?a = "ex_f2\<lparr>fy_followers := [?r]\<rparr>"
  let ?b = "?a\<lparr>fy_fetch := ex_ff, fy_owner := Finishing\<rparr>"
  have fo: "fy_followers ex_f2 = [\<lparr>fo_start = 0, fo_pos = 0, fo_closed = False, fo_got = []\<rparr>]"
    by (simp add: ex_f2_def)
  have "follower_read (fy_file ex_f2) False False 9 (fy_fetch ex_f2) (fy_followers ex_f2 ! 0) = (?r, RdBytes ''hi'')"
    by (simp add: follower_read_def Let_def fo ex_fetch2)
  then have "fetch_step ex_f2 (ex_f2\<lparr>fy_followers := (fy_followers ex_f2)[0 := ?r]\<rparr>)"
    by (rule fetch_step.read [rotated 2]) (simp_all add: fo)
  then have 1: "fetch_step ex_f2 ?a" by (simp add: fo)
  have 2: "fetch_step ?a ?b"
    by (rule fetch_step.finished [where d = "[]" and sz = 2 and err = None]) (simp_all add: ex_finish ex_fetch2)
  have "fetch_step ?b (?b\<lparr>fy_fetch := ex_fr, fy_owner := Finished, fy_closes := fy_closes ?b + (if False then 1 else 0)\<rparr>)"
    by (rule fetch_step.released) (simp_all add: ex_release)
  then have 3: "fetch_step ?b ex_f3" by (simp add: ex_f3_def)
  show ?thesis by (rule fetch_reaches.step [OF fetch_reaches.step [OF fetch_reaches.step [OF ex_reach2 1] 2] 3])
qed

theorem descriptor_closed_once_witness:
  "\<exists>s. fetch_reaches (fetch_init ''k'' ''pypi'') s \<and> fy_owner s = Finished \<and> fy_closes s = 1"
proof -
  let ?r = "\<lparr>fo_start = 0, fo_pos = 2, fo_closed = True, fo_got = ''hi''\<rparr>"
  let ?f = "ex_fr\<lparr>fe_refs := 0, fe_closed := True\<rparr>"
  let ?t = "ex_f3\<lparr>fy_fetch := ?f, fy_followers := (fy_followers ex_f3)[0 := ?r], fy_closes := fy_closes ex_f3 + (if True then 1 else 0)\<rparr>"
  have "fetch_step ex_f3 ?t"
    by (rule fetch_step.closed) (simp_all add: ex_f3_def follower_close_def release_def ex_fetchr)
  then have r: "fetch_reaches (fetch_init ''k'' ''pypi'') ?t" by (rule fetch_reaches.step [OF ex_reach3])
  have "open_followers ?t = 0" "fy_owner ?t = Finished" "fe_read (fy_fetch ?t) \<noteq> None"
    by (simp_all add: open_followers_def ex_f3_def ex_fetchr)
  then show ?thesis using descriptor_closed_once [OF r] r by blast
qed

theorem follower_delivers_witness:
  "\<exists>r'. follower_read (fy_file ex_f3) False False 9 (fy_fetch ex_f3) (fy_followers ex_f3 ! 0) = (r', RdEOF) \<and>
     fo_got r' = ''hi''"
proof -
  let ?r = "\<lparr>fo_start = 0, fo_pos = 2, fo_closed = False, fo_got = ''hi''\<rparr>"
  have f: "follower_read (fy_file ex_f3) False False 9 (fy_fetch ex_f3) (fy_followers ex_f3 ! 0) = (?r, RdEOF)"
    by (simp add: ex_f3_def follower_read_def Let_def ex_fetchr ex_fetch2)
  have "(0::nat) < 9" "0 < length (fy_followers ex_f3)" by (simp_all add: ex_f3_def)
  from follower_delivers [OF ex_reach3 this f] f show ?thesis by (simp add: ex_f3_def ex_fetch2 ex_fetchr)
qed

section \<open>Single flight\<close>

definition registry_inv :: "registry \<Rightarrow> bool" where
  "registry_inv r \<longleftrightarrow>
     (\<forall>i key. map_of (rg_live r) i = Some key \<longleftrightarrow> map_of (rg_map r) key = Some i) \<and>
     (\<forall>i. map_of (rg_live r) i \<noteq> None \<longrightarrow> i < rg_next r) \<and>
     distinct (map fst (rg_map r))"

lemma registry_invD: "registry_inv r \<Longrightarrow> map_of (rg_live r) i = Some key \<Longrightarrow> map_of (rg_map r) key = Some i"
  by (simp add: registry_inv_def)

lemma start_inv:
  assumes "registry_inv r"
  shows "registry_inv (fst (registry_start key r))"
proof (cases "map_of (rg_map r) key")
  case (Some i)
  then show ?thesis using assms by (simp add: registry_start_def)
next
  case None
  let ?n = "rg_next r"
  have fresh: "map_of (rg_live r) ?n = None"
    using assms unfolding registry_inv_def by (metis less_irrefl)
  have eq: "map_of (rg_live r) i = Some k \<longleftrightarrow> map_of (rg_map r) k = Some i" for i k
    using assms by (simp only: registry_inv_def)
  have lt: "map_of (rg_live r) i \<noteq> None \<Longrightarrow> i < Suc ?n" for i
    using assms unfolding registry_inv_def by (metis less_SucI)
  have "map_of ((?n, key) # rg_live r) i = Some k \<longleftrightarrow> map_of ((key, ?n) # rg_map r) k = Some i" for i k
    using eq [of i k] eq [of ?n k] eq [of i key] fresh None by (cases "i = ?n"; cases "k = key") auto
  moreover have "distinct (map fst ((key, ?n) # rg_map r))"
    using assms None by (simp add: registry_inv_def map_of_eq_None_iff)
  moreover have "map_of ((?n, key) # rg_live r) i \<noteq> None \<Longrightarrow> i < Suc ?n" for i
    using lt [of i] by (auto split: if_splits)
  ultimately show ?thesis using None
    unfolding registry_inv_def registry_start_def by simp
qed

lemma finish_inv:
  assumes "registry_inv r"
  shows "registry_inv (registry_finish i r)"
proof (cases "map_of (rg_live r) i")
  case None
  then show ?thesis using assms by (simp add: registry_finish_def)
next
  case (Some key)
  have eq: "map_of (rg_live r) j = Some k \<longleftrightarrow> map_of (rg_map r) k = Some j" for j k
    using assms by (simp only: registry_inv_def)
  have m: "map_of (rg_map r) key = Some i" using Some eq by simp
  have "map_of (AList.delete i (rg_live r)) j = Some k \<longleftrightarrow> map_of (AList.delete key (rg_map r)) k = Some j" for j k
    using eq [of j k] eq [of i k] eq [of j key] m Some by (cases "j = i"; cases "k = key") auto
  moreover have "distinct (map fst (AList.delete key (rg_map r)))"
    using assms by (simp add: registry_inv_def distinct_delete)
  moreover have "map_of (AList.delete i (rg_live r)) j \<noteq> None \<Longrightarrow> j < rg_next r" for j
    using assms unfolding registry_inv_def by (auto split: if_splits)
  ultimately show ?thesis using Some m
    unfolding registry_inv_def registry_finish_def by (simp add: Let_def)
qed

lemma registry_reaches_inv: "registry_reaches r \<Longrightarrow> registry_inv r"
proof (induction rule: registry_reaches.induct)
  case new
  then show ?case by (simp add: registry_inv_def new_registry_def)
qed (simp_all add: start_inv finish_inv)

text \<open>
  C20. Single flight. In every reachable registry, no two unfinished fetches share a key; as long
  as the fetch of a key has not finished, every Start of that key joins it and creates
  nothing; after it has finished, the next Start creates a fresh one; and a cancel finds
  exactly the unfinished fetch of its key.
\<close>

theorem registry_single_flight:
  assumes "registry_reaches r"
  shows "(\<forall>i j key. map_of (rg_live r) i = Some key \<and> map_of (rg_live r) j = Some key \<longrightarrow> i = j) \<and>
    (\<forall>i key. map_of (rg_live r) i = Some key \<longrightarrow> registry_start key r = (r, i, False)) \<and>
    (\<forall>key. (\<nexists>i. map_of (rg_live r) i = Some key) \<longrightarrow> snd (snd (registry_start key r))) \<and>
    (\<forall>key i. registry_cancel key r = Some i \<longleftrightarrow> map_of (rg_live r) i = Some key)"
proof -
  have eq: "map_of (rg_live r) i = Some k \<longleftrightarrow> map_of (rg_map r) k = Some i" for i k
    using registry_reaches_inv [OF assms] by (simp only: registry_inv_def)
  show ?thesis
    by (intro conjI allI impI) (auto simp: eq registry_start_def registry_cancel_def split: option.splits)
qed

theorem registry_single_flight_witness:
  "registry_start ''k'' (fst (registry_start ''k'' new_registry)) = (fst (registry_start ''k'' new_registry), 0, False)"
proof -
  have r: "registry_reaches (fst (registry_start ''k'' new_registry))"
    by (rule registry_reaches.start [OF registry_reaches.new])
  have "map_of (rg_live (fst (registry_start ''k'' new_registry))) 0 = Some ''k''"
    by (simp add: registry_start_def new_registry_def)
  then show ?thesis using registry_single_flight [OF r] by blast
qed

end
