(* ===== verification/StreamingSpec.thy ===== *)
theory StreamingSpec
  imports Streaming FetchSpec
begin

text \<open>
  What a transfer (Streaming) does: the number of requests it can cost, the content a
  successful one has verified and committed, what a failed one leaves behind, and that its
  effects are runs of the store's and of the fetch's step relations.
\<close>

section \<open>Induction over the attempts\<close>

lemma attempts_induct [consumes 1, case_names failed ended halted refused again]:
  assumes "attempts env req len room a stalls resp x = (x', r)"
    and failed: "\<And>a stalls resp x x1 e. read_chunks env room (rs_chunks resp) x = (x1, Inl e) \<Longrightarrow>
      P a stalls resp x x1 (Inl e)"
    and ended: "\<And>a stalls resp x x1. read_chunks env room (rs_chunks resp) x = (x1, Inr ()) \<Longrightarrow>
      rs_end resp = BodyEOF \<Longrightarrow> len < 0 \<or> w_written (ss_writer x1) \<ge> len \<Longrightarrow> P a stalls resp x x1 (Inr resp)"
    and halted: "\<And>a stalls resp x x1 e. read_chunks env room (rs_chunks resp) x = (x1, Inr ()) \<Longrightarrow>
      e = se_cause env \<or> e = FeSizeMismatch \<or> (\<exists>m. e = FeReadBody m) \<Longrightarrow> P a stalls resp x x1 (Inl e)"
    and refused: "\<And>a stalls resp x x1 p e. read_chunks env room (rs_chunks resp) x = (x1, Inr ()) \<Longrightarrow>
      resumable len (w_written (ss_writer x1)) (next_stalls (w_written (ss_writer x)) (w_written (ss_writer x1)) stalls) \<Longrightarrow>
      resume (se_net env) req (w_written (ss_writer x1)) (ss_pool x1) = (p, Inl e) \<Longrightarrow>
      P a stalls resp x (x1\<lparr>ss_pool := p\<rparr>) (Inl e)"
    and again: "\<And>a stalls resp x x1 p resumed x' r. read_chunks env room (rs_chunks resp) x = (x1, Inr ()) \<Longrightarrow>
      resumable len (w_written (ss_writer x1)) (next_stalls (w_written (ss_writer x)) (w_written (ss_writer x1)) stalls) \<Longrightarrow>
      resume (se_net env) req (w_written (ss_writer x1)) (ss_pool x1) = (p, Inr resumed) \<Longrightarrow>
      attempts env req len room (Suc a) (next_stalls (w_written (ss_writer x)) (w_written (ss_writer x1)) stalls) resumed
        (x1\<lparr>ss_pool := p\<rparr>) = (x', r) \<Longrightarrow>
      P (Suc a) (next_stalls (w_written (ss_writer x)) (w_written (ss_writer x1)) stalls) resumed (x1\<lparr>ss_pool := p\<rparr>) x' r \<Longrightarrow>
      P a stalls resp x x' r"
  shows "P a stalls resp x x' r"
proof -
  have "\<forall>x' r. attempts e q l m a stalls resp x = (x', r) \<longrightarrow> e = env \<longrightarrow> q = req \<longrightarrow> l = len \<longrightarrow> m = room \<longrightarrow>
      P a stalls resp x x' r" for e q l m
  proof (induction e q l m a stalls resp x rule: attempts.induct)
    case (1 e q l m a stalls resp x)
    show ?case
    proof (intro allI impI)
      fix x' r
      assume run: "attempts e q l m a stalls resp x = (x', r)" and eqs: "e = env" "q = req" "l = len" "m = room"
      obtain x1 r1 where rc: "read_chunks env room (rs_chunks resp) x = (x1, r1)" by fastforce
      let ?n = "w_written (ss_writer x1)"
      let ?st = "next_stalls (w_written (ss_writer x)) ?n stalls"
      have "attempts env req len room a stalls resp x = (case r1 of Inl e \<Rightarrow> (x1, Inl e) | Inr _ \<Rightarrow>
          if se_ctx_done env a then (x1, Inl (se_cause env))
          else if rs_end resp = BodyEOF \<and> (len < 0 \<or> ?n \<ge> len) then (x1, Inr resp)
          else if \<not> resumable len ?n ?st
          then (x1, Inl (case rs_end resp of BodyFail m \<Rightarrow> FeReadBody m | BodyEOF \<Rightarrow> FeSizeMismatch))
          else case resume (se_net env) req ?n (ss_pool x1) of
                 (p, Inl e) \<Rightarrow> (x1\<lparr>ss_pool := p\<rparr>, Inl e)
               | (p, Inr resumed) \<Rightarrow> attempts env req len room (Suc a) ?st resumed (x1\<lparr>ss_pool := p\<rparr>))"
        by (subst attempts.simps) (simp only: rc Let_def prod.case)
      note run' = trans [OF run [symmetric, unfolded eqs] this]
      have IH: "attempts env req len room (Suc a) ?st resumed (x1\<lparr>ss_pool := p\<rparr>) = (x', r) \<Longrightarrow>
          P (Suc a) ?st resumed (x1\<lparr>ss_pool := p\<rparr>) x' r"
        if "r1 = Inr ()" "\<not> se_ctx_done env a" "\<not> (rs_end resp = BodyEOF \<and> (len < 0 \<or> ?n \<ge> len))" "resumable len ?n ?st"
          "resume (se_net env) req ?n (ss_pool x1) = (p, Inr resumed)" for p resumed
        using "1.IH" [unfolded eqs, OF rc [symmetric] that(1) _ refl refl refl] that by simp
      show "P a stalls resp x x' r"
      proof (cases r1)
        case (Inl e)
        then show ?thesis using run' rc failed by simp
      next
        case (Inr u)
        obtain p y where re: "resume (se_net env) req ?n (ss_pool x1) = (p, y)" by fastforce
        have rc': "read_chunks env room (rs_chunks resp) x = (x1, Inr ())" using rc Inr by simp
        note F = ended [OF rc'] halted [OF rc'] refused [OF rc'] again [OF rc']
        show ?thesis
          using run' Inr re F(1) F(2) F(3) F(4) IH
          by (auto split: if_splits sum.splits body_end.splits)
      qed
    qed
  qed
  then show ?thesis using assms(1) by blast
qed

section \<open>How many requests a transfer costs\<close>

lemma pool_open_adds:
  assumes "pool_open nt r p = (p', x)"
  shows "length (pl_sent p') \<le> length (pl_sent p) + 5 * Suc (length (rq_fallbacks r))"
proof -
  define m where "m = (if rq_method r = [] then ''GET'' else rq_method r)"
  have "chain_go nt m (attempts_of r) p = (p', x)"
    using assms by (simp add: pool_open_def open_chain_def m_def)
  from chain_go_split [OF this] obtain pre a post q where
    as: "attempts_of r = pre @ a # post" and t: "tried nt m p pre q" and o: "open_one nt m a q = (p', x)"
    by (auto simp: attempts_of_def)
  have "length pre + 1 \<le> Suc (length (rq_fallbacks r))"
    using arg_cong [OF as, of length] by (simp add: attempts_of_def)
  moreover have "length (pl_sent q) \<le> length (pl_sent p) + 5 * length pre"
    using tried_adds [OF t] by (auto simp: adds_def)
  moreover have "length (pl_sent p') \<le> length (pl_sent q) + 5"
    using adds_open_one [OF o] by (auto simp: adds_def)
  ultimately show ?thesis by simp
qed

lemma resume_adds:
  "resume nt req from p = (p', x) \<Longrightarrow> length (pl_sent p') \<le> length (pl_sent p) + 5 * Suc (length (rq_fallbacks req))"
  using pool_open_adds [of nt "resume_request req from" p]
  by (auto simp: resume_def resume_request_def split: prod.splits sum.splits if_splits)

text \<open>The rounds a transfer of \<open>len\<close> bytes can still make at byte \<open>n\<close> after \<open>stalls\<close> stalls.\<close>

definition rounds_left :: "int64 \<Rightarrow> int64 \<Rightarrow> nat \<Rightarrow> nat" where
  "rounds_left len n stalls = (6 - stalls) + 6 * (nat (len - n) div 1048576)"

lemma rounds_decrease:
  assumes "mark \<le> n" and "stalls \<le> 5" and "resumable len n (next_stalls mark n stalls)"
  shows "Suc (rounds_left len n (next_stalls mark n stalls)) \<le> rounds_left len mark stalls \<and>
    next_stalls mark n stalls \<le> 5"
proof (cases "n - mark \<ge> resume_progress")
  case True
  then have "nat (len - n) + 1048576 \<le> nat (len - mark)"
    using assms(3) unfolding resumable_def resume_progress_def by linarith
  then have "(nat (len - n) + 1048576) div 1048576 \<le> nat (len - mark) div 1048576" by (rule div_le_mono)
  moreover have "(nat (len - n) + 1048576) div 1048576 = Suc (nat (len - n) div 1048576)" by simp
  ultimately have "Suc (nat (len - n) div 1048576) \<le> nat (len - mark) div 1048576" by linarith
  then show ?thesis using assms(2) True by (simp add: rounds_left_def next_stalls_def)
next
  case False
  have "nat (len - n) div 1048576 \<le> nat (len - mark) div 1048576"
    using assms(1) by (intro div_le_mono) simp
  moreover have "next_stalls mark n stalls = Suc stalls" "Suc stalls \<le> 5"
    using assms(3) False by (simp_all add: next_stalls_def resumable_def max_resume_attempts_def)
  moreover have "Suc (6 - Suc stalls + 6 * k) \<le> 6 - stalls + 6 * j" if "Suc stalls \<le> 5" "k \<le> j" for k j :: nat
    using that by linarith
  ultimately show ?thesis unfolding rounds_left_def by (simp only: simp_thms)
qed

lemma read_chunks_pool: "read_chunks env room cs x = (x', r) \<Longrightarrow> ss_pool x' = ss_pool x"
  by (induction cs arbitrary: x) (auto simp: Let_def split: if_splits prod.splits sum.splits)

lemma attempts_rounds:
  assumes "attempts env req len room a stalls resp x = (x', r)" and "stalls \<le> 5"
  shows "length (pl_sent (ss_pool x')) \<le> length (pl_sent (ss_pool x)) +
    rounds_left len (w_written (ss_writer x)) stalls * (5 * Suc (length (rq_fallbacks req)))"
  using assms
proof (induction rule: attempts_induct)
  case (failed a stalls resp x x1 e)
  then show ?case using read_chunks_pool by fastforce
next
  case (ended a stalls resp x x1)
  then show ?case using read_chunks_pool by fastforce
next
  case (halted a stalls resp x x1 e)
  then show ?case using read_chunks_pool by fastforce
next
  case (refused a stalls resp x x1 p e)
  note rd = rounds_decrease [OF read_chunks_grows [OF refused(1)] refused(4) refused(2)]
  obtain k where "rounds_left len (w_written (ss_writer x)) stalls = Suc k"
    using rd by (cases "rounds_left len (w_written (ss_writer x)) stalls") auto
  then show ?case
    using resume_adds [OF refused(3)] read_chunks_pool [OF refused(1)] by simp
next
  case (again a stalls resp x x1 p resumed x' r)
  note rd = rounds_decrease [OF read_chunks_grows [OF again(1)] again(6) again(2)]
  have "length (pl_sent (ss_pool x')) \<le> length (pl_sent p) +
      rounds_left len (w_written (ss_writer x1)) (next_stalls (w_written (ss_writer x)) (w_written (ss_writer x1)) stalls) *
      (5 * Suc (length (rq_fallbacks req)))"
    using again(5) rd by simp
  then show ?case
    using resume_adds [OF again(3)] read_chunks_pool [OF again(1)]
      mult_le_mono1 [OF conjunct1 [OF rd], of "5 * Suc (length (rq_fallbacks req))"]
    by simp
qed

definition declared_length :: "net \<Rightarrow> request \<Rightarrow> pool \<Rightarrow> int64" where
  "declared_length nt req p = (case snd (pool_open nt req p) of Inl _ \<Rightarrow> 0 | Inr resp \<Rightarrow> content_length resp)"

lemma finish_stream_pool: "finish_stream env want len x = (x', r) \<Longrightarrow> ss_pool x' = ss_pool x"
  by (auto simp: finish_stream_def split: option.splits prod.splits sum.splits)

lemma deferred_abort_simps [simp]:
  "ss_pool (deferred_abort env x) = ss_pool x" "ss_fetch (deferred_abort env x) = ss_fetch x"
  "ss_events (deferred_abort env x) = ss_events x"
  by (simp_all add: deferred_abort_def split: prod.splits)

text \<open>The two ways stream can go once the origin has answered.\<close>

lemma stream_cases:
  obtains (refused) p1 e s' where "stream env req want p s f = refused p1 s' f e" "p1 = fst (pool_open (se_net env) req p)"
      "s' = s \<or> (\<exists>s1 w. writer_create (se_faults env) (se_store env) s (se_temp env) (se_now env) = (s1, Inr w) \<and>
         s' = fst (writer_abort (se_faults env) s1 w))"
  | (ran) p1 resp s1 w x0 x1 r where
      "pool_open (se_net env) req p = (p1, Inr resp)" "rs_status resp = 200"
      "xp_room want > 0 \<longrightarrow> content_length resp \<le> xp_room want"
      "writer_create (se_faults env) (se_store env) s (se_temp env) (se_now env) = (s1, Inr w)"
      "x0 = \<lparr>ss_pool = p1, ss_fs = s1,
             ss_fetch = publish_headers (content_length resp) (hdr_get (rs_headers resp) ''Content-Type'') (w_name w) (w_ino w) f,
             ss_writer = w, ss_events = [(''start'', content_length resp)]\<rparr>"
      "transfer env req want resp x0 = (x1, r)"
      "stream env req want p s f =
         \<lparr>sr_pool = ss_pool (deferred_abort env x1), sr_fs = ss_fs (deferred_abort env x1),
          sr_fetch = ss_fetch (deferred_abort env x1), sr_events = ss_events (deferred_abort env x1), sr_result = r\<rparr>"
proof -
  obtain p1 y where po: "pool_open (se_net env) req p = (p1, y)" by fastforce
  obtain s1 z where wc: "writer_create (se_faults env) (se_store env) s (se_temp env) (se_now env) = (s1, z)" by fastforce
  have err: "s1 = s" if "z = Inl e" for e
    using wc that by (auto simp: writer_create_def Let_def split: if_splits)
  show ?thesis
  proof (cases y)
    case (Inl e)
    then show ?thesis using po by (intro refused [of p1 s "FeUpstream e"]) (simp_all add: stream_def)
  next
    case (Inr resp)
    show ?thesis
    proof (cases "rs_status resp \<noteq> 200 \<or> xp_room want > 0 \<and> content_length resp > xp_room want")
      case True
      let ?e = "if rs_status resp \<noteq> 200 then FeUpstreamStatus (rq_url req) (rs_status resp)
                else se_over env (content_length resp)"
      show ?thesis using po Inr True by (intro refused [of p1 s ?e]) (auto simp: stream_def)
    next
      case go: False
      show ?thesis
      proof (cases z)
        case (Inl e)
        then show ?thesis using po Inr go wc err by (intro refused [of p1 s "FeBlob e"]) (auto simp: stream_def)
      next
        case w: (Inr w)
        show ?thesis
        proof (cases "se_faults env SysOpen")
          case True
          show ?thesis using po Inr go wc w True
            by (intro refused [of p1 "fst (writer_abort (se_faults env) s1 w)" FeOpenStaging]) (auto simp: stream_def)
        next
          case False
          let ?x0 = "\<lparr>ss_pool = p1, ss_fs = s1,
               ss_fetch = publish_headers (content_length resp) (hdr_get (rs_headers resp) ''Content-Type'') (w_name w) (w_ino w) f,
               ss_writer = w, ss_events = [(''start'', content_length resp)]\<rparr>"
          obtain x1 r where t: "transfer env req want resp ?x0 = (x1, r)" by fastforce
          show ?thesis
            by (rule ran [OF _ _ _ _ refl t]) (use po wc go Inr w False t in \<open>auto simp: stream_def Let_def\<close>)
        qed
      qed
    qed
  qed
qed

text \<open>
  C23. Every transfer ends, and its cost is bounded. Whatever the origins do - drop the connection
  after every byte, never answer a range, declare any length - the transfer returns, and the
  requests it sends (retries, token requests and fallbacks included) are at most five per
  origin for the first answer and for each of at most six resumptions plus six per megabyte
  declared: five stalls in a row end it.
\<close>

theorem stream_bounded:
  "length (pl_sent (sr_pool (stream env req want p s f))) \<le> length (pl_sent p) +
     5 * Suc (length (rq_fallbacks req)) * (7 + 6 * (nat (declared_length (se_net env) req p) div 1048576))"
proof (cases rule: stream_cases [of env req want p s f])
  case (refused p1 e s')
  let ?C = "5 * Suc (length (rq_fallbacks req))"
  have "length (pl_sent p1) \<le> length (pl_sent p) + ?C"
    unfolding refused(2) using pool_open_adds [of "se_net env" req p] by (metis prod.collapse)
  also have "\<dots> \<le> length (pl_sent p) + ?C * (7 + n)" for n by simp
  finally show ?thesis unfolding refused(1) by (simp add: refused_def)
next
  case (ran p1 resp s1 w x0 x1 r)
  have len: "declared_length (se_net env) req p = content_length resp"
    by (simp add: declared_length_def ran(1))
  obtain x2 y where a: "attempts env req (content_length resp) (xp_room want) 0 0 resp x0 = (x2, y)" by fastforce
  have p2: "ss_pool x1 = ss_pool x2"
    using ran(6) a finish_stream_pool by (auto simp: transfer_def split: sum.splits)
  have "rounds_left (content_length resp) (w_written (ss_writer x0)) 0 = 6 + 6 * (nat (content_length resp) div 1048576)"
    using writer_create_fresh [OF ran(4)] by (simp add: ran(5) rounds_left_def)
  then show ?thesis
    using attempts_rounds [OF a] pool_open_adds [OF ran(1)] p2
    by (simp add: ran(5,7) len algebra_simps)
qed

section \<open>What arrives is what is committed\<close>

definition ss_ok :: "stream_state \<Rightarrow> bool" where
  "ss_ok x \<longleftrightarrow> \<not> w_closed (ss_writer x) \<and> w_written (ss_writer x) = int (length (w_hashed (ss_writer x))) \<and>
     fe_written (ss_fetch x) = w_written (ss_writer x)"

text \<open>An accepted write takes the whole chunk.\<close>

lemma read_chunks_data:
  assumes "read_chunks env room cs x = (x', Inr ())" and "ss_ok x"
  shows "ss_ok x' \<and> w_hashed (ss_writer x') = w_hashed (ss_writer x) @ concat cs \<and>
    (room > 0 \<longrightarrow> w_written (ss_writer x) \<le> room \<longrightarrow> w_written (ss_writer x') \<le> room)"
  using assms
proof (induction cs arbitrary: x)
  case (Cons c cs)
  show ?case
  proof (cases "c = []")
    case False
    obtain s' w' n where w: "writer_write (se_accept env (nat (w_written (ss_writer x)))) (se_now env) (ss_fs x)
        (ss_writer x) c = (s', w', Inr (), n)" and r: "\<not> (room > 0 \<and> w_written w' > room)"
      using Cons.prems(1) False by (auto simp: Let_def split: prod.splits sum.splits if_splits)
    let ?x = "x\<lparr>ss_fs := s', ss_writer := w'\<rparr>"
    let ?y = "?x\<lparr>ss_fetch := fetch_advance (int (length c)) (ss_fetch ?x), ss_events := ss_events ?x @ [(''progress'', w_written w')]\<rparr>"
    have w': "w_hashed w' = w_hashed (ss_writer x) @ c" "w_written w' = w_written (ss_writer x) + int (length c)" "\<not> w_closed w'"
      using write_ok [OF w] Cons.prems(2) by (simp_all add: ss_ok_def)
    have "ss_ok ?y" using w' Cons.prems(2) by (simp add: ss_ok_def fetch_advance_def broadcast_def)
    moreover have "read_chunks env room cs ?y = (x', Inr ())" using Cons.prems(1) False w r by (simp add: Let_def)
    ultimately show ?thesis using Cons.IH [of ?y] w' r by auto
  qed (use Cons in simp)
qed simp

lemma attempts_data:
  assumes "attempts env req len room a stalls resp x = (x', r)" and "ss_ok x" and "r = Inr fin"
  shows "\<exists>rest. w_hashed (ss_writer x') = w_hashed (ss_writer x) @ body_of resp @ concat (map body_of rest) \<and>
    (\<forall>q \<in> set rest. rs_status q = 206) \<and> ss_ok x' \<and>
    (room > 0 \<longrightarrow> w_written (ss_writer x) \<le> room \<longrightarrow> w_written (ss_writer x') \<le> room)"
  using assms
proof (induction rule: attempts_induct)
  case (ended a stalls resp x x1)
  then show ?case using read_chunks_data [OF ended(1,4)] by (intro exI [of _ "[]"]) (simp add: body_of_def)
next
  case (again a stalls resp x x1 p resumed x' r)
  note d = read_chunks_data [OF again(1,6)]
  have "ss_ok (x1\<lparr>ss_pool := p\<rparr>)" using d by (simp add: ss_ok_def)
  then obtain rest where rest: "w_hashed (ss_writer x') = w_hashed (ss_writer x1) @ body_of resumed @ concat (map body_of rest)"
      "\<forall>q \<in> set rest. rs_status q = 206" "ss_ok x'"
      "room > 0 \<longrightarrow> w_written (ss_writer x1) \<le> room \<longrightarrow> w_written (ss_writer x') \<le> room"
    using again(5,7) by auto
  have "rs_status resumed = 206" using again(3) by (auto simp: resume_def split: prod.splits sum.splits if_splits)
  then show ?case using rest d by (intro exI [of _ "resumed # rest"]) (simp add: body_of_def [of resp])
qed simp_all

section \<open>The transfer as steps of the store\<close>

lemma blob_reaches_trans: "blob_reaches st s t \<Longrightarrow> blob_reaches st t u \<Longrightarrow> blob_reaches st s u"
  by (rotate_tac, induction rule: blob_reaches.induct) (auto intro: reach_step)

definition at_writer :: "(nat \<Rightarrow> writer option) \<Rightarrow> nat \<Rightarrow> stream_state \<Rightarrow> blob_sys" where
  "at_writer ws k x = \<lparr>bs_fs = ss_fs x, bs_writers = ws(k \<mapsto> ss_writer x)\<rparr>"

lemma write_step:
  assumes "writer_write n now (ss_fs x) (ss_writer x) c = (s', w', r, m)" and "ss_fs y = s'" and "ss_writer y = w'"
  shows "blob_step st (at_writer ws k x) (at_writer ws k y)"
  using step_write [where st = st and s = "at_writer ws k x" and k = k and w = "ss_writer x" and p = c] assms
  by (simp add: at_writer_def)

lemma read_chunks_steps:
  "read_chunks env room cs x = (x', r) \<Longrightarrow> blob_reaches st (at_writer ws k x) (at_writer ws k x') \<and>
     fs_dirs (ss_fs x') = fs_dirs (ss_fs x) \<and> fs_names (ss_fs x') = fs_names (ss_fs x)"
proof (induction cs arbitrary: x)
  case Nil
  then show ?case by (simp add: reach_refl)
next
  case (Cons c cs)
  show ?case
  proof (cases "c = []")
    case False
    obtain s' w' r' n where w: "writer_write (se_accept env (nat (w_written (ss_writer x)))) (se_now env) (ss_fs x)
        (ss_writer x) c = (s', w', r', n)" by (metis prod_cases4)
    let ?x = "x\<lparr>ss_fs := s', ss_writer := w'\<rparr>"
    let ?y = "?x\<lparr>ss_fetch := fetch_advance (int (length c)) (ss_fetch ?x), ss_events := ss_events ?x @ [(''progress'', w_written w')]\<rparr>"
    have f: "fs_dirs s' = fs_dirs (ss_fs x)" "fs_names s' = fs_names (ss_fs x)"
      using w by (auto simp: writer_write_def Let_def set_inode_def split: if_splits)
    have 1: "blob_reaches st (at_writer ws k x) (at_writer ws k y)" if "ss_fs y = s'" "ss_writer y = w'" for y :: stream_state
      by (rule reach_step [OF reach_refl write_step [OF w that]])
    show ?thesis
    proof (cases "(\<exists>e. r' = Inl e) \<or> room > 0 \<and> w_written w' > room")
      case True
      then have "x' = ?x" using Cons.prems False w by (auto simp: Let_def split: sum.splits)
      then show ?thesis using 1 [of ?x] f by simp
    next
      case ok: False
      then have "read_chunks env room cs ?y = (x', r)"
        using Cons.prems False w by (auto simp: Let_def split: sum.splits)
      then have "blob_reaches st (at_writer ws k ?y) (at_writer ws k x') \<and> fs_dirs (ss_fs x') = fs_dirs (ss_fs ?y) \<and>
          fs_names (ss_fs x') = fs_names (ss_fs ?y)" by (rule Cons.IH)
      then show ?thesis using blob_reaches_trans [OF 1 [of ?y]] f by simp
    qed
  qed (use Cons in simp)
qed

lemma read_chunks_writer:
  "read_chunks env room cs x = (x', r) \<Longrightarrow> w_name (ss_writer x') = w_name (ss_writer x) \<and>
     (\<not> w_closed (ss_writer x) \<longrightarrow> \<not> w_closed (ss_writer x'))"
proof (induction cs arbitrary: x)
  case (Cons c cs)
  obtain s' w' r' n where w: "writer_write (se_accept env (nat (w_written (ss_writer x)))) (se_now env) (ss_fs x)
      (ss_writer x) c = (s', w', r', n)" by (metis prod_cases4)
  then have "w_name w' = w_name (ss_writer x) \<and> w_closed w' = w_closed (ss_writer x)"
    by (auto simp: writer_write_def Let_def split: if_splits)
  then show ?case using Cons w by (fastforce simp: Let_def split: if_splits sum.splits)
qed simp

lemma attempts_writer:
  assumes "attempts env req len room a stalls resp x = (x', r)"
  shows "w_name (ss_writer x') = w_name (ss_writer x) \<and> (\<not> w_closed (ss_writer x) \<longrightarrow> \<not> w_closed (ss_writer x'))"
  using assms
proof (induction rule: attempts_induct)
  case (refused a stalls resp x x1 p e)
  then show ?case using read_chunks_writer by fastforce
next
  case (again a stalls resp x x1 p resumed x' r)
  then show ?case using read_chunks_writer [OF again(1)] by simp
qed (use read_chunks_writer in blast)+

lemma attempts_steps:
  assumes "attempts env req len room a stalls resp x = (x', r)"
  shows "blob_reaches st (at_writer ws k x) (at_writer ws k x') \<and>
    fs_dirs (ss_fs x') = fs_dirs (ss_fs x) \<and> fs_names (ss_fs x') = fs_names (ss_fs x)"
  using assms
proof (induction rule: attempts_induct)
  case (refused a stalls resp x x1 p e)
  have "at_writer ws k (x1\<lparr>ss_pool := p\<rparr>) = at_writer ws k x1" by (simp add: at_writer_def)
  then show ?case using read_chunks_steps [OF refused(1)] by simp
next
  case (again a stalls resp x x1 p resumed x' r)
  have "at_writer ws k (x1\<lparr>ss_pool := p\<rparr>) = at_writer ws k x1" by (simp add: at_writer_def)
  then show ?case using read_chunks_steps [OF again(1), of st ws k] again(5) blob_reaches_trans by fastforce
qed (use read_chunks_steps in blast)+

lemma finish_steps:
  assumes "finish_stream env want len x = (x', r)"
  shows "blob_reaches (se_store env) (at_writer ws k x) (at_writer ws k x')"
proof (cases "verify_content want len (ss_writer x)")
  case None
  obtain s' w' y where c: "writer_commit (se_faults env) (se_now env) (se_store env) (ss_fs x) (ss_writer x) = (s', w', y)"
    by (metis prod_cases3)
  have "ss_fs x' = s'" "ss_writer x' = w'" using assms None c by (auto simp: finish_stream_def split: sum.splits)
  then have "blob_step (se_store env) (at_writer ws k x) (at_writer ws k x')"
    using step_commit [where st = "se_store env" and s = "at_writer ws k x" and k = k and w = "ss_writer x" and refresh = True]
      c by (simp add: at_writer_def writer_commit_def)
  then show ?thesis by (rule reach_step [OF reach_refl])
qed (use assms in \<open>simp add: finish_stream_def reach_refl\<close>)

lemma abort_steps: "blob_reaches st (at_writer ws k x) (at_writer ws k (deferred_abort env x))"
proof -
  obtain s' w' y where c: "writer_abort (se_faults env) (ss_fs x) (ss_writer x) = (s', w', y)" by (metis prod_cases3)
  have "blob_step st (at_writer ws k x) (at_writer ws k (deferred_abort env x))"
    using step_abort [where st = st and s = "at_writer ws k x" and k = k and w = "ss_writer x"] c
    by (simp add: at_writer_def deferred_abort_def)
  then show ?thesis by (rule reach_step [OF reach_refl])
qed

lemma create_steps:
  assumes "ws k = None" and "writer_create flt st s rnd now = (s1, Inr w)"
  shows "blob_reaches st \<lparr>bs_fs = s, bs_writers = ws\<rparr> \<lparr>bs_fs = s1, bs_writers = ws(k \<mapsto> w)\<rparr>"
proof -
  let ?s = "\<lparr>bs_fs = s, bs_writers = ws\<rparr>"
  have "blob_step st ?s (?s\<lparr>bs_fs := s1, bs_writers := (bs_writers ?s)(k \<mapsto> w)\<rparr>)"
    by (rule step_create [where flt = flt and rnd = rnd and now = now]) (simp_all add: assms)
  then show ?thesis using reach_step [OF reach_refl] by fastforce
qed

lemma transfer_steps:
  assumes "transfer env req want resp x = (x', r)"
  shows "blob_reaches (se_store env) (at_writer ws k x) (at_writer ws k x')"
proof -
  obtain x1 y where a: "attempts env req (content_length resp) (xp_room want) 0 0 resp x = (x1, y)" by fastforce
  note st = attempts_steps [OF a, THEN conjunct1]
  show ?thesis
  proof (cases y)
    case (Inl e)
    then show ?thesis using assms a st by (simp add: transfer_def)
  next
    case (Inr q)
    then have "finish_stream env want (content_length resp) x1 = (x', r)" using assms a by (simp add: transfer_def)
    then show ?thesis using blob_reaches_trans [OF st finish_steps] by blast
  qed
qed

lemma abort_closes: "writer_abort flt s w = (s', w', r) \<Longrightarrow> w_closed w'"
  by (auto simp: writer_abort_def split: if_splits prod.splits)

lemma stream_reaches:
  assumes "ws k = None"
  shows "\<exists>w. blob_reaches (se_store env) \<lparr>bs_fs = s, bs_writers = ws\<rparr>
      \<lparr>bs_fs = sr_fs (stream env req want p s f), bs_writers = ws(k := w)\<rparr> \<and> (\<forall>v. w = Some v \<longrightarrow> w_closed v)"
proof (cases rule: stream_cases [of env req want p s f])
  case (refused p1 e s')
  from refused(3) show ?thesis
  proof
    assume "s' = s"
    then have "blob_reaches (se_store env) \<lparr>bs_fs = s, bs_writers = ws\<rparr>
      \<lparr>bs_fs = sr_fs (stream env req want p s f), bs_writers = ws(k := None)\<rparr>"
      using assms refused(1) by (simp add: refused_def reach_refl fun_upd_idem)
    then show ?thesis by blast
  next
    assume "\<exists>s1 w. writer_create (se_faults env) (se_store env) s (se_temp env) (se_now env) = (s1, Inr w) \<and>
         s' = fst (writer_abort (se_faults env) s1 w)"
    then obtain s1 w where c: "writer_create (se_faults env) (se_store env) s (se_temp env) (se_now env) = (s1, Inr w)"
      and s': "s' = fst (writer_abort (se_faults env) s1 w)" by blast
    obtain s2 w' y where a: "writer_abort (se_faults env) s1 w = (s2, w', y)" by (metis prod_cases3)
    let ?t = "\<lparr>bs_fs = s1, bs_writers = ws(k \<mapsto> w)\<rparr>"
    have "blob_step (se_store env) ?t (?t\<lparr>bs_fs := s2, bs_writers := (bs_writers ?t)(k \<mapsto> w')\<rparr>)"
      by (rule step_abort [where flt = "se_faults env" and r = y and w = w]) (simp_all add: a)
    then have "blob_reaches (se_store env) \<lparr>bs_fs = s, bs_writers = ws\<rparr> \<lparr>bs_fs = s2, bs_writers = ws(k \<mapsto> w')\<rparr>"
      using reach_step [OF create_steps [of ws k, OF assms c]] by fastforce
    then show ?thesis using refused(1) s' a abort_closes [OF a] by (intro exI [of _ "Some w'"]) (simp add: refused_def)
  qed
next
  case (ran p1 resp s1 w x0 x1 r)
  let ?x2 = "deferred_abort env x1"
  have x0: "at_writer ws k x0 = \<lparr>bs_fs = s1, bs_writers = ws(k \<mapsto> w)\<rparr>" by (simp add: at_writer_def ran(5))
  have "blob_reaches (se_store env) \<lparr>bs_fs = s, bs_writers = ws\<rparr> (at_writer ws k ?x2)"
    using blob_reaches_trans [OF blob_reaches_trans [OF create_steps [of ws k, OF assms ran(4)]] abort_steps]
      transfer_steps [OF ran(6), of ws k] x0 by metis
  moreover have "w_closed (ss_writer ?x2)"
    using abort_closes by (simp add: deferred_abort_def split: prod.splits)
  ultimately show ?thesis unfolding ran(7) at_writer_def by (intro exI [of _ "Some (ss_writer ?x2)"]) simp
qed

text \<open>
  C25. A transfer touches the store only through its operations. Whatever happens to it, what it
  does to the files is a run of the store's own steps on one writer of its own - created,
  written, committed or aborted - which it leaves closed; so the integrity and immutability
  of published content hold whatever a transfer does and wherever it dies.
\<close>

theorem stream_runs_store:
  assumes "ws k = None"
  shows "\<exists>w. blob_reaches (se_store env) \<lparr>bs_fs = s, bs_writers = ws\<rparr>
      \<lparr>bs_fs = sr_fs (stream env req want p s f), bs_writers = ws(k := w)\<rparr> \<and> (\<forall>v. w = Some v \<longrightarrow> w_closed v)"
  by (rule stream_reaches) (rule assms)

section \<open>What a successful transfer has verified\<close>

lemma verify_None:
  "verify_content want len w = None \<longleftrightarrow> (len \<ge> 0 \<longrightarrow> w_written w = len) \<and>
     (xp_size want > 0 \<longrightarrow> w_written w = xp_size want) \<and> (xp_digest want \<noteq> [] \<longrightarrow> writer_digest w = xp_digest want)"
  by (auto simp: verify_content_def)

text \<open>The writer a transfer starts with, in a store at rest or at work.\<close>

lemma created_ok:
  assumes "store_wf st" and "sys_inv st \<lparr>bs_fs = s, bs_writers = ws\<rparr>" and "ws k = None"
    and "writer_create flt st s rnd now = (s1, Inr w)"
  shows "sys_inv st \<lparr>bs_fs = s1, bs_writers = ws(k \<mapsto> w)\<rparr>"
  by (rule blob_reaches_inv [OF create_steps [of ws k, OF assms(3,4)] assms(1,2)])

lemma at_writer_ok: "sys_inv st (at_writer ws k x) \<Longrightarrow> \<not> w_closed (ss_writer x) \<Longrightarrow> writer_ok st (ss_fs x) (ss_writer x)"
  using sys_invD(2) [of st "at_writer ws k x" k "ss_writer x"] by (simp add: at_writer_def)

lemma create_names:
  "writer_create flt st s rnd now = (s1, Inr w) \<Longrightarrow>
     fs_dirs s1 = fs_dirs s \<and> lookup_name s (w_name w) = None \<and> (\<exists>x. w_name w = so_staging st @ [x]) \<and>
     (\<forall>q. lookup_name s1 q = (if q = w_name w then Some (w_ino w) else lookup_name s q))"
  by (auto simp: writer_create_def Let_def new_file_def lookup_name_def split: if_splits)

lemma closed_abort: "w_closed (ss_writer x) \<Longrightarrow> deferred_abort env x = x"
  by (simp add: deferred_abort_def writer_abort_def)

lemma commit_closes: "writer_commit flt now st s w = (f, w', r) \<Longrightarrow> w_closed w'"
  using commit_with_trace(2) unfolding writer_commit_def by blast

text \<open>The state a transfer that has received everything commits from.\<close>

lemma transfer_ready:
  assumes wf: "store_wf (se_store env)" and inv: "sys_inv (se_store env) \<lparr>bs_fs = s, bs_writers = ws\<rparr>" and k: "ws k = None"
    and c: "writer_create (se_faults env) (se_store env) s (se_temp env) (se_now env) = (s1, Inr w)"
    and x0: "ss_fs x0 = s1" "ss_writer x0 = w"
    and a: "attempts env req len room 0 0 resp x0 = (x1, y)"
  shows "sys_inv (se_store env) (at_writer ws k x1)" and "fs_dirs (ss_fs x1) = fs_dirs s"
    and "fs_names (ss_fs x1) = fs_names s1"
proof -
  have "sys_inv (se_store env) (at_writer ws k x0)"
    using created_ok [OF wf inv k c] x0 by (simp add: at_writer_def)
  then show "sys_inv (se_store env) (at_writer ws k x1)"
    using blob_reaches_inv [OF attempts_steps [OF a, THEN conjunct1] wf] by blast
  show "fs_dirs (ss_fs x1) = fs_dirs s" "fs_names (ss_fs x1) = fs_names s1"
    using attempts_steps [OF a] create_names [OF c] x0 by auto
qed

lemma stream_verified:
  assumes wf: "store_wf (se_store env)" and inv: "sys_inv (se_store env) \<lparr>bs_fs = s, bs_writers = ws\<rparr>" and k: "ws k = None"
    and dirs: "digest_free_dirs (se_store env) s" and fresh: "fe_written f = 0"
    and ok: "sr_result (stream env req want p s f) = Inr (d, n)"
  shows "\<exists>resp rest. snd (pool_open (se_net env) req p) = Inr resp \<and> rs_status resp = 200 \<and>
    (\<forall>q \<in> set rest. rs_status q = 206) \<and>
    d = digest_bytes (concat (map body_of (resp # rest))) \<and> n = int (length (concat (map body_of (resp # rest)))) \<and>
    (content_length resp \<ge> 0 \<longrightarrow> n = content_length resp) \<and> (xp_size want > 0 \<longrightarrow> n = xp_size want) \<and>
    (xp_digest want \<noteq> [] \<longrightarrow> d = xp_digest want) \<and> (xp_room want > 0 \<longrightarrow> n \<le> xp_room want) \<and>
    blob_exists no_faults (se_store env) (sr_fs (stream env req want p s f)) d \<and>
    fe_written (sr_fetch (stream env req want p s f)) = n"
proof (cases rule: stream_cases [of env req want p s f])
  case (refused p1 e s')
  then show ?thesis using ok by (simp add: refused_def)
next
  case (ran p1 resp s1 w x0 x1 r)
  have r: "r = Inr (d, n)" using ok ran(7) by simp
  obtain x2 fin where a: "attempts env req (content_length resp) (xp_room want) 0 0 resp x0 = (x2, Inr fin)"
    and fs: "finish_stream env want (content_length resp) x2 = (x1, Inr (d, n))"
    using ran(6) r by (auto simp: transfer_def split: prod.splits sum.splits)
  have w0: "w_written w = 0" "w_hashed w = []" "\<not> w_closed w" using writer_create_fresh [OF ran(4)] by simp_all
  have "ss_ok x0" using w0 fresh by (simp add: ran(5) ss_ok_def publish_headers_def)
  then obtain rest where rest: "w_hashed (ss_writer x2) = concat (map body_of (resp # rest))"
      "\<forall>q \<in> set rest. rs_status q = 206" and ok2: "ss_ok x2"
      and room: "xp_room want > 0 \<longrightarrow> w_written (ss_writer x2) \<le> xp_room want"
    using attempts_data [OF a _ refl] w0 by (auto simp: ran(5))
  have x0: "ss_fs x0 = s1" "ss_writer x0 = w" by (simp_all add: ran(5))
  note ready = transfer_ready [OF wf inv k ran(4) x0 a]
  have o2: "\<not> w_closed (ss_writer x2)" "w_written (ss_writer x2) = int (length (w_hashed (ss_writer x2)))"
    "fe_written (ss_fetch x2) = w_written (ss_writer x2)" using ok2 by (simp_all add: ss_ok_def)
  have v: "verify_content want (content_length resp) (ss_writer x2) = None"
    using fs by (auto simp: finish_stream_def split: option.splits)
  obtain s' w' where c: "writer_commit (se_faults env) (se_now env) (se_store env) (ss_fs x2) (ss_writer x2) = (s', w', Inr (d, n))"
    and x1: "x1 = x2\<lparr>ss_fs := s', ss_writer := w'\<rparr>"
    using fs v by (auto simp: finish_stream_def split: prod.splits sum.splits)
  have "writer_ok (se_store env) (ss_fs x2) (ss_writer x2)" by (rule at_writer_ok [OF ready(1) o2(1)])
  moreover have "digest_free_dirs (se_store env) (ss_fs x2)" using dirs ready(2) by (simp add: digest_free_dirs_def)
  ultimately have out: "d = digest_bytes (w_hashed (ss_writer x2))" "n = int (length (w_hashed (ss_writer x2)))"
      "blob_exists no_faults (se_store env) s' d"
    using commit_outcome [OF _ o2(1) wf _ c] by auto
  have "deferred_abort env x1 = x1" using commit_closes [OF c] by (intro closed_abort) (simp add: x1)
  then have "sr_fs (stream env req want p s f) = s'" "sr_fetch (stream env req want p s f) = ss_fetch x2"
    by (simp_all add: ran(7) x1)
  then show ?thesis
    using rest out v room o2 ran(1,2) unfolding verify_None
    by (intro exI [of _ resp] exI [of _ rest]) (simp add: writer_digest_def)
qed


section \<open>What a failed transfer leaves\<close>

lemma commit_drops:
  assumes "writer_commit flt now st s w = (f, w', r)" and "\<not> w_closed w"
  shows "\<exists>x. f = drop_staging flt w x"
  using assms
  by (auto simp: writer_commit_def writer_commit_with_def commit_run_def Let_def split: sum.splits option.splits prod.splits if_splits)

lemma drop_gone: "\<not> flt SysRemove \<Longrightarrow> lookup_name (drop_staging flt w x) (w_name w) = None"
  by (auto simp: drop_staging_def os_remove_def lookup_name_def split: option.splits)

lemma commit_outside:
  assumes "writer_commit flt now st s w = (f, w', r)" and "\<not> w_closed w" and "\<not> under (so_blobs st) (w_name w)"
    and "\<not> under (so_blobs st) q" and "\<not> flt SysRemove"
  shows "lookup_name f q = (if q = w_name w then None else lookup_name s q)"
proof (cases "q = w_name w")
  case True
  then show ?thesis using commit_drops [OF assms(1,2)] drop_gone [of flt w] assms(5) by auto
next
  case False
  have "commit_rel st w s f"
    using commit_frame [OF assms(3)] commit_with_trace(1) [OF assms(1) [unfolded writer_commit_def]] by blast
  then show ?thesis using False assms(4) by (simp add: commit_rel_def)
qed

lemma abort_names:
  assumes "writer_abort flt s w = (f, w', r)"
  shows "(q \<noteq> w_name w \<longrightarrow> lookup_name f q = lookup_name s q) \<and>
    (\<not> w_closed w \<longrightarrow> \<not> flt SysRemove \<longrightarrow> lookup_name f (w_name w) = None)"
proof (cases "w_closed w")
  case False
  obtain x where o: "os_remove flt (w_name w) s = (f, x)"
    using assms False by (auto simp: writer_abort_def split: prod.splits)
  have "\<not> flt SysRemove \<longrightarrow> lookup_name f (w_name w) = None"
    using drop_gone [of flt w s] o by (simp add: drop_staging_def)
  then show ?thesis using os_remove_lookup [OF o, of q] by auto
qed (use assms in \<open>simp add: writer_abort_def\<close>)


section \<open>The transfer as steps of its fetch\<close>

lemma fetch_reaches_trans: "fetch_reaches s t \<Longrightarrow> fetch_reaches t u \<Longrightarrow> fetch_reaches s u"
  by (rotate_tac, induction rule: fetch_reaches.induct) (auto intro: fetch_reaches.step)

definition at_fetch :: "fetch_sys \<Rightarrow> stream_state \<Rightarrow> fetch_sys" where
  "at_fetch y x = y\<lparr>fy_fetch := ss_fetch x, fy_file := w_hashed (ss_writer x)\<rparr>"

lemma written_step:
  assumes "writer_write k now s (ss_writer x) c = (s', w', r, n)" and "fy_owner y = Streaming"
  shows "fetch_reaches (at_fetch y x) (at_fetch y (x\<lparr>ss_fs := s', ss_writer := w'\<rparr>))"
proof -
  obtain more where m: "w_hashed w' = w_hashed (ss_writer x) @ more"
    using assms(1) by (auto simp: writer_write_def Let_def split: if_splits)
  have "fetch_step (at_fetch y x) ((at_fetch y x)\<lparr>fy_file := fy_file (at_fetch y x) @ more\<rparr>)"
    by (rule fetch_step.written) (simp add: at_fetch_def assms(2))
  then show ?thesis using fetch_reaches.step [OF fetch_reaches.here] m by (simp add: at_fetch_def)
qed

lemma read_chunks_fetch:
  assumes "read_chunks env room cs x = (x', r)" and "ss_ok x" and "fy_owner y = Streaming"
  shows "fetch_reaches (at_fetch y x) (at_fetch y x')"
  using assms
proof (induction cs arbitrary: x)
  case Nil
  then show ?case by (simp add: fetch_reaches.here)
next
  case (Cons c cs)
  show ?case
  proof (cases "c = []")
    case False
    obtain s' w' r' n where w: "writer_write (se_accept env (nat (w_written (ss_writer x)))) (se_now env) (ss_fs x)
        (ss_writer x) c = (s', w', r', n)" by (metis prod_cases4)
    let ?x = "x\<lparr>ss_fs := s', ss_writer := w'\<rparr>"
    let ?y = "?x\<lparr>ss_fetch := fetch_advance (int (length c)) (ss_fetch ?x), ss_events := ss_events ?x @ [(''progress'', w_written w')]\<rparr>"
    note 1 = written_step [OF w Cons.prems(3)]
    show ?thesis
    proof (cases "(\<exists>e. r' = Inl e) \<or> room > 0 \<and> w_written w' > room")
      case True
      then have "x' = ?x" using Cons.prems(1) False w by (auto simp: Let_def split: sum.splits)
      then show ?thesis using 1 by simp
    next
      case ok: False
      then have w1: "writer_write (se_accept env (nat (w_written (ss_writer x)))) (se_now env) (ss_fs x)
        (ss_writer x) c = (s', w', Inr (), n)" using w by (cases r') auto
      have w': "w_hashed w' = w_hashed (ss_writer x) @ c" "w_written w' = w_written (ss_writer x) + int (length c)" "\<not> w_closed w'"
        using write_ok [OF w1] Cons.prems(2) by (simp_all add: ss_ok_def)
      then have ok': "ss_ok ?y" using Cons.prems(2) by (simp add: ss_ok_def fetch_advance_def broadcast_def)
      have "fetch_step (at_fetch y ?x) ((at_fetch y ?x)\<lparr>fy_fetch := fetch_advance (int (length c)) (fy_fetch (at_fetch y ?x))\<rparr>)"
        by (rule fetch_step.advanced) (use False w' Cons.prems(2,3) in \<open>simp_all add: at_fetch_def ss_ok_def\<close>)
      then have 2: "fetch_reaches (at_fetch y x) (at_fetch y ?y)"
        using fetch_reaches.step [OF 1] by (cases y) (simp add: at_fetch_def)
      have "read_chunks env room cs ?y = (x', r)"
        using Cons.prems(1) False w1 ok by (auto simp: Let_def split: if_splits)
      then have "fetch_reaches (at_fetch y ?y) (at_fetch y x')" using Cons.IH ok' Cons.prems(3) by blast
      then show ?thesis by (rule fetch_reaches_trans [OF 2])
    qed
  qed (use Cons in simp)
qed

lemma attempts_fetch:
  assumes "attempts env req len room a stalls resp x = (x', r)" and "ss_ok x" and "fy_owner y = Streaming"
  shows "fetch_reaches (at_fetch y x) (at_fetch y x')"
  using assms
proof (induction rule: attempts_induct)
  case (refused a stalls resp x x1 p e)
  then show ?case using read_chunks_fetch [OF refused(1,4,5)] by (simp add: at_fetch_def)
next
  case (again a stalls resp x x1 p resumed x' r)
  have "at_fetch y (x1\<lparr>ss_pool := p\<rparr>) = at_fetch y x1" "ss_ok (x1\<lparr>ss_pool := p\<rparr>)"
    using read_chunks_data [OF again(1,6)] by (simp_all add: at_fetch_def ss_ok_def)
  then show ?case using read_chunks_fetch [OF again(1,6,7)] again(5,7) fetch_reaches_trans by fastforce
qed (use read_chunks_fetch in blast)+

text \<open>Finishing takes two steps: the outcome is recorded, then the transfer's reference goes.\<close>

lemma finish_fetch_steps:
  assumes "\<not> fe_done (fy_fetch y)" and "fy_owner y = Starting \<or> fy_owner y = Streaming"
    and "fy_owner y = Streaming \<and> err = None \<longrightarrow> fe_written (fy_fetch y) = int (length (fy_file y)) \<and> sz = int (length (fy_file y))"
    and "fetch_finish d sz err (fy_fetch y) = (f, c)"
  shows "fetch_reaches y (y\<lparr>fy_fetch := f, fy_owner := Finished, fy_closes := fy_closes y + (if c then 1 else 0)\<rparr>)"
proof -
  obtain g where g: "finish_record d sz err (fy_fetch y) = Some g" using assms(1) by (simp add: finish_record_def)
  then have rel: "finish_release g = (f, c)" using assms(4) by (simp add: fetch_finish_def)
  let ?m = "y\<lparr>fy_fetch := g, fy_owner := Finishing\<rparr>"
  have 1: "fetch_step y ?m" by (rule fetch_step.finished [OF assms(2) g assms(3)])
  have "fetch_step ?m (?m\<lparr>fy_fetch := f, fy_owner := Finished, fy_closes := fy_closes ?m + (if c then 1 else 0)\<rparr>)"
    by (rule fetch_step.released) (simp_all add: rel)
  then show ?thesis using fetch_reaches.step [OF fetch_reaches.step [OF fetch_reaches.here 1]] by simp
qed

lemma commit_result_size:
  "writer_commit flt now st s w = (s', w', Inr (d, n)) \<Longrightarrow> n = w_written w \<and> w_hashed w' = w_hashed w"
  by (auto simp: writer_commit_def writer_commit_with_def commit_run_def Let_def split: if_splits sum.splits option.splits prod.splits)

lemma read_chunks_done: "read_chunks env room cs x = (x', r) \<Longrightarrow> fe_done (ss_fetch x') = fe_done (ss_fetch x)"
proof (induction cs arbitrary: x)
  case (Cons c cs)
  obtain s' w' r' n where w: "writer_write (se_accept env (nat (w_written (ss_writer x)))) (se_now env) (ss_fs x)
      (ss_writer x) c = (s', w', r', n)" by (metis prod_cases4)
  show ?case using Cons.prems w
    by (auto simp: Let_def fetch_advance_def broadcast_def split: if_splits sum.splits dest!: Cons.IH)
qed simp

lemma attempts_done:
  assumes "attempts env req len room a stalls resp x = (x', r)"
  shows "fe_done (ss_fetch x') = fe_done (ss_fetch x)"
  using assms by (induction rule: attempts_induct) (auto dest!: read_chunks_done)

lemma stream_done: "fe_done (sr_fetch (stream env req want p s f)) = fe_done f"
proof (cases rule: stream_cases [of env req want p s f])
  case (ran p1 resp s1 w x0 x1 r)
  obtain x2 z where a: "attempts env req (content_length resp) (xp_room want) 0 0 resp x0 = (x2, z)" by fastforce
  have "ss_fetch x1 = ss_fetch x2"
    using ran(6) a by (auto simp: transfer_def finish_stream_def split: sum.splits option.splits prod.splits)
  then show ?thesis using attempts_done [OF a] by (simp add: ran(5,7) publish_headers_def)
qed (simp add: refused_def)

lemma finish_outcome:
  "fetch_finish d n err f = (g, c) \<Longrightarrow> \<not> fe_done f \<Longrightarrow> fe_err g = err \<and> fe_digest g = d \<and> fe_size g = n"
  by (auto simp: fetch_finish_def finish_record_def finish_release_def release_def broadcast_def Let_def split: if_splits)

text \<open>
  C24. The transfer is what the readers' theorems assume of it. In every state of its fetch - with
  any readers attached in between, which the steps allow - running the transfer is a run of
  the fetch's steps to its finished state: it advertises only bytes already in the file, a
  success has advertised the whole file. The outcome readers are told is the transfer's own,
  or the cancellation that ended it, and the entry was published if and only if it succeeded.
\<close>

theorem run_fetch_refines:
  assumes y: "fy_owner y = Starting" "fy_fetch y = f" "fy_file y = []" "\<not> fe_done f" "fe_written f = 0"
    and run: "run_fetch env req want cancelled publish p s f cat = out"
  shows "(\<exists>y'. fetch_reaches y y' \<and> fy_fetch y' = ro_fetch out \<and> fy_owner y' = Finished \<and>
      fy_followers y' = fy_followers y \<and> fy_closes y' = fy_closes y + (if ro_closes out then 1 else 0)) \<and>
    (\<forall>e. sr_result (stream env req want p s (bind_cancel f)) = Inl e \<longrightarrow>
       fe_err (ro_fetch out) = Some (if cancelled then FeCancelled else e) \<and> ro_cat out = cat) \<and>
    (\<forall>d n. sr_result (stream env req want p s (bind_cancel f)) = Inr (d, n) \<longrightarrow>
       fe_err (ro_fetch out) = None \<and> fe_digest (ro_fetch out) = d \<and> fe_size (ro_fetch out) = n \<and> ro_cat out = publish d n cat)"
proof -
  let ?f = "bind_cancel f" and ?o = "stream env req want p s (bind_cancel f)"
  let ?y1 = "y\<lparr>fy_fetch := ?f\<rparr>"
  define r where "r = run_error env cancelled (sr_result ?o)"
  define d where "d = (case r of Inl _ \<Rightarrow> [] | Inr (d, n) \<Rightarrow> d)"
  define n where "n = (case r of Inl _ \<Rightarrow> 0 | Inr (d, n) \<Rightarrow> n)"
  define err where "err = (case r of Inl e \<Rightarrow> Some e | Inr _ \<Rightarrow> None)"
  obtain g c where g: "fetch_finish d n err (sr_fetch ?o) = (g, c)" by fastforce
  have o: "ro_fetch out = g" "ro_closes out = c" "ro_cat out = (case r of Inl _ \<Rightarrow> cat | Inr (d, n) \<Rightarrow> publish d n cat)"
    using g run by (auto simp: run_fetch_def Let_def r_def [symmetric] d_def n_def err_def split: sum.splits prod.splits)
  have 1: "fetch_reaches y ?y1"
    using fetch_reaches.step [OF fetch_reaches.here fetch_step.bound [of y]] y(2) by simp
  have errN: "err = None \<longleftrightarrow> (\<exists>dn. sr_result ?o = Inr dn)"
    by (auto simp: err_def r_def run_error_def split: sum.splits)
  have nd: "\<not> fe_done (sr_fetch ?o)" using stream_done [of env req want p s ?f] y(4) by (simp add: bind_cancel_def)
  have "\<exists>y'. fetch_reaches ?y1 y' \<and> fy_fetch y' = sr_fetch ?o \<and> fy_followers y' = fy_followers y \<and> fy_closes y' = fy_closes y \<and>
      (fy_owner y' = Starting \<or> fy_owner y' = Streaming) \<and>
      (fy_owner y' = Streaming \<and> err = None \<longrightarrow> fe_written (fy_fetch y') = int (length (fy_file y')) \<and> n = int (length (fy_file y')))"
  proof (cases rule: stream_cases [of env req want p s ?f])
    case (refused p1 e s')
    then show ?thesis using y errN by (intro exI [of _ ?y1]) (simp add: refused_def fetch_reaches.here)
  next
    case (ran p1 resp s1 w x0 x1 q)
    have w0: "w_written w = 0" "w_hashed w = []" "\<not> w_closed w" using writer_create_fresh [OF ran(4)] by simp_all
    have ok0: "ss_ok x0" using w0 y(5) by (simp add: ran(5) ss_ok_def publish_headers_def bind_cancel_def)
    let ?y2 = "?y1\<lparr>fy_owner := Streaming\<rparr>"
    have "fetch_step ?y1 (at_fetch ?y2 x0)"
      using fetch_step.headers [of ?y1 "content_length resp" "hdr_get (rs_headers resp) ''Content-Type''" "w_name w" "w_ino w"] y w0
      by (cases y) (simp add: at_fetch_def ran(5))
    then have 2: "fetch_reaches ?y1 (at_fetch ?y2 x0)" by (rule fetch_reaches.step [OF fetch_reaches.here])
    obtain x2 z where a: "attempts env req (content_length resp) (xp_room want) 0 0 resp x0 = (x2, z)" by fastforce
    have 3: "fetch_reaches (at_fetch ?y2 x0) (at_fetch ?y2 x2)"
      by (rule attempts_fetch [OF a ok0]) simp
    have fin: "ss_fetch x1 = ss_fetch x2"
      using ran(6) a by (auto simp: transfer_def finish_stream_def split: sum.splits option.splits prod.splits)
    have good: "fe_written (ss_fetch x2) = int (length (w_hashed (ss_writer x2))) \<and> n = int (length (w_hashed (ss_writer x2)))"
      if suc: "err = None"
    proof -
      obtain dn where "sr_result ?o = Inr dn" using suc errN by blast
      then have dn: "q = Inr dn" by (simp add: ran(7))
      then obtain fin where z: "z = Inr fin" and ff: "finish_stream env want (content_length resp) x2 = (x1, Inr dn)"
        using ran(6) a by (auto simp: transfer_def split: sum.splits)
      have ok2: "ss_ok x2" using attempts_data [OF a ok0 z] by blast
      obtain d' n' where dn': "dn = (d', n')" by fastforce
      have "n' = w_written (ss_writer x2)"
        using ff dn' by (auto simp: finish_stream_def split: option.splits prod.splits sum.splits dest: commit_result_size)
      moreover have "n = n'" using dn dn' ran(7) by (simp add: n_def r_def run_error_def)
      ultimately show ?thesis using ok2 by (simp add: ss_ok_def)
    qed
    show ?thesis
      using fetch_reaches_trans [OF 2 3] good fin by (intro exI [of _ "at_fetch ?y2 x2"]) (simp add: at_fetch_def ran(7))
  qed
  then obtain y' where y': "fetch_reaches ?y1 y'" "fy_fetch y' = sr_fetch ?o" "fy_followers y' = fy_followers y"
      "fy_closes y' = fy_closes y" "fy_owner y' = Starting \<or> fy_owner y' = Streaming"
      "fy_owner y' = Streaming \<and> err = None \<longrightarrow> fe_written (fy_fetch y') = int (length (fy_file y')) \<and> n = int (length (fy_file y'))"
    by blast
  let ?z = "y'\<lparr>fy_fetch := g, fy_owner := Finished, fy_closes := fy_closes y' + (if c then 1 else 0)\<rparr>"
  have "fetch_reaches y' ?z"
    by (rule finish_fetch_steps [OF _ y'(5,6)]) (use nd y'(2) g in simp_all)
  then have "fetch_reaches y ?z" using fetch_reaches_trans [OF 1] fetch_reaches_trans [OF y'(1)] by blast
  then have "\<exists>y'. fetch_reaches y y' \<and> fy_fetch y' = ro_fetch out \<and> fy_owner y' = Finished \<and>
      fy_followers y' = fy_followers y \<and> fy_closes y' = fy_closes y + (if ro_closes out then 1 else 0)"
    using y'(3,4) o by (intro exI [of _ ?z]) simp
  moreover have "fe_err g = err \<and> fe_digest g = d \<and> fe_size g = n" by (rule finish_outcome [OF g nd])
  ultimately show ?thesis using o by (auto simp: r_def run_error_def err_def d_def n_def)
qed

section \<open>Runs\<close>

text \<open>
  An origin that answers the first request with half a body and the second, a range request,
  with a partial answer of other content: another length, another start, another entity tag.
\<close>

definition ex_part :: "int \<Rightarrow> header \<Rightarrow> string \<Rightarrow> response" where
  "ex_part status h body = \<lparr>rs_status = status, rs_headers = h, rs_chunks = [body], rs_end = BodyEOF, rs_via = []\<rparr>"

definition ex_first :: response where
  "ex_first = ex_part 200 [(''Content-Length'', [''4'']), (''Etag'', [''one''])] ''ab''"

definition ex_second :: "header \<Rightarrow> response" where
  "ex_second h = ex_part 206 h ''XY''"

definition ex_flaky :: "header \<Rightarrow> net" where
  "ex_flaky h = ex_net\<lparr>nt_do := (\<lambda>n w. Inr (if n = 0 then ex_first else ex_second h))\<rparr>"

definition ex_env :: "header \<Rightarrow> stream_env" where
  "ex_env h = \<lparr>se_net = ex_flaky h, se_faults = no_faults, se_store = ex_store, se_now = 5, se_temp = ''1'',
     se_accept = (\<lambda>_. 99), se_ctx_done = (\<lambda>_. False), se_cause = FeContext, se_over = (\<lambda>_. FeCommitted)\<rparr>"

definition ex_want :: expect where
  "ex_want = \<lparr>xp_digest = [], xp_size = 0, xp_room = 0\<rparr>"

lemma ex_parts: "rs_status ex_first = 200" "rs_status (ex_second h) = 206" "rs_chunks ex_first = [''ab'']"
  "rs_chunks (ex_second h) = [''XY'']" "rs_end ex_first = BodyEOF" "rs_end (ex_second h) = BodyEOF"
  "content_length ex_first = 4"
  by (simp_all add: ex_first_def ex_second_def ex_part_def) code_simp

lemma ex_open1: "\<exists>p1. pool_open (ex_flaky h) ex_request ex_pool = (p1, Inr ex_first) \<and> pl_sent p1 \<noteq> []"
  by (simp add: pool_open_def open_chain_def attempts_of_def ex_request_def ex_flaky_def ex_net_def ex_pool_def open_one_def
      pool_do_def send_def transport_retries_def numeral_2_eq_2 passes_on_def ex_parts)

lemma ex_open2: "pl_sent p \<noteq> [] \<Longrightarrow> \<exists>p2. resume (ex_flaky h) ex_request n p = (p2, Inr (ex_second h))"
  by (simp add: resume_def resume_request_def pool_open_def open_chain_def attempts_of_def ex_request_def ex_flaky_def
      ex_net_def open_one_def pool_do_def send_def transport_retries_def numeral_2_eq_2 passes_on_def ex_parts)

lemma ex_env_sel: "se_net (ex_env h) = ex_flaky h" "se_faults (ex_env h) = no_faults" "se_store (ex_env h) = ex_store"
  "se_now (ex_env h) = 5" "se_temp (ex_env h) = ''1''" "se_accept (ex_env h) n = 99" "\<not> se_ctx_done (ex_env h) a"
  by (simp_all add: ex_env_def)

lemma ex_commit_any:
  assumes "fs_names s = [([''data'', ''blobs'', ''staging'', ''1.part''], 0)]" and "set (fs_dirs s) = set (fs_dirs ex_fs)"
  shows "snd (snd (writer_commit no_faults 5 ex_store s (ex_writer\<lparr>w_hashed := m, w_written := n\<rparr>))) = Inr (digest_bytes m, n)"
proof -
  let ?d = "digest_bytes m"
  have p: "store_path ex_store ?d = Inr [''data'', ''blobs'', ''sha256'', take 2 ?d, take 2 (drop 2 ?d), ?d]"
    by (simp add: store_path_valid ex_store_def)
  show ?thesis
    by (simp add: writer_commit_def writer_commit_with_def commit_run_def Let_def ex_writer_def writer_digest_def p mkdir_all_def
        lookup_name_def fsync_inode_def set_inode_def path_dir_def publish_name_def os_link_def os_chmod_def assms ex_dirs)
qed

lemma ex_stream_any:
  assumes env: "se_net env = ex_flaky h" "se_faults env = no_faults" "se_store env = ex_store" "se_now env = 5"
    "se_temp env = ''1''" "\<And>n. se_accept env n = 99" "\<And>a. \<not> se_ctx_done env a"
  shows "sr_result (stream env ex_request ex_want ex_pool ex_fs f) = Inr (digest_bytes ''abXY'', 4)"
proof -
  obtain p1 where p1: "pool_open (ex_flaky h) ex_request ex_pool = (p1, Inr ex_first)" "pl_sent p1 \<noteq> []"
    using ex_open1 by blast
  obtain p2 where p2: "resume (ex_flaky h) ex_request 2 p1 = (p2, Inr (ex_second h))" using ex_open2 [OF p1(2)] by blast
  let ?w = "ex_writer\<lparr>w_hashed := [], w_written := 0\<rparr>"
  obtain s1 where c: "writer_create no_faults ex_store ex_fs ''1'' 5 = (s1, Inr ?w)" using ex_created by metis
  have s1: "fs_names s1 = [([''data'', ''blobs'', ''staging'', ''1.part''], 0)]" "fs_dirs s1 = fs_dirs ex_fs"
    using c by (auto simp: writer_create_def Let_def ex_store_def new_file_def ex_dirs split: if_splits)
  let ?f = "publish_headers 4 (hdr_get (rs_headers ex_first) ''Content-Type'') (w_name ?w) (w_ino ?w) f"
  define x0 where "x0 = \<lparr>ss_pool = p1, ss_fs = s1, ss_fetch = ?f, ss_writer = ?w, ss_events = [(''start'', 4)]\<rparr>"
  obtain x1 where r1: "read_chunks env 0 [''ab''] x0 = (x1, Inr ())" and x1: "ss_pool x1 = p1"
      "ss_writer x1 = ex_writer\<lparr>w_hashed := ''ab'', w_written := 2\<rparr>"
    by (simp add: env writer_write_def ex_writer_def Let_def x0_def)
  obtain x2 where r2: "read_chunks env 0 [''XY''] (x1\<lparr>ss_pool := p2\<rparr>) = (x2, Inr ())"
      and x2: "ss_writer x2 = ex_writer\<lparr>w_hashed := ''abXY'', w_written := 4\<rparr>"
    using x1 by (simp add: env writer_write_def ex_writer_def Let_def)
  have wr: "w_written (ss_writer x0) = 0" "w_written (ss_writer x1) = 2" "w_written (ss_writer x2) = 4"
    by (simp_all add: x0_def x1 x2)
  have "attempts env ex_request 4 0 (Suc 0) (Suc 0) (ex_second h) (x1\<lparr>ss_pool := p2\<rparr>) = (x2, Inr (ex_second h))"
    by (subst attempts.simps) (simp add: ex_parts r2 wr env Let_def del: read_chunks.simps)
  then have a: "attempts env ex_request 4 0 0 0 ex_first x0 = (x2, Inr (ex_second h))"
    by (subst attempts.simps)
      (simp add: ex_parts r1 x1 p2 env Let_def wr resumable_def next_stalls_def resume_progress_def
         max_resume_attempts_def del: read_chunks.simps)
  have v: "verify_content ex_want 4 (ss_writer x2) = None" by (simp add: verify_None ex_want_def x2)
  have "fs_names (ss_fs x2) = fs_names s1" "fs_dirs (ss_fs x2) = fs_dirs s1"
    using attempts_steps [OF a] by (simp_all add: x0_def)
  then have "snd (snd (writer_commit no_faults 5 ex_store (ss_fs x2) (ss_writer x2))) = Inr (digest_bytes ''abXY'', 4)"
    unfolding x2 by (intro ex_commit_any) (simp_all add: s1)
  then have "snd (finish_stream env ex_want 4 x2) = Inr (digest_bytes ''abXY'', 4)"
    by (auto simp: finish_stream_def v env split: prod.splits sum.splits)
  then have "snd (transfer env ex_request ex_want ex_first x0) = Inr (digest_bytes ''abXY'', 4)"
    by (simp add: transfer_def ex_parts ex_want_def a)
  then obtain x3 where t: "transfer env ex_request ex_want ex_first x0 = (x3, Inr (digest_bytes ''abXY'', 4))"
    by (metis prod.collapse)
  show ?thesis
    using t c p1(1) by (simp add: stream_def env ex_parts ex_want_def x0_def Let_def split: prod.splits)
qed

lemma ex_stream:
  "sr_result (stream (ex_env h) ex_request ex_want ex_pool ex_fs f) = Inr (digest_bytes ''abXY'', 4)"
  by (rule ex_stream_any) (simp_all add: ex_env_sel)


lemma ex_rest: "store_wf ex_store" "sys_inv ex_store \<lparr>bs_fs = ex_fs, bs_writers = (\<lambda>_. None)\<rparr>" "digest_free_dirs ex_store ex_fs"
proof -
  show "store_wf ex_store" using store_open_wf [OF ex_open] by simp
  show "sys_inv ex_store \<lparr>bs_fs = ex_fs, bs_writers = (\<lambda>_. None)\<rparr>"
    by (rule sys_inv_no_writers) (simp add: fs_inv_def lookup_name_def ex_dirs)
  show "digest_free_dirs ex_store ex_fs"
    by (auto simp: digest_free_dirs_def ex_dirs ex_store_def under_def)
qed



theorem stream_runs_store_witness:
  "\<exists>w. blob_reaches ex_store \<lparr>bs_fs = ex_fs, bs_writers = (\<lambda>_. None)\<rparr>
     \<lparr>bs_fs = sr_fs (stream (ex_env []) ex_request ex_want ex_pool ex_fs (new_fetch ''k'' ''pypi'')), bs_writers = (\<lambda>_. None)(0 := w)\<rparr>"
  using stream_runs_store [of "\<lambda>_. None" 0 "ex_env []" ex_fs ex_request ex_want ex_pool "new_fetch ''k'' ''pypi''"]
  by (auto simp: ex_env_sel)

theorem run_fetch_refines_witness:
  "fe_err (ro_fetch (run_fetch (ex_env []) ex_request ex_want False (\<lambda>d n xs. (d, n) # xs) ex_pool ex_fs (new_fetch ''k'' ''pypi'') [])) = None"
proof -
  have b: "sr_result (stream (ex_env []) ex_request ex_want ex_pool ex_fs (bind_cancel (new_fetch ''k'' ''pypi''))) =
      Inr (digest_bytes ''abXY'', 4)" by (rule ex_stream)
  show ?thesis
    using run_fetch_refines [of "fetch_init ''k'' ''pypi''" "new_fetch ''k'' ''pypi''" "ex_env []" ex_request ex_want False
        "\<lambda>d n xs. (d, n) # xs" ex_pool ex_fs "[]" _, OF _ _ _ _ _ refl] b
    by (simp add: fetch_init_def new_fetch_def)
qed

end
