(* ===== verification/DocumentSpec.thy ===== *)
theory DocumentSpec
  imports Document CatalogSpec StreamingSpec
begin

text \<open>
  What a document call returns and when it asks an origin: the bytes match their digest and
  the caller's expectations, a copy that can be served is served without a request or in
  spite of a failing one, the number of requests is bounded, and what a crash between the
  queued entry and the written pointer does.
\<close>

section \<open>Requests\<close>

lemma store_bytes_frame:
  "store_bytes env body g = (g', r) \<Longrightarrow> eg_pool g' = eg_pool g \<and> eg_cat g' = eg_cat g"
  by (auto simp: store_bytes_def split: prod.splits sum.splits)

lemma load_document_pool: "load_document env k g = (g', d) \<Longrightarrow> eg_pool g' = eg_pool g \<and> eg_fs g' = eg_fs g"
  by (auto simp: load_document_def split: prod.splits sum.splits if_splits)

lemma put_doc_ref_frame [simp]:
  "eg_pool (put_doc_ref env k t m s resp ttl g) = eg_pool g" "eg_fs (put_doc_ref env k t m s resp ttl g) = eg_fs g"
  by (simp_all add: put_doc_ref_def)

lemma keep_document_pool: "keep_document env spec resp body g = (g', r) \<Longrightarrow> eg_pool g' = eg_pool g"
  by (auto simp: keep_document_def Let_def split: if_splits prod.splits sum.splits dest: store_bytes_frame)

lemma doc_read_adds:
  "doc_read env spec req limit n resp p = (p', r) \<Longrightarrow>
     length (pl_sent p') \<le> length (pl_sent p) + n * (5 * Suc (length (rq_fallbacks req)))"
proof (induction n arbitrary: resp p)
  case 0
  then show ?case by (simp add: doc_read.simps split: option.splits)
next
  case (Suc n)
  obtain q y where q: "pool_open (ee_net env) (retry_request req) p = (q, y)" by fastforce
  have l: "length (pl_sent q) \<le> length (pl_sent p) + 5 * Suc (length (rq_fallbacks req))"
    using pool_open_adds [OF q] by (simp add: retry_request_def)
  show ?case
    using Suc.prems q l by (subst (asm) doc_read.simps) (fastforce split: option.splits sum.splits if_splits dest: Suc.IH)
qed

text \<open>A document call as the load of its cached copy and a decision over it.\<close>

definition serves_cached :: "engine_env \<Rightarrow> doc_spec \<Rightarrow> engine_state \<Rightarrow> bool" where
  "serves_cached env spec g \<longleftrightarrow> snd (doc_cached env spec g) \<noteq> None \<and>
     (ds_immutable spec \<or> (case doc_ref spec g of Some r \<Rightarrow> ref_fresh r (ee_now env) | None \<Rightarrow> False))"

lemma document_cases:
  assumes "document_call env spec g = (g', r)"
  obtains (cached) d where "snd (doc_cached env spec g) = Some d" "serves_cached env spec g" "g' = fst (doc_cached env spec g)"
      "r = Inr (d\<lparr>dc_from_cache := True\<rparr>)"
  | (offline) "\<not> serves_cached env spec g" "engine_offline (ee_cfg env) (ds_project spec)" "g' = fst (doc_cached env spec g)"
      "r = stale_or (snd (doc_cached env spec g)) DocNotCached"
  | (fetch) "\<not> serves_cached env spec g" "\<not> engine_offline (ee_cfg env) (ds_project spec)"
      "fetch_document env spec (doc_ref spec g) (snd (doc_cached env spec g)) (fst (doc_cached env spec g)) = (g', r)"
proof -
  obtain g1 c where c: "doc_cached env spec g = (g1, c)" by fastforce
  define fresh where "fresh = (case doc_ref spec g of Some r \<Rightarrow> ref_fresh r (ee_now env) | None \<Rightarrow> False)"
  have e: "(g', r) = (case c of
        Some d \<Rightarrow> if ds_immutable spec then (g1, Inr (d\<lparr>dc_from_cache := True\<rparr>))
                    else if fresh then (g1, Inr (d\<lparr>dc_from_cache := True\<rparr>))
                    else if engine_offline (ee_cfg env) (ds_project spec)
                    then (g1, Inr (d\<lparr>dc_from_cache := True, dc_stale := True\<rparr>))
                    else fetch_document env spec (doc_ref spec g) c g1
      | None \<Rightarrow> if engine_offline (ee_cfg env) (ds_project spec) then (g1, Inl DocNotCached)
                    else fetch_document env spec (doc_ref spec g) c g1)"
    using assms unfolding document_call_def fresh_def c prod.case by (rule sym)
  have s: "serves_cached env spec g \<longleftrightarrow> c \<noteq> None \<and> (ds_immutable spec \<or> fresh)"
    by (simp add: serves_cached_def c fresh_def)
  show ?thesis
  proof (cases "serves_cached env spec g")
    case True
    then obtain d where d: "c = Some d" "ds_immutable spec \<or> fresh" using s by blast
    then have "(g', r) = (g1, Inr (d\<lparr>dc_from_cache := True\<rparr>))" using e by (simp split: if_splits)
    then show ?thesis using True d c by (intro cached [of d]) simp_all
  next
    case False
    show ?thesis
    proof (cases "engine_offline (ee_cfg env) (ds_project spec)")
      case True
      have "(g', r) = (g1, stale_or c DocNotCached)"
        unfolding e using False True s by (auto simp only: stale_or_def split: option.split if_split)
      then show ?thesis using False True c by (intro offline) simp_all
    next
      case on: False
      have "(g', r) = fetch_document env spec (doc_ref spec g) c g1"
      proof (cases c)
        case None
        then show ?thesis unfolding e using on by (simp only: option.case if_False)
      next
        case (Some d)
        then have "\<not> ds_immutable spec" "\<not> fresh" using False s by blast+
        then show ?thesis unfolding e using on Some by (simp only: option.case if_False)
      qed
      then show ?thesis using False on c by (intro fetch) simp_all
    qed
  qed
qed

lemma doc_cached_frame: "eg_pool (fst (doc_cached env spec g)) = eg_pool g \<and> eg_fs (fst (doc_cached env spec g)) = eg_fs g"
proof -
  obtain g1 d where d: "load_document env (EntryKey (ds_project spec) (ds_eco spec) (doc_key spec)) g = (g1, d)" by fastforce
  show ?thesis using load_document_pool [OF d] by (simp add: doc_cached_def d)
qed

lemma doc_request_fallbacks [simp]: "rq_fallbacks (doc_request spec ref c) = ds_fallbacks spec"
  by (simp add: doc_request_def Let_def)

lemma fetch_document_adds:
  assumes "fetch_document env spec ref cached g = (g', r)"
  shows "length (pl_sent (eg_pool g')) \<le> length (pl_sent (eg_pool g)) + 15 * Suc (length (ds_fallbacks spec))"
proof -
  let ?req = "doc_request spec ref (cached \<noteq> None)" and ?C = "5 * Suc (length (ds_fallbacks spec))"
  obtain p y where p: "pool_open (ee_net env) ?req (eg_pool g) = (p, y)" by fastforce
  have l: "length (pl_sent p) \<le> length (pl_sent (eg_pool g)) + ?C" using pool_open_adds [OF p] by simp
  show ?thesis
  proof (cases y)
    case (Inl e)
    then show ?thesis using assms p l by (auto simp: fetch_document_def Let_def)
  next
    case (Inr resp)
    obtain p2 z where q: "doc_read env spec ?req (doc_limit spec) (document_attempts - 1) resp p = (p2, z)" by fastforce
    have m: "length (pl_sent p2) \<le> length (pl_sent p) + 2 * ?C"
      using doc_read_adds [OF q] by (simp add: document_attempts_def)
    have "eg_pool g' = p \<or> eg_pool g' = p2"
      using assms p Inr q
      by (auto simp: fetch_document_def Let_def split: if_splits sum.splits prod.splits dest!: keep_document_pool)
    then show ?thesis using l m by auto
  qed
qed


section \<open>What is returned\<close>

text \<open>A stored buffer's digest is its own; a loaded copy's digest is that of its bytes.\<close>

lemma store_bytes_digest:
  assumes "store_bytes env body g = (g', Inr d)"
  shows "d = digest_bytes body"
proof -
  obtain s1 w where c: "writer_create (ee_faults env) (ee_store env) (eg_fs g) (ee_temp env (eg_fs g)) (ee_now env) = (s1, Inr w)"
    using assms by (auto simp: store_bytes_def split: prod.splits sum.splits)
  obtain s2 w2 n where w: "writer_write (ee_accept env 0) (ee_now env) s1 w body = (s2, w2, Inr (), n)"
    using assms c by (auto simp: store_bytes_def split: prod.splits sum.splits)
  obtain s3 w3 m where d: "writer_commit (ee_faults env) (ee_now env) (ee_store env) s2 w2 = (s3, w3, Inr (d, m))"
    using assms c w by (auto simp: store_bytes_def split: prod.splits sum.splits)
  show ?thesis
    using commit_digest [OF d] write_ok [OF w] writer_create_fresh [OF c] by (simp add: writer_digest_def)
qed

lemma blob_open_digest:
  assumes "fs_inv st s" and "blob_open flt st s d = Inr (body, m)"
  shows "digest_bytes body = d"
proof -
  obtain p i where p: "store_path st d = Inr p" and i: "lookup_name s p = Some i" "body = ino_data (fs_inodes s i)"
    using assms(2) by (auto simp: blob_open_def split: sum.splits option.splits if_splits)
  have "store_path st (digest_bytes body) = Inr p"
    using assms(1) i store_path_under [OF p] by (simp add: fs_inv_def)
  then show ?thesis using store_path_inj [OF _ p] by blast
qed

lemma load_document_ok:
  assumes "load_document env k g = (g', Some d)" and "fs_inv (ee_store env) (eg_fs g)"
  shows "dc_digest d = digest_bytes (dc_body d) \<and> \<not> dc_from_cache d \<and> \<not> dc_revalidated d"
  using assms blob_open_digest [OF assms(2)]
  by (auto simp: load_document_def split: prod.splits sum.splits if_splits)

lemma doc_cached_ok:
  assumes "fs_inv (ee_store env) (eg_fs g)" and "snd (doc_cached env spec g) = Some d"
  shows "dc_digest d = digest_bytes (dc_body d)"
  using assms load_document_ok [of env "EntryKey (ds_project spec) (ds_eco spec) (doc_key spec)" g]
  by (fastforce simp: doc_cached_def split: prod.splits option.splits)

definition meets :: "doc_spec \<Rightarrow> string \<Rightarrow> bool" where
  "meets spec body \<longleftrightarrow> int (length body) \<le> doc_limit spec \<and>
     (xp_size (ds_expect spec) > 0 \<longrightarrow> int (length body) = xp_size (ds_expect spec)) \<and>
     (xp_digest (ds_expect spec) \<noteq> [] \<longrightarrow> digest_bytes body = xp_digest (ds_expect spec))"

lemma keep_document_cases:
  assumes "keep_document env spec resp body g = (g', r)"
  obtains (bad) e where "r = Inl e" "e \<in> {DocTooLarge (doc_limit spec), DocExpectSize, DocExpectDigest}" "g' = g" "\<not> meets spec body"
  | (store) e where "r = Inl (DocEngine e)" "store_bytes env body g = (g', Inl e)" "meets spec body"
  | (kept) g1 where "store_bytes env body g = (g1, Inr (digest_bytes body))" "meets spec body"
      "r = Inr \<lparr>dc_body = body, dc_media = hdr_get (rs_headers resp) ''Content-Type'', dc_digest = digest_bytes body,
         dc_from_cache = False, dc_revalidated = False, dc_stale = False, dc_source = rs_via resp\<rparr>"
      "eg_pool g' = eg_pool g" "eg_fs g' = eg_fs g1"
      "eg_cat g' = (let c = fst (put_entry (ee_now env) (new_entry env (EntryKey (ds_project spec) (ds_eco spec) (doc_key spec))
           (digest_bytes body) (int (length body)) (hdr_get (rs_headers resp) ''Content-Type'')) (eg_cat g))
         in if ds_immutable spec then c
            else eg_cat (put_doc_ref env (RefKey (ds_project spec) (ds_eco spec) (ds_name spec)) (digest_bytes body)
                   (hdr_get (rs_headers resp) ''Content-Type'') (rs_via resp) resp (ds_ttl spec) (g1\<lparr>eg_cat := c\<rparr>)))"
proof (cases "meets spec body")
  case False
  have "g' = g \<and> (\<exists>e. r = Inl e \<and> e \<in> {DocTooLarge (doc_limit spec), DocExpectSize, DocExpectDigest})"
    using assms False by (auto simp: keep_document_def meets_def split: if_splits)
  then show ?thesis using bad False by blast
next
  case True
  obtain g1 y where s: "store_bytes env body g = (g1, y)" by fastforce
  have m: "\<not> int (length body) > doc_limit spec"
    "\<not> (xp_size (ds_expect spec) > 0 \<and> int (length body) \<noteq> xp_size (ds_expect spec))"
    "\<not> (xp_digest (ds_expect spec) \<noteq> [] \<and> digest_bytes body \<noteq> xp_digest (ds_expect spec))"
    using True by (auto simp: meets_def)
  show ?thesis
  proof (cases y)
    case (Inl e)
    then have "g' = g1 \<and> r = Inl (DocEngine e)"
      using assms s unfolding keep_document_def if_not_P [OF m(1)] if_not_P [OF m(2)] if_not_P [OF m(3)] by simp
    then show ?thesis using store [of e] s Inl True by simp
  next
    case (Inr d)
    have d: "d = digest_bytes body" by (rule store_bytes_digest [OF s [unfolded Inr]])
    note fr = store_bytes_frame [OF s]
    show ?thesis
      by (rule kept [of g1])
        (use assms s Inr d True fr in \<open>auto simp: keep_document_def if_not_P [OF m(1)] if_not_P [OF m(2)] if_not_P [OF m(3)] Let_def
           put_doc_ref_def split: if_splits\<close>)
  qed
qed

lemma get_entry_open: "get_entry flt k c = (c', r) \<Longrightarrow> ct_closed c' = ct_closed c"
  by (auto simp: get_entry_def get_fast_def get_fill_def Let_def split: option.splits prod.splits sum.splits)

lemma doc_cached_cat:
  assumes "cat_ok (eg_cat g)"
  shows "cat_ok (eg_cat (fst (doc_cached env spec g))) \<and> ct_closed (eg_cat (fst (doc_cached env spec g))) = ct_closed (eg_cat g)"
proof -
  let ?k = "EntryKey (ds_project spec) (ds_eco spec) (doc_key spec)"
  obtain c x where ge: "get_entry (ee_db env CallGet) ?k (eg_cat g) = (c, x)" by fastforce
  have ok: "cat_ok c" "ct_closed c = ct_closed (eg_cat g)"
    using get_entry_spec [OF assms ge] get_entry_open [OF ge] by simp_all
  obtain c2 y where d: "delete_entry (ee_db env CallDelete) ?k c = (c2, y)" by fastforce
  have "cat_ok c2" "ct_closed c2 = ct_closed c"
    using delete_entry_spec [OF ok(1) d] d by (auto simp: delete_entry_def in_tx_def split: if_splits)
  then show ?thesis using ge ok d
    by (auto simp: doc_cached_def load_document_def split: sum.splits prod.splits)
qed

lemma put_ref_view: "put_ref flt now r c = (c', x) \<Longrightarrow> cat_view c' = cat_view c"
  by (auto simp: put_ref_def in_tx_def cat_view_def intro!: arg_cong2 [of _ _ _ _ "(++)"] rows_view_cong split: if_splits)

lemma put_entry_view:
  assumes "cat_ok c" and "\<not> ct_closed c" and "digest_valid d"
  shows "cat_view (fst (put_entry now (new_entry env k d n m) c)) k = Some (d, n, m)"
proof -
  obtain c' w r where p: "put_entry now (new_entry env k d n m) c = (c', w, r)" by (metis prod_cases3)
  show ?thesis using put_entry_spec [OF assms(1) p] assms unfolding p by (simp add: new_entry_def en_content_def)
qed

lemma store_bytes_error: "store_bytes env body g = (g', Inl e) \<Longrightarrow> \<exists>x. e = FeBlob x"
  by (auto simp: store_bytes_def split: prod.splits sum.splits)

text \<open>How a fetch can end.\<close>

lemma fetch_document_cases:
  assumes "fetch_document env spec ref cached g = (g', r)"
  obtains (stale) e where "r = stale_or cached e"
  | (unchanged) d resp p where "cached = Some d" "pool_open (ee_net env) (doc_request spec ref True) (eg_pool g) = (p, Inr resp)"
      "rs_status resp = 304" "r = Inr (d\<lparr>dc_revalidated := True\<rparr>)"
  | (new) resp body p2 where "keep_document env spec resp body (g\<lparr>eg_pool := p2\<rparr>) = (g', r)"
proof -
  let ?req = "doc_request spec ref (cached \<noteq> None)"
  obtain p y where p: "pool_open (ee_net env) ?req (eg_pool g) = (p, y)" by fastforce
  show ?thesis
  proof (cases y)
    case (Inl e)
    then have "r = stale_or cached (DocEngine (FeUpstream e))" using assms p by (simp add: fetch_document_def Let_def)
    then show ?thesis by (rule stale)
  next
    case (Inr resp)
    note p = p [unfolded Inr]
    show ?thesis
    proof (cases "rs_status resp = 304 \<and> cached \<noteq> None")
      case True
      then obtain d where d: "cached = Some d" by blast
      have "r = Inr (d\<lparr>dc_revalidated := True\<rparr>)" using assms p True d by (simp add: fetch_document_def Let_def)
      then show ?thesis using unchanged [OF d] p True d by simp
    next
      case no304: False
      show ?thesis
      proof (cases "rs_status resp = 200")
        case False
        then have "r = stale_or cached (DocEngine (FeUpstreamStatus (ds_url spec) (rs_status resp)))"
          using assms p no304 by (simp add: fetch_document_def Let_def split: if_splits)
        then show ?thesis by (rule stale)
      next
        case True
        obtain p2 z where q: "doc_read env spec ?req (doc_limit spec) (document_attempts - 1) resp p = (p2, z)" by fastforce
        have e: "(g', r) = (case z of Inl e \<Rightarrow> (g\<lparr>eg_pool := p2\<rparr>, stale_or cached e)
            | Inr (rsp, body) \<Rightarrow> keep_document env spec rsp body (g\<lparr>eg_pool := p2\<rparr>))"
          using assms p no304 True q by (auto simp: fetch_document_def Let_def split: sum.splits)
        show ?thesis
        proof (cases z)
          case (Inl x)
          then show ?thesis using e stale by simp
        next
          case (Inr rb)
          then show ?thesis using e new by (cases rb) simp
        qed
      qed
    qed
  qed
qed

text \<open>
  C28. A document is what its digest says. Whatever path a call takes, the bytes it returns have
  the digest it reports. If they were fetched, they are within the size cap and meet the
  declared size and digest, and the cache entry of the document now holds exactly them; if
  not, they are the cached copy's bytes.
\<close>

theorem document_verified:
  assumes "fs_inv (ee_store env) (eg_fs g)" and cat: "cat_ok (eg_cat g)" "\<not> ct_closed (eg_cat g)"
    and "document_call env spec g = (g', Inr d)"
  shows "dc_digest d = digest_bytes (dc_body d) \<and>
    ((\<exists>c. snd (doc_cached env spec g) = Some c \<and> dc_body d = dc_body c \<and> (dc_from_cache d \<or> dc_revalidated d)) \<or>
     \<not> dc_from_cache d \<and> \<not> dc_revalidated d \<and> meets spec (dc_body d) \<and>
     cat_view (eg_cat g') (EntryKey (ds_project spec) (ds_eco spec) (doc_key spec)) =
       Some (dc_digest d, int (length (dc_body d)), dc_media d))"
  using assms(4)
proof (cases rule: document_cases)
  case (cached c)
  then show ?thesis using doc_cached_ok [OF assms(1), of spec c] by simp
next
  case offline
  then show ?thesis using doc_cached_ok [OF assms(1), of spec]
    by (auto simp: stale_or_def split: option.splits)
next
  case fetch
  note C = doc_cached_cat [OF cat(1), of env spec]
  from fetch(3) show ?thesis
  proof (cases rule: fetch_document_cases)
    case (stale e)
    then show ?thesis using doc_cached_ok [OF assms(1), of spec]
      by (auto simp: stale_or_def split: option.splits)
  next
    case (unchanged c resp p)
    then show ?thesis using doc_cached_ok [OF assms(1), of spec c] by simp
  next
    case (new resp body p2)
    let ?g = "fst (doc_cached env spec g)\<lparr>eg_pool := p2\<rparr>" and ?k = "EntryKey (ds_project spec) (ds_eco spec) (doc_key spec)"
    let ?m = "hdr_get (rs_headers resp) ''Content-Type''" and ?d = "digest_bytes body"
    from new show ?thesis
    proof (cases rule: keep_document_cases)
      case (kept g1)
      let ?c = "fst (put_entry (ee_now env) (new_entry env ?k ?d (int (length body)) ?m) (eg_cat ?g))"
      have v: "cat_view ?c ?k = Some (?d, int (length body), ?m)"
        by (rule put_entry_view) (use C cat in simp_all)
      have "cat_view (eg_cat g') = cat_view ?c"
        unfolding kept(6) by (simp add: Let_def put_doc_ref_def put_ref_view [OF prod.collapse [symmetric]])
      then show ?thesis using v kept(2,3) by simp
    qed simp_all
  qed
qed

text \<open>
  C29. A failing origin does not take a cached document away. When a copy is held, a call fails
  only because the origin delivered something else in full - over the size cap, or not the
  size or digest declared - or because the store could not keep it; every connection error,
  error status and broken transfer is answered with the copy.
\<close>

theorem document_available:
  assumes "document_call env spec g = (g', Inl e)" and "snd (doc_cached env spec g) = Some c"
  shows "e = DocTooLarge (doc_limit spec) \<or> e = DocExpectSize \<or> e = DocExpectDigest \<or> (\<exists>x. e = DocEngine (FeBlob x))"
  using assms(1)
proof (cases rule: document_cases)
  case offline
  then show ?thesis using assms(2) by (simp add: stale_or_def)
next
  case fetch
  from fetch(3) show ?thesis
  proof (cases rule: fetch_document_cases)
    case (new resp body p2)
    from new show ?thesis by (cases rule: keep_document_cases) (auto dest: store_bytes_error)
  qed (use assms(2) in \<open>simp_all add: stale_or_def\<close>)
qed simp

section \<open>A crash between the entry and its pointer\<close>

lemma put_entry_db: "put_entry now e c = (c', w, r) \<Longrightarrow> ct_db c' = ct_db c"
  by (auto simp: put_entry_def Let_def split: if_splits)

lemma put_ref_row:
  assumes "put_ref NoFault now r c = (c', x)"
  shows "map_of (db_refs (ct_db c')) (rf_key r) = Some (ref_stored now r) \<and> db_entries (ct_db c') = db_entries (ct_db c)"
  using assms by (auto simp: put_ref_def in_tx_def upsert_def split: option.splits)

lemma reopened_get:
  assumes "map_of (db_entries d) k = Some e"
  shows "snd (get_entry NoFault k (catalog_open b n d)) = Inr (e\<lparr>en_key := k\<rparr>)"
  by (simp add: get_entry_def get_fast_def catalog_open_def new_entry_cache_def cache_get_def get_row_def assms Let_def)

definition crashed :: "int \<Rightarrow> int \<Rightarrow> engine_state \<Rightarrow> engine_state" where
  "crashed b n g = g\<lparr>eg_cat := catalog_open b n (ct_db (eg_cat g))\<rparr>"

lemma hdr_get_set: "hdr_get (hdr_set k v h) j = (if canonical_key j = canonical_key k then v else hdr_get h j)"
  by (simp add: hdr_get_def hdr_set_def)

lemma validator_sent:
  "rf_etag r \<noteq> [] \<Longrightarrow> hdr_get (rq_headers (doc_request spec (Some r) True)) ''If-None-Match'' = rf_etag r"
proof -
  assume "rf_etag r \<noteq> []"
  moreover have "canonical_key ''If-None-Match'' \<noteq> canonical_key ''If-Modified-Since''" by code_simp
  ultimately show ?thesis by (simp add: doc_request_def Let_def hdr_get_set)
qed

text \<open>
  C31. A crash can pin an old document under a new validator. The entry of a document that changed
  is queued, its pointer - with the new ETag and a new lease - is written at once. When the
  process dies between the two, the restarted cache holds the new pointer and the old bytes:
  it serves the old bytes as fresh, without asking; and when the lease has run out it asks
  with the new ETag, so the origin truthfully answers 304, and the old bytes are kept and
  their lease renewed - for as long as the document does not change again.
\<close>

theorem crash_pins_old_document:
  assumes keep: "keep_document env spec resp body g = (g', Inr d)" and "\<not> ds_immutable spec" and "ee_db env CallRef = NoFault"
    and old: "map_of (db_entries (ct_db (eg_cat g))) (EntryKey (ds_project spec) (ds_eco spec) (doc_key spec)) = Some e"
    and blob: "blob_open (ee_faults later) (ee_store later) (eg_fs g') (en_digest e) = Inr (obody, m)"
    and ok: "\<not> ee_faults later SysCopy" "ee_db later CallGet = NoFault"
    and h: "h = crashed b n g'"
  shows "\<exists>r. doc_ref spec h = Some r \<and> rf_target r = dc_digest d \<and> rf_etag r = hdr_get (rs_headers resp) ''ETag'' \<and>
    rf_fetched r = col_time (ee_now env) \<and> rf_ttl r = quot10 (ds_ttl spec) * second \<and>
    (ref_fresh r (ee_now later) \<longrightarrow>
       (\<exists>h' c. document_call later spec h = (h', Inr c) \<and> dc_body c = obody \<and> dc_from_cache c \<and> \<not> dc_stale c)) \<and>
    (rf_etag r \<noteq> [] \<longrightarrow> hdr_get (rq_headers (doc_request spec (Some r) True)) ''If-None-Match'' = rf_etag r) \<and>
    (\<not> ref_fresh r (ee_now later) \<and> \<not> engine_offline (ee_cfg later) (ds_project spec) \<and>
     (\<exists>p again. pool_open (ee_net later) (doc_request spec (Some r) True) (eg_pool h) = (p, Inr again) \<and> rs_status again = 304) \<longrightarrow>
       (\<exists>h' c. document_call later spec h = (h', Inr c) \<and> dc_body c = obody \<and> dc_revalidated c))"
proof -
  let ?k = "EntryKey (ds_project spec) (ds_eco spec) (doc_key spec)"
  let ?rk = "RefKey (ds_project spec) (ds_eco spec) (ds_name spec)"
  let ?m = "hdr_get (rs_headers resp) ''Content-Type''"
  let ?row = "\<lparr>rf_key = ?rk, rf_target = digest_bytes body, rf_media = ?m, rf_etag = hdr_get (rs_headers resp) ''ETag'',
          rf_modified = hdr_get (rs_headers resp) ''Last-Modified'', rf_fetched = ee_now env, rf_ttl = ds_ttl spec,
          rf_source = rs_via resp\<rparr>"
  let ?r = "ref_stored (ee_now env) ?row"
  from keep obtain g1 where d: "dc_digest d = digest_bytes body" and
    cat: "eg_cat g' = fst (put_ref NoFault (ee_now env) ?row (fst (put_entry (ee_now env) (new_entry env ?k
           (digest_bytes body) (int (length body)) ?m) (eg_cat g))))"
    using assms(2,3) by (cases rule: keep_document_cases) (auto simp: Let_def put_doc_ref_def)
  obtain c1 w x where pe: "put_entry (ee_now env) (new_entry env ?k (digest_bytes body) (int (length body)) ?m) (eg_cat g) = (c1, w, x)"
    by (metis prod_cases3)
  obtain c2 y where pr: "put_ref NoFault (ee_now env) ?row c1 = (c2, y)" by fastforce
  have c2: "eg_cat g' = c2" using cat pe pr by simp
  have row: "map_of (db_refs (ct_db c2)) ?rk = Some ?r" and ent: "map_of (db_entries (ct_db c2)) ?k = Some e"
    using put_ref_row [OF pr] put_entry_db [OF pe] old by simp_all
  have ref: "doc_ref spec h = Some ?r"
    using row by (simp add: doc_ref_def lookup_ref_def get_ref_def h crashed_def catalog_open_def c2)
  have get: "snd (get_entry NoFault ?k (eg_cat h)) = Inr (e\<lparr>en_key := ?k\<rparr>)"
    using reopened_get [OF ent] by (simp add: h crashed_def c2)
  have fs: "eg_fs h = eg_fs g'" by (simp add: h crashed_def)
  obtain c3 where get: "get_entry (ee_db later CallGet) ?k (eg_cat h) = (c3, Inr (e\<lparr>en_key := ?k\<rparr>))"
    using get ok(2) by (metis prod.collapse)
  obtain c where c: "snd (doc_cached later spec h) = Some c" "dc_body c = obody" "\<not> dc_stale c"
    using blob ok(1) ref fs by (simp add: doc_cached_def load_document_def get)
  obtain h' z where call: "document_call later spec h = (h', z)" by fastforce
  have fresh: "\<exists>h' c. document_call later spec h = (h', Inr c) \<and> dc_body c = obody \<and> dc_from_cache c \<and> \<not> dc_stale c"
    if "ref_fresh ?r (ee_now later)"
  proof -
    have "serves_cached later spec h" using that c ref by (simp add: serves_cached_def)
    with call show ?thesis
    proof (cases rule: document_cases)
      case (cached d)
      then show ?thesis using c call by (intro exI [of _ h'] exI [of _ "c\<lparr>dc_from_cache := True\<rparr>"]) simp
    qed simp_all
  qed
  have again: "\<exists>h' c. document_call later spec h = (h', Inr c) \<and> dc_body c = obody \<and> dc_revalidated c"
    if nf: "\<not> ref_fresh ?r (ee_now later)" and on: "\<not> engine_offline (ee_cfg later) (ds_project spec)"
      and p: "pool_open (ee_net later) (doc_request spec (Some ?r) True) (eg_pool h) = (p, Inr rsp)" "rs_status rsp = 304" for p rsp
  proof -
    have "\<not> serves_cached later spec h" using nf assms(2) ref by (simp add: serves_cached_def)
    then have "fetch_document later spec (Some ?r) (Some c) (fst (doc_cached later spec h)) = (h', z)"
      using on ref c(1) by (rule_tac document_cases [OF call]) simp_all
    moreover have "eg_pool (fst (doc_cached later spec h)) = eg_pool h" using doc_cached_frame by blast
    ultimately have "z = Inr (c\<lparr>dc_revalidated := True\<rparr>)" using p by (simp add: fetch_document_def Let_def)
    then show ?thesis using call c by simp
  qed
  have sel: "rf_target ?r = dc_digest d" "rf_etag ?r = hdr_get (rs_headers resp) ''ETag''"
    "rf_fetched ?r = col_time (ee_now env)" "rf_ttl ?r = quot10 (ds_ttl spec) * second"
    by (simp_all add: ref_stored_def or_now_def d)
  show ?thesis using ref sel fresh again validator_sent [of ?r spec] by blast
qed

section \<open>Runs\<close>

text \<open>A cache that holds \<open>hi\<close> as the index of one package, and an origin that has a newer one.\<close>

definition ex_spec :: doc_spec where
  "ex_spec = \<lparr>ds_project = ''p'', ds_eco = ''pypi'', ds_name = ''simple/x'', ds_key = [], ds_url = ''http://o/x'',
     ds_ttl = 60 * second, ds_immutable = False, ds_expect = \<lparr>xp_digest = [], xp_size = 0, xp_room = 0\<rparr>,
     ds_headers = [], ds_fallbacks = [], ds_proxy = [], ds_optional = False, ds_credential = None,
     ds_max_bytes = 0, ds_compressible = False\<rparr>"

definition ex_doc_entry :: entry where
  "ex_doc_entry = \<lparr>en_key = EntryKey ''p'' ''pypi'' ''simple/x'', en_digest = digest_bytes ''hi'', en_size = 2,
     en_media = [], en_cached = 0, en_access = 0, en_hits = 0\<rparr>"

definition ex_doc_cat :: catalog where
  "ex_doc_cat = catalog_open 0 0 (empty_db\<lparr>db_blobs := [(digest_bytes ''hi'', \<lparr>br_size = 2, br_created = 0, br_access = 0\<rparr>)],
     db_entries := [(EntryKey ''p'' ''pypi'' ''simple/x'', ex_doc_entry)]\<rparr>)"

definition ex_doc_env :: "net \<Rightarrow> bool \<Rightarrow> engine_env" where
  "ex_doc_env nt off = \<lparr>ee_net = nt, ee_store = ex_store, ee_cfg = Some \<lparr>cf_offline = off, cf_projects = []\<rparr>,
     ee_faults = no_faults, ee_db = (\<lambda>_. NoFault), ee_now = 7 * second, ee_temp = (\<lambda>_. ''2''), ee_accept = (\<lambda>_. 99),
     ee_gunzip = (\<lambda>s. Some s)\<rparr>"

definition ex_doc_state :: engine_state where
  "ex_doc_state = \<lparr>eg_pool = ex_pool, eg_fs = ex_committed, eg_cat = ex_doc_cat\<rparr>"

lemma ex_doc_env_sel: "ee_store (ex_doc_env nt off) = ex_store" "ee_faults (ex_doc_env nt off) = no_faults"
  "ee_db (ex_doc_env nt off) c = NoFault" "ee_net (ex_doc_env nt off) = nt" "ee_now (ex_doc_env nt off) = 7 * second"
  "engine_offline (ee_cfg (ex_doc_env nt off)) ''p'' = off"
  by (simp_all add: ex_doc_env_def engine_offline_def offline_for_def)

lemma ex_committed_inv: "fs_inv ex_store ex_committed"
proof -
  have "sys_inv ex_store (at_start ex_fs)" using ex_rest(2) by (simp add: at_start_def)
  then show ?thesis using blob_reaches_inv [OF ex_reach_committed ex_rest(1)] by (simp add: sys_inv_def)
qed

lemma ex_doc_loaded: "\<exists>c. snd (doc_cached (ex_doc_env nt off) ex_spec ex_doc_state) = Some c"
proof -
  let ?k = "EntryKey ''p'' ''pypi'' ''simple/x''"
  have "snd (get_entry NoFault ?k ex_doc_cat) = Inr (ex_doc_entry\<lparr>en_key := ?k\<rparr>)"
    unfolding ex_doc_cat_def by (rule reopened_get) simp
  then obtain c where "get_entry NoFault ?k ex_doc_cat = (c, Inr (ex_doc_entry\<lparr>en_key := ?k\<rparr>))" by (metis prod.collapse)
  then show ?thesis
    by (auto simp: doc_cached_def load_document_def ex_doc_env_sel ex_spec_def ex_doc_state_def doc_key_def ex_doc_entry_def
        ex_open_committed split: option.splits)
qed

lemma ex_doc_ref: "doc_ref ex_spec ex_doc_state = None"
  by (simp add: doc_ref_def lookup_ref_def get_ref_def ex_spec_def ex_doc_state_def ex_doc_cat_def catalog_open_def empty_db_def)

lemma ex_doc_offline: "\<exists>g' c. document_call (ex_doc_env nt True) ex_spec ex_doc_state = (g', Inr c) \<and> dc_stale c"
proof -
  obtain g' r where f: "document_call (ex_doc_env nt True) ex_spec ex_doc_state = (g', r)" by fastforce
  obtain c where c: "snd (doc_cached (ex_doc_env nt True) ex_spec ex_doc_state) = Some c" using ex_doc_loaded by blast
  have n: "\<not> serves_cached (ex_doc_env nt True) ex_spec ex_doc_state"
    by (simp add: serves_cached_def ex_doc_ref) (simp add: ex_spec_def)
  have o: "engine_offline (ee_cfg (ex_doc_env nt True)) (ds_project ex_spec)" by (simp add: ex_spec_def ex_doc_env_sel)
  from f show ?thesis by (cases rule: document_cases) (use n o c f in \<open>auto simp: stale_or_def\<close>)
qed


lemma ex_doc_cat_ok: "cat_ok ex_doc_cat" "\<not> ct_closed ex_doc_cat"
proof -
  have "db_ok (ct_db ex_doc_cat)"
    by (intro db_okI) (auto simp: ex_doc_cat_def catalog_open_def empty_db_def entries_ok_def ex_doc_entry_def split: if_splits)
  then show "cat_ok ex_doc_cat" using open_ok by (simp add: ex_doc_cat_def catalog_open_def)
  show "\<not> ct_closed ex_doc_cat" by (simp add: ex_doc_cat_def catalog_open_def)
qed

theorem document_verified_witness:
  "\<exists>d. snd (document_call (ex_doc_env ex_net True) ex_spec ex_doc_state) = Inr d \<and> dc_digest d = digest_bytes (dc_body d)"
proof -
  obtain g' d where f: "document_call (ex_doc_env ex_net True) ex_spec ex_doc_state = (g', Inr d)" using ex_doc_offline by blast
  have "fs_inv (ee_store (ex_doc_env ex_net True)) (eg_fs ex_doc_state)"
    by (simp add: ex_doc_env_sel ex_doc_state_def ex_committed_inv)
  then show ?thesis using document_verified [OF _ _ _ f] ex_doc_cat_ok f by (simp add: ex_doc_state_def)
qed

text \<open>An origin whose new version is two bytes long with a declared digest it does not have.\<close>

definition ex_new_net :: "int \<Rightarrow> net" where
  "ex_new_net status = ex_net\<lparr>nt_do := (\<lambda>n w. Inr \<lparr>rs_status = status, rs_headers = [(''Etag'', [''v2''])],
     rs_chunks = [''yo''], rs_end = BodyEOF, rs_via = ''u''\<rparr>)\<rparr>"

lemma ex_new_open:
  "\<exists>p. pool_open (ex_new_net status) (doc_request spec ref c) q = (p, Inr \<lparr>rs_status = status, rs_headers = [(''Etag'', [''v2''])],
     rs_chunks = [''yo''], rs_end = BodyEOF, rs_via = ''u''\<rparr>)"
  if "ds_fallbacks spec = []" "ds_proxy spec = []" "status \<noteq> 401"
  using that
  by (simp add: pool_open_def open_chain_def attempts_of_def doc_request_def Let_def ex_new_net_def ex_net_def open_one_def pool_do_def
      send_def transport_retries_def numeral_2_eq_2 passes_on_def)

lemma ex_committed_names: "fs_names ex_committed = [(ex_path, 0)]" "fs_next ex_committed = 1"
  "fs_dirs ex_committed = prefixes_of (butlast ex_path) @ fs_dirs ex_written"
proof -
  let ?t = "[''data'', ''blobs'', ''sha256'', take 2 (digest_bytes ''hi''), take 2 (drop 2 (digest_bytes ''hi'')),
              digest_bytes ''hi'']"
  have p: "store_path ex_store (digest_bytes ''hi'') = Inr ?t" by (simp add: ex_store_path ex_path_def)
  have h: "w_hashed ex_writer = ''hi''" by (simp add: ex_writer_def)
  note ev = writer_commit_def writer_commit_with_def commit_run_def Let_def ex_writer_def writer_digest_def
    p h mkdir_all_def lookup_name_def fsync_inode_def set_inode_def path_dir_def publish_name_def os_link_def
    os_chmod_def ex_written_names ex_dirs drop_staging_def os_remove_def ex_committed_def
  show "fs_names ex_committed = [(ex_path, 0)]" "fs_next ex_committed = 1"
    "fs_dirs ex_committed = prefixes_of (butlast ex_path) @ fs_dirs ex_written" by (simp_all add: ev ex_path_def)
qed

lemma ex_store_new:
  "\<exists>g'. store_bytes (ex_doc_env nt off) ''yo'' ex_doc_state = (g', Inr (digest_bytes ''yo'')) \<and>
     lookup_name (eg_fs g') ex_path = Some 0 \<and> ino_data (fs_inodes (eg_fs g') 0) = ino_data (fs_inodes ex_committed 0)"
proof -
  let ?d = "digest_bytes ''yo''"
  let ?p = "[''data'', ''blobs'', ''staging'', ''2.part'']"
  have p: "store_path ex_store ?d = Inr [''data'', ''blobs'', ''sha256'', take 2 ?d, take 2 (drop 2 ?d), ?d]"
    by (simp add: store_path_valid ex_store_def)
  have free: "?p \<notin> set (fs_dirs ex_committed)"
    by (simp add: ex_committed_names ex_path_def ex_written_names ex_dirs)
  let ?i = "\<lparr>ino_data = [], ino_mtime = 7 * second, ino_mode = 384, ino_synced = False\<rparr>"
  let ?w = "\<lparr>w_name = ?p, w_ino = 1, w_hashed = [], w_written = 0, w_closed = False\<rparr>"
  have c: "writer_create no_faults ex_store ex_committed ''2'' (7 * second) = (new_file ?p ?i ex_committed, Inr ?w)"
    using free by (simp add: writer_create_def Let_def ex_store_def lookup_name_def ex_committed_names ex_path_def)
  define s2 where "s2 = set_inode 1 (\<lambda>i. i\<lparr>ino_data := ino_data i @ ''yo'', ino_mtime := 7 * second, ino_synced := False\<rparr>)
    (new_file ?p ?i ex_committed)"
  define w2 where "w2 = ?w\<lparr>w_hashed := ''yo'', w_written := 2\<rparr>"
  have w: "writer_write 99 (7 * second) (new_file ?p ?i ex_committed) ?w ''yo'' = (s2, w2, Inr (), 2)"
    by (simp add: writer_write_def s2_def w2_def)
  have names: "lookup_name s2 q = (if q = ?p then Some 1 else if q = ex_path then Some 0 else None)" for q
    by (simp add: s2_def lookup_name_def new_file_def ex_committed_names)
  have wd: "writer_digest w2 = ?d" "\<not> w_closed w2" "w_name w2 = ?p" by (simp_all add: w2_def writer_digest_def)
  obtain s3 w3 where m: "writer_commit no_faults (7 * second) ex_store s2 w2 = (s3, w3, Inr (?d, w_written w2))"
    using commit_succeeds [OF wd(2), of s2 ex_store _ "7 * second"] p
    unfolding wd(1,3) names by (force simp: path_dir_def ex_path_def)
  have "commit_rel ex_store w2 s2 s3"
    using commit_frame [of ex_store w2 True no_faults "7 * second" s2] commit_with_trace(1) [OF m [unfolded writer_commit_def]]
    by (simp add: ex_store_def under_def wd)
  moreover have "under (so_blobs ex_store) ex_path" by (simp add: ex_store_def ex_path_def under_def)
  moreover have "ino_data (fs_inodes s2 0) = ino_data (fs_inodes ex_committed 0)"
    by (simp add: s2_def set_inode_def new_file_def ex_committed_names)
  ultimately have "lookup_name s3 ex_path = Some 0 \<and> ino_data (fs_inodes s3 0) = ino_data (fs_inodes ex_committed 0)"
    using names [of ex_path] by (auto simp: commit_rel_def same_content_def ex_path_def)
  moreover have "writer_abort no_faults s3 w3 = (s3, w3, Inr ())"
    using commit_closes [OF m] by (simp add: writer_abort_def)
  ultimately show ?thesis using c w m
    by (simp add: store_bytes_def ex_doc_env_def ex_doc_state_def)
qed

definition ex_wrong_spec :: doc_spec where
  "ex_wrong_spec = ex_spec\<lparr>ds_expect := \<lparr>xp_digest = [], xp_size = 5, xp_room = 0\<rparr>\<rparr>"

lemma ex_wrong_loaded: "doc_cached env ex_wrong_spec g = doc_cached env ex_spec g" "doc_ref ex_wrong_spec g = doc_ref ex_spec g"
  by (simp_all add: doc_cached_def doc_ref_def ex_wrong_spec_def doc_key_def)

text \<open>The index still fails over to its copy when the origin is down; not when it lies about the size.\<close>

lemma ex_wrong_call: "snd (document_call (ex_doc_env (ex_new_net 200) False) ex_wrong_spec ex_doc_state) = Inl DocExpectSize"
proof -
  let ?env = "ex_doc_env (ex_new_net 200) False"
  let ?resp = "\<lparr>rs_status = 200, rs_headers = [(''Etag'', [''v2''])], rs_chunks = [''yo''], rs_end = BodyEOF, rs_via = ''u''\<rparr>"
  obtain g1 c where c: "doc_cached ?env ex_wrong_spec ex_doc_state = (g1, Some c)"
    using ex_doc_loaded [of "ex_new_net 200" False] by (metis ex_wrong_loaded(1) prod.collapse)
  obtain p where p: "pool_open (ex_new_net 200) (doc_request ex_wrong_spec None True) (eg_pool g1) = (p, Inr ?resp)"
    using ex_new_open [of ex_wrong_spec 200 None True "eg_pool g1"] by (auto simp: ex_wrong_spec_def ex_spec_def)
  have rd: "doc_read ?env ex_wrong_spec q limit n ?resp p = (p, Inr (?resp, ''yo''))" if "limit = default_doc_max_bytes" for q limit n
    using that by (subst doc_read.simps)
      (simp add: read_document_def read_limited_def ex_wrong_spec_def ex_spec_def body_of_def default_doc_max_bytes_def wrap64_def)
  have "document_call ?env ex_wrong_spec ex_doc_state = fetch_document ?env ex_wrong_spec None (Some c) g1"
    by (simp add: document_call_def c ex_wrong_loaded(2) ex_doc_ref)
      (simp add: ex_wrong_spec_def ex_spec_def ex_doc_env_sel)
  also have "snd \<dots> = Inl DocExpectSize"
    using p by (simp add: fetch_document_def Let_def ex_doc_env_sel rd doc_limit_def keep_document_def)
      (simp add: ex_wrong_spec_def ex_spec_def keep_document_def doc_limit_def default_doc_max_bytes_def rd)
  finally show ?thesis .
qed

theorem document_available_witness:
  "\<exists>e. snd (document_call (ex_doc_env (ex_new_net 200) False) ex_wrong_spec ex_doc_state) = Inl e \<and>
     (e = DocTooLarge (doc_limit ex_wrong_spec) \<or> e = DocExpectSize \<or> e = DocExpectDigest \<or> (\<exists>x. e = DocEngine (FeBlob x)))"
proof -
  let ?env = "ex_doc_env (ex_new_net 200) False"
  obtain g' where f: "document_call ?env ex_wrong_spec ex_doc_state = (g', Inl DocExpectSize)"
    using ex_wrong_call by (metis prod.collapse)
  obtain c where "snd (doc_cached ?env ex_wrong_spec ex_doc_state) = Some c"
    using ex_doc_loaded ex_wrong_loaded(1) by metis
  from document_available [OF f this] f show ?thesis by auto
qed

theorem crash_pins_old_document_witness:
  "\<exists>g' d. keep_document (ex_doc_env ex_net False) ex_spec \<lparr>rs_status = 200, rs_headers = [(''Etag'', [''v2''])],
       rs_chunks = [''yo''], rs_end = BodyEOF, rs_via = ''u''\<rparr> ''yo'' ex_doc_state = (g', Inr d) \<and> dc_body d = ''yo'' \<and>
     (\<exists>h' c. document_call (ex_doc_env ex_net False) ex_spec (crashed 0 0 g') = (h', Inr c) \<and>
        dc_body c = ino_data (fs_inodes ex_committed 0) \<and> dc_from_cache c \<and> \<not> dc_stale c)"
proof -
  let ?env = "ex_doc_env ex_net False"
  let ?resp = "\<lparr>rs_status = 200, rs_headers = [(''Etag'', [''v2''])], rs_chunks = [''yo''], rs_end = BodyEOF, rs_via = ''u''\<rparr>"
  obtain g1 where g1: "store_bytes ?env ''yo'' ex_doc_state = (g1, Inr (digest_bytes ''yo''))" "lookup_name (eg_fs g1) ex_path = Some 0"
    "ino_data (fs_inodes (eg_fs g1) 0) = ino_data (fs_inodes ex_committed 0)" using ex_store_new by blast
  obtain g' d where k: "keep_document ?env ex_spec ?resp ''yo'' ex_doc_state = (g', Inr d)"
    and d: "dc_body d = ''yo''" and fs: "eg_fs g' = eg_fs g1"
  proof -
    obtain g' r where k: "keep_document ?env ex_spec ?resp ''yo'' ex_doc_state = (g', r)" by fastforce
    have "meets ex_spec ''yo''" by (simp add: meets_def ex_spec_def doc_limit_def default_doc_max_bytes_def)
    with k show ?thesis
    proof (cases rule: keep_document_cases)
      case (kept g2)
      then show ?thesis using that k g1(1) by simp
    qed (use g1(1) in simp_all)
  qed
  obtain m where blob: "blob_open (ee_faults ?env) (ee_store ?env) (eg_fs g') (en_digest ex_doc_entry) =
      Inr (ino_data (fs_inodes ex_committed 0), m)"
    using g1(2,3) by (simp add: blob_open_def ex_doc_env_sel ex_doc_entry_def ex_store_path fs)
  have old: "map_of (db_entries (ct_db (eg_cat ex_doc_state))) (EntryKey (ds_project ex_spec) (ds_eco ex_spec) (doc_key ex_spec)) = Some ex_doc_entry"
    by (simp add: ex_doc_state_def ex_doc_cat_def catalog_open_def ex_spec_def doc_key_def)
  have imm: "\<not> ds_immutable ex_spec" by (simp add: ex_spec_def)
  have cp: "\<not> ee_faults ?env SysCopy" by (simp add: ex_doc_env_sel)
  have ttl: "ds_ttl ex_spec = 60 * second" by (simp add: ex_spec_def)
  obtain r where r: "rf_fetched r = col_time (ee_now ?env)" "rf_ttl r = quot10 (ds_ttl ex_spec) * second"
      "ref_fresh r (ee_now ?env) \<longrightarrow> (\<exists>h' c. document_call ?env ex_spec (crashed 0 0 g') = (h', Inr c) \<and>
         dc_body c = ino_data (fs_inodes ex_committed 0) \<and> dc_from_cache c \<and> \<not> dc_stale c)"
    using crash_pins_old_document [OF k imm ex_doc_env_sel(3) old blob cp ex_doc_env_sel(3) refl, of 0 0] by blast
  have "ref_fresh r (ee_now ?env)"
    by (simp add: ref_fresh_def r(1,2) ttl ex_doc_env_sel col_time_def from_ts_def ts_def quot10_def)
  then show ?thesis using k d r(3) by blast
qed

end
