(* ===== verification/ServeSpec.thy ===== *)
theory ServeSpec
  imports Serve DocumentSpec
begin

text \<open>
  What Serve promises: the bytes it answers with are those the digest names, it contacts no
  origin when it need not or must not, it keeps the store's and the catalog's invariants, and
  what it fetched once it serves from then on.
\<close>

section \<open>The invariant of the engine's state\<close>

definition engine_ok :: "serve_env \<Rightarrow> serve_state \<Rightarrow> bool" where
  "engine_ok env x \<longleftrightarrow> fs_inv (ee_store (sv_env env)) (eg_fs (sx_eng x)) \<and> cat_ok (eg_cat (sx_eng x))"

text \<open>What a sibling's fetch may do: add blobs, never ask an origin.\<close>

definition peer_ok :: "serve_env \<Rightarrow> bool" where
  "peer_ok env \<longleftrightarrow> (\<forall>h p e d g g' found n. sv_peer env = Some h \<longrightarrow> h p e d g = (g', found, n) \<longrightarrow>
     fs_inv (ee_store (sv_env env)) (eg_fs g) \<longrightarrow> cat_ok (eg_cat g) \<longrightarrow>
     fs_inv (ee_store (sv_env env)) (eg_fs g') \<and> cat_ok (eg_cat g') \<and> eg_pool g' = eg_pool g)"

definition whole_get :: "http_req \<Rightarrow> bool" where
  "whole_get r \<longleftrightarrow> hq_method r = ''GET'' \<and> plain_request r \<and> hdr_get (hq_headers r) ''Range'' = []"

lemma record_eng [simp]: "sx_eng (engine_record env res out n x) = sx_eng x"
  by (cases out) (simp_all add: engine_record_def Let_def)

lemma touch_eng [simp]: "sx_eng (note_touch env res d x) = sx_eng x"
  by (simp add: note_touch_def)

lemma set_cat_sel [simp]:
  "eg_fs (sx_eng (set_cat c x)) = eg_fs (sx_eng x)" "eg_pool (sx_eng (set_cat c x)) = eg_pool (sx_eng x)"
  "eg_cat (sx_eng (set_cat c x)) = c"
  by (simp_all add: set_cat_def)

lemma access_eng [simp]: "sx_eng (count_access env res x) = sx_eng x"
  by (simp add: count_access_def)

lemma from_blob_body:
  assumes "from_blob env r res out d media x = (x', out', Inr rep)" and "engine_ok env x" and "whole_get r"
  shows "ry_status rep = 200 \<and> digest_bytes (ry_body rep) = d \<and> x' = x \<and> out' = out"
  using assms blob_open_digest [of "ee_store (sv_env env)" "eg_fs (sx_eng x)"]
  by (auto simp: from_blob_def blob_serve_def serve_content_def parse_range_def whole_get_def engine_ok_def Let_def
      split: sum.splits prod.splits)

lemma from_blob_state: "from_blob env r res out d media x = (x', out', y) \<Longrightarrow> x' = x \<and> out' = out"
  by (simp add: from_blob_def)

lemma link_entry_spec:
  assumes "link_entry env res d n s c = (c', r)" and "cat_ok c"
  shows "cat_ok c' \<and> (\<exists>m. cat_view c' = (if is_ok r then (cat_view c)(entry_key_of res \<mapsto> (d, m, rv_media res)) else cat_view c))"
proof (cases "blob_stat (ee_faults env) (ee_store env) s d")
  case None
  then show ?thesis using assms by (auto simp: link_entry_def with_blob_def)
next
  case (Some st)
  define k where "k = (if n \<le> 0 then st_size st else n)"
  define e where "e = \<lparr>en_key = entry_key_of res, en_digest = d, en_size = k, en_media = rv_media res,
                   en_cached = ee_now env, en_access = ee_now env, en_hits = 0\<rparr>"
  obtain c1 r1 where f: "commit_entry (ee_db env CallCommit) (ee_now env) e (linked_artifact env res d k)
                    (engine_quota (ee_cfg env) (rv_project res)) False c = (c1, r1)" by fastforce
  have "link_entry env res d n s c = (case commit_entry (ee_db env CallCommit) (ee_now env) e (linked_artifact env res d k)
                    (engine_quota (ee_cfg env) (rv_project res)) False c of (c', r) \<Rightarrow> (c', map_sum FeCatalog id r))"
    by (simp only: link_entry_def with_blob_def Some option.case Let_def k_def e_def)
  then have "c' = c1" "is_ok r = is_ok r1" using assms(1) f by (cases r1; simp)+
  moreover have "en_key e = entry_key_of res" "en_content e = (d, k, rv_media res)" by (simp_all add: e_def en_content_def)
  ultimately show ?thesis using commit_entry_spec [OF assms(2) f] by (intro conjI exI [of _ k]) simp_all
qed

lemma publish_entry_spec:
  assumes "publish_entry env res s d n (c, u, ev) = (c', u', ev')" and "cat_ok c"
  shows "cat_ok c'"
proof -
  obtain c1 r where l: "link_entry env res d n s c = (c1, r)" by fastforce
  with link_entry_spec [OF l assms(2)] assms(1) show ?thesis by (cases r) (simp_all add: publish_entry_def)
qed

lemma count_entries_keeps:
  assumes "count_entries flt p c = (c', r)" and "cat_ok c"
  shows "cat_ok c' \<and> cat_view c' = cat_view c"
  using assms(2,1) unfolding count_entries_def by (cases rule: after_flush_cases) auto

lemma project_usage_keeps:
  assumes "project_usage flt now p (u, c) = ((u', c'), r)" and "cat_ok c"
  shows "cat_ok c' \<and> cat_view c' = cat_view c"
  using assms(1) by (cases rule: project_usage_cases) (use assms(2) count_entries_keeps in blast)+

lemma quota_room_keeps:
  assumes "quota_room cfg flt now p (u, c) = ((u', c'), n)" and "cat_ok c"
  shows "cat_ok c'"
proof -
  obtain u1 c1 r where p: "project_usage flt now p (u, c) = ((u1, c1), r)" by (metis prod.collapse)
  show ?thesis using project_usage_keeps [OF p assms(2)] assms p
    by (auto simp: quota_room_def Let_def split: if_splits sum.splits prod.splits)
qed

lemma check_quota_keeps:
  assumes "check_quota cfg flt now p n (u, c) = ((u', c'), r)" and "cat_ok c"
  shows "cat_ok c' \<and> cat_view c' = cat_view c"
proof -
  obtain u1 c1 y where p: "project_usage flt now p (u, c) = ((u1, c1), y)" by (metis prod.collapse)
  show ?thesis using project_usage_keeps [OF p assms(2)] assms p
    by (auto simp: check_quota_def Let_def split: if_splits sum.splits prod.splits)
qed

section \<open>The transfer of a miss\<close>

lemma stream_inv:
  assumes "store_wf (se_store env)" and "fs_inv (se_store env) s"
  shows "fs_inv (se_store env) (sr_fs (stream env req want p s f))"
proof -
  obtain w where "blob_reaches (se_store env) \<lparr>bs_fs = s, bs_writers = (\<lambda>_. None)\<rparr>
      \<lparr>bs_fs = sr_fs (stream env req want p s f), bs_writers = (\<lambda>_. None)(0 := w)\<rparr>"
    using stream_reaches [of "\<lambda>_. None" 0 env s req want p f] by auto
  from blob_reaches_inv [OF this assms(1) sys_inv_no_writers [OF assms(2)]]
  show ?thesis by (simp add: sys_inv_def)
qed

lemma stream_digest:
  assumes "sr_result (stream env req want p s f) = Inr (d, n)" and "xp_digest want \<noteq> []"
  shows "d = xp_digest want"
proof (cases rule: stream_cases [of env req want p s f])
  case (refused p1 e s')
  then show ?thesis using assms(1) by (simp add: refused_def)
next
  case (ran p1 resp s1 w x0 x1 r)
  then obtain x2 where "finish_stream env want (content_length resp) x2 = (x1, Inr (d, n))"
    using assms(1) by (auto simp: transfer_def split: prod.splits sum.splits)
  then show ?thesis using assms(2)
    by (auto simp: finish_stream_def verify_content_def dest!: commit_digest split: option.splits prod.splits sum.splits if_splits)
qed

lemma fetch_finish_fields:
  "fetch_finish d n err f = (f', c) \<Longrightarrow> \<not> fe_done f \<Longrightarrow>
   fe_err f' = err \<and> fe_digest f' = d \<and> fe_size f' = n \<and> fe_media f' = fe_media f"
  by (auto simp: fetch_finish_def finish_record_def finish_release_def release_def broadcast_def Let_def split: if_splits)

lemma run_fetch_fields:
  assumes "\<not> fe_done f" and "r = run_error env cancelled (sr_result (stream env req want p s (bind_cancel f)))"
    and "out = run_fetch env req want cancelled publish p s f cat"
  shows "fe_err (ro_fetch out) = (case r of Inl e \<Rightarrow> Some e | Inr _ \<Rightarrow> None)"
    "r = Inr (d, n) \<Longrightarrow> fe_digest (ro_fetch out) = d \<and> fe_size (ro_fetch out) = n"
    "ro_cat out = (case r of Inl _ \<Rightarrow> cat | Inr (d, n) \<Rightarrow> publish d n cat)"
    "ro_fs out = sr_fs (stream env req want p s (bind_cancel f))"
    "ro_pool out = sr_pool (stream env req want p s (bind_cancel f))"
proof -
  have nd: "\<not> fe_done (sr_fetch (stream env req want p s (bind_cancel f)))"
    using assms(1) by (simp add: stream_done bind_cancel_def)
  obtain f1 c1 where e: "(case r of Inl e \<Rightarrow> fetch_finish [] 0 (Some e) (sr_fetch (stream env req want p s (bind_cancel f)))
      | Inr (d, n) \<Rightarrow> fetch_finish d n None (sr_fetch (stream env req want p s (bind_cancel f)))) = (f1, c1)" by fastforce
  have out: "out = \<lparr>ro_pool = sr_pool (stream env req want p s (bind_cancel f)), ro_fs = sr_fs (stream env req want p s (bind_cancel f)),
      ro_fetch = f1, ro_closes = c1, ro_cat = (case r of Inl _ \<Rightarrow> cat | Inr (d, n) \<Rightarrow> publish d n cat), ro_events = ro_events out\<rparr>"
    using assms(3) e by (simp add: run_fetch_def Let_def assms(2) [symmetric])
  show "fe_err (ro_fetch out) = (case r of Inl e \<Rightarrow> Some e | Inr _ \<Rightarrow> None)"
    by (subst out) (use e nd in \<open>auto dest: fetch_finish_fields split: sum.splits prod.splits\<close>)
  show "r = Inr (d, n) \<Longrightarrow> fe_digest (ro_fetch out) = d \<and> fe_size (ro_fetch out) = n"
    by (subst (1 2) out) (use e nd in \<open>auto dest: fetch_finish_fields\<close>)
  show "ro_cat out = (case r of Inl _ \<Rightarrow> cat | Inr (d, n) \<Rightarrow> publish d n cat)"
    "ro_fs out = sr_fs (stream env req want p s (bind_cancel f))"
    "ro_pool out = sr_pool (stream env req want p s (bind_cancel f))"
    by (subst out, simp)+
qed

lemma run_miss_spec:
  assumes "run_miss env res f x = (x', f')" and "\<not> fe_done f" and "engine_ok env x" and "store_wf (ee_store (sv_env env))"
  shows "engine_ok env x' \<and> (fe_err f' = None \<longrightarrow> xp_digest (rv_expect res) \<noteq> [] \<longrightarrow> fe_digest f' = xp_digest (rv_expect res))"
proof -
  obtain u c room where q: "quota_room (ee_cfg (sv_env env)) (ee_db (sv_env env) CallCount) (ee_now (sv_env env)) (rv_project res)
             (sx_usage x, eg_cat (sx_eng x)) = ((u, c), room)" by (metis prod.collapse)
  define senv where "senv = stream_env_of env res u c (eg_fs (sx_eng x))"
  define req where "req = (rv_upstream res)\<lparr>rq_eco := rv_eco res\<rparr>"
  define want where "want = (rv_expect res)\<lparr>xp_room := room\<rparr>"
  define o0 where "o0 = stream senv req want (eg_pool (sx_eng x)) (eg_fs (sx_eng x)) (bind_cancel f)"
  define out where "out = run_fetch senv req want (sv_cancelled env) (publish_entry (sv_env env) res (sr_fs o0))
                     (eg_pool (sx_eng x)) (eg_fs (sx_eng x)) f (c, u, [])"
  have x': "eg_fs (sx_eng x') = ro_fs out" "eg_cat (sx_eng x') = fst (ro_cat out)" "f' = ro_fetch out"
    using assms(1) q by (auto simp: run_miss_def Let_def senv_def [symmetric] req_def [symmetric] want_def [symmetric]
        o0_def [symmetric] out_def [symmetric] split: prod.splits)
  have cat: "cat_ok c" using quota_room_keeps [OF q] assms(3) by (simp add: engine_ok_def)
  have store: "se_store senv = ee_store (sv_env env)" by (simp add: senv_def stream_env_of_def Let_def)
  have fs: "ro_fs out = sr_fs o0" by (simp add: out_def o0_def run_fetch_def Let_def split: prod.splits)
  have inv: "fs_inv (ee_store (sv_env env)) (ro_fs out)"
    using stream_inv [of senv "eg_fs (sx_eng x)"] assms(3,4) store by (simp add: fs o0_def engine_ok_def)
  have "cat_ok (fst (ro_cat out))"
    using cat publish_entry_spec [of "sv_env env" res "sr_fs o0" _ _ c u "[]"]
    by (auto simp: out_def run_fetch_def Let_def split: prod.splits sum.splits) (metis prod.collapse)
  moreover have "fe_digest f' = xp_digest (rv_expect res)" if "fe_err f' = None" "xp_digest (rv_expect res) \<noteq> []"
  proof -
    from that(1) obtain d n where r: "sr_result o0 = Inr (d, n)"
      unfolding x'(3) out_def run_fetch_fields(1) [OF assms(2) refl refl] o0_def [symmetric]
      by (auto simp: run_error_def split: sum.splits)
    moreover have "fe_digest f' = d"
      using run_fetch_fields(2) [OF assms(2) refl out_def] r unfolding x'(3) o0_def by (simp add: run_error_def)
    ultimately show ?thesis using stream_digest [OF r [unfolded o0_def]] that(2) by (simp add: want_def)
  qed
  ultimately show ?thesis using inv x' by (simp add: engine_ok_def)
qed

section \<open>The steps\<close>

text \<open>What an answer owes when the request pool was \<open>p\<close> and the request is for the whole content.\<close>

definition good_answer :: "serve_env \<Rightarrow> http_req \<Rightarrow> resolution \<Rightarrow> pool \<Rightarrow> answer \<Rightarrow> bool" where
  "good_answer env r res p a \<longleftrightarrow> (case a of (x', out, y) \<Rightarrow>
     engine_ok env x' \<and>
     (out \<in> {OutcomeHit, OutcomeDedup, OutcomePeer} \<longrightarrow> eg_pool (sx_eng x') = p) \<and>
     (\<forall>rep. y = Inr rep \<longrightarrow> whole_get r \<longrightarrow> out \<noteq> OutcomeUncached \<longrightarrow> ry_status rep = 200 \<and>
        (if out = OutcomeHit
         then \<exists>n m. cat_view (eg_cat (sx_eng x')) (entry_key_of res) = Some (digest_bytes (ry_body rep), n, m)
         else xp_digest (rv_expect res) \<noteq> [] \<longrightarrow> digest_bytes (ry_body rep) = xp_digest (rv_expect res))))"

definition good_step :: "serve_env \<Rightarrow> http_req \<Rightarrow> resolution \<Rightarrow> (serve_state \<Rightarrow> serve_state + answer) \<Rightarrow> bool" where
  "good_step env r res f \<longleftrightarrow> (\<forall>x. engine_ok env x \<longrightarrow> (case f x of
       Inl x1 \<Rightarrow> engine_ok env x1 \<and> eg_pool (sx_eng x1) = eg_pool (sx_eng x)
     | Inr a \<Rightarrow> good_answer env r res (eg_pool (sx_eng x)) a))"

lemma good_step_on:
  assumes "good_step env r res f" and "f x = Inl x1" and "engine_ok env x"
  shows "engine_ok env x1 \<and> eg_pool (sx_eng x1) = eg_pool (sx_eng x)"
  using assms(1) [unfolded good_step_def, rule_format, OF assms(3)] assms(2) by simp

lemma first_answer_good:
  assumes "\<And>f. f \<in> set fs \<Longrightarrow> good_step env r res f"
    and "\<And>x. engine_ok env x \<Longrightarrow> good_answer env r res (eg_pool (sx_eng x)) (final x)"
    and "engine_ok env x"
  shows "good_answer env r res (eg_pool (sx_eng x)) (first_answer fs final x)"
  using assms(1,3)
proof (induction fs arbitrary: x)
  case (Cons f fs)
  from Cons.prems(1) [of f] Cons.prems(2) have s: "case f x of
       Inl x1 \<Rightarrow> engine_ok env x1 \<and> eg_pool (sx_eng x1) = eg_pool (sx_eng x)
     | Inr a \<Rightarrow> good_answer env r res (eg_pool (sx_eng x)) a" by (simp add: good_step_def)
  show ?case
  proof (cases "f x")
    case (Inl x1)
    with s Cons.IH [of x1] Cons.prems(1) show ?thesis by simp
  qed (use s in simp)
qed (simp add: assms(2))

lemma engine_ok_set_cat [simp]: "engine_ok env x \<Longrightarrow> cat_ok c \<Longrightarrow> engine_ok env (set_cat c x)"
  by (simp add: engine_ok_def)

lemma engine_ok_eng: "sx_eng x' = sx_eng x \<Longrightarrow> engine_ok env x' = engine_ok env x"
  by (simp add: engine_ok_def)

lemma serve_held_good:
  assumes "engine_ok env x" and "eg_pool (sx_eng x) = p" and "out \<noteq> OutcomeUncached"
    and "if out = OutcomeHit then \<exists>n m. cat_view (eg_cat (sx_eng x)) (entry_key_of res) = Some (d, n, m)
         else d = xp_digest (rv_expect res)"
  shows "good_answer env r res p (serve_held env r res out d n media x)"
proof -
  let ?x = "engine_record env res out n (note_touch env res d x)"
  obtain x' out' y where h: "serve_held env r res out d n media x = (x', out', y)" by (metis prod_cases3)
  note f = h [unfolded serve_held_def]
  have ok: "engine_ok env ?x" using assms(1) by (simp add: engine_ok_def)
  from from_blob_state [OF f] have x': "x' = ?x" "out' = out" by simp_all
  have "ry_status rep = 200 \<and> digest_bytes (ry_body rep) = d" if "y = Inr rep" "whole_get r" for rep
    using from_blob_body [OF f [unfolded that(1)] ok that(2)] by simp
  then show ?thesis using assms ok by (auto simp: good_answer_def h x')
qed

lemma refuse_good: "engine_ok env x \<Longrightarrow> good_answer env r res p (refuse env res e x)"
  by (simp add: good_answer_def refuse_def engine_ok_def)

lemma link_and_serve_good:
  assumes "engine_ok env x" and "eg_pool (sx_eng x) = p" and "out \<in> {OutcomeDedup, OutcomePeer}"
  shows "good_answer env r res p (link_and_serve env r res out n x)"
proof -
  obtain c y where l: "link_entry (sv_env env) res (xp_digest (rv_expect res)) n (eg_fs (sx_eng x)) (eg_cat (sx_eng x)) = (c, y)"
    by fastforce
  have c: "cat_ok c" using link_entry_spec [OF l] assms(1) by (simp add: engine_ok_def)
  show ?thesis
  proof (cases y)
    case (Inl e)
    then show ?thesis using l c assms(1) by (simp add: link_and_serve_def good_answer_def)
  next
    case (Inr u)
    have "good_answer env r res p (serve_held env r res out (xp_digest (rv_expect res)) n [] (set_cat c x))"
      by (rule serve_held_good) (use assms c in auto)
    then show ?thesis using l Inr by (simp add: link_and_serve_def)
  qed
qed

lemma get_entry_pick:
  assumes "get_entry flt (entry_key_of res) (eg_cat (sx_eng x)) = (c, y)" and "engine_ok env x"
  shows "engine_ok env (set_cat c x)" "cat_view c = cat_view (eg_cat (sx_eng x))"
    "y = Inr e \<Longrightarrow> \<exists>n m. cat_view c (entry_key_of res) = Some (en_digest e, n, m)"
proof -
  note G = get_entry_spec [OF _ assms(1)]
  have ok: "cat_ok (eg_cat (sx_eng x))" using assms(2) by (simp add: engine_ok_def)
  show "engine_ok env (set_cat c x)" using G [OF ok] assms(2) by simp
  show "cat_view c = cat_view (eg_cat (sx_eng x))" using G [OF ok] by simp
  then show "y = Inr e \<Longrightarrow> \<exists>n m. cat_view c (entry_key_of res) = Some (en_digest e, n, m)"
    using G [OF ok] by (simp add: en_content_def)
qed

lemma try_hit_good: "good_step env r res (try_hit env r res)"
  unfolding good_step_def
proof (intro allI impI)
  fix x
  assume ok: "engine_ok env x"
  obtain c y where g: "get_entry (ee_db (sv_env env) CallGet) (entry_key_of res) (eg_cat (sx_eng x)) = (c, y)" by fastforce
  note G = get_entry_pick [OF g ok]
  show "case try_hit env r res x of
       Inl x1 \<Rightarrow> engine_ok env x1 \<and> eg_pool (sx_eng x1) = eg_pool (sx_eng x)
     | Inr a \<Rightarrow> good_answer env r res (eg_pool (sx_eng x)) a"
  proof (cases y)
    case (Inl e)
    then show ?thesis using G(1) by (simp add: try_hit_def g good_answer_def)
  next
    case (Inr e)
    show ?thesis
    proof (cases "holds env (en_digest e) x")
      case True
      have "good_answer env r res (eg_pool (sx_eng x))
              (serve_held env r res OutcomeHit (en_digest e) (en_size e) (en_media e) (set_cat c x))"
        by (rule serve_held_good) (use G Inr in simp_all)
      then show ?thesis using True by (simp add: try_hit_def g Inr)
    next
      case False
      obtain c1 z where d: "delete_entry (ee_db (sv_env env) CallDelete) (entry_key_of res) c = (c1, z)" by fastforce
      have "cat_ok c1" using delete_entry_spec [OF _ d] G(1) by (simp add: engine_ok_def)
      then show ?thesis using False d ok by (simp add: try_hit_def g Inr)
    qed
  qed
qed

lemma try_dedup_good: "good_step env r res (try_dedup env r res)"
  by (auto simp: good_step_def try_dedup_def Let_def intro!: link_and_serve_good)

lemma try_peer_good: "peer_ok env \<Longrightarrow> good_step env r res (try_peer env r res)"
  unfolding good_step_def
proof (intro allI impI)
  fix x
  assume p: "peer_ok env" and ok: "engine_ok env x"
  show "case try_peer env r res x of
       Inl x1 \<Rightarrow> engine_ok env x1 \<and> eg_pool (sx_eng x1) = eg_pool (sx_eng x)
     | Inr a \<Rightarrow> good_answer env r res (eg_pool (sx_eng x)) a"
  proof (cases "sv_peer env")
    case (Some h)
    obtain g found n where f: "h (rv_project res) (rv_eco res) (xp_digest (rv_expect res)) (sx_eng x) = (g, found, n)"
      by (metis prod_cases3)
    have "engine_ok env (x\<lparr>sx_eng := g\<rparr>)" "eg_pool g = eg_pool (sx_eng x)"
      using p [unfolded peer_ok_def] Some f ok unfolding engine_ok_def by simp_all blast+
    then show ?thesis using Some f ok by (auto simp: try_peer_def Let_def intro!: link_and_serve_good)
  qed (simp add: try_peer_def ok)
qed

lemma try_offline_good: "good_step env r res (try_offline env res)"
  by (auto simp: good_step_def try_offline_def intro!: refuse_good)

lemma try_quota_good: "good_step env r res (try_quota env res)"
  unfolding good_step_def
proof (intro allI impI)
  fix x
  assume ok: "engine_ok env x"
  obtain u c y where q: "check_quota (ee_cfg (sv_env env)) (ee_db (sv_env env) CallCount) (ee_now (sv_env env)) (rv_project res)
             (xp_size (rv_expect res)) (sx_usage x, eg_cat (sx_eng x)) = ((u, c), y)" by (metis prod.collapse)
  have "cat_ok c" using check_quota_keeps [OF q] ok by (simp add: engine_ok_def)
  then have "engine_ok env (set_cat c (x\<lparr>sx_usage := u\<rparr>))" using ok by (simp add: engine_ok_def)
  then show "case try_quota env res x of
       Inl x1 \<Rightarrow> engine_ok env x1 \<and> eg_pool (sx_eng x1) = eg_pool (sx_eng x)
     | Inr a \<Rightarrow> good_answer env r res (eg_pool (sx_eng x)) a"
    by (cases y) (auto simp: try_quota_def q Let_def intro!: refuse_good)
qed

lemma pass_through_good: "engine_ok env x \<Longrightarrow> good_answer env r res p (serve_pass_through env res reason x)"
  by (auto simp: serve_pass_through_def Let_def good_answer_def refuse_def engine_ok_def split: prod.splits sum.splits)

lemma try_guard_good: "good_step env r res (try_guard env res)"
  by (auto simp: good_step_def try_guard_def intro!: pass_through_good split: option.splits prod.splits)

lemma serve_committed_good:
  assumes "engine_ok env x"
    and "fe_err f = None \<Longrightarrow> xp_digest (rv_expect res) \<noteq> [] \<Longrightarrow> fe_digest f = xp_digest (rv_expect res)"
  shows "good_answer env r res p (serve_committed env r res f x)"
proof (cases "fe_err f")
  case (Some e)
  then show ?thesis using assms(1) refuse_good [OF assms(1), of r res p e]
    by (cases "waits r") (simp_all add: serve_committed_def good_answer_def [of _ _ _ _ "(x, OutcomeFail, Inl e)"])
next
  case None
  let ?x = "engine_record env res OutcomeMiss (if hq_method r = ''HEAD'' then 0 else fe_size f) x"
  obtain x' out y where b: "from_blob env r res OutcomeMiss (fe_digest f) (media_type res (fe_media f)) ?x = (x', out, y)"
    by (metis prod_cases3)
  have ok: "engine_ok env ?x" using assms(1) by (simp add: engine_ok_def)
  from from_blob_state [OF b] have x': "x' = ?x" "out = OutcomeMiss" by simp_all
  have "ry_status rep = 200 \<and> digest_bytes (ry_body rep) = fe_digest f" if "y = Inr rep" "whole_get r" for rep
    using from_blob_body [OF b [unfolded that(1)] ok that(2)] by simp
  then show ?thesis using assms(2) ok None b by (auto simp: good_answer_def serve_committed_def x')
qed

lemma flights_eng [simp]: "sx_eng (x\<lparr>sx_flights := q\<rparr>) = sx_eng x"
  by simp

lemma serve_miss_good:
  assumes "engine_ok env x" and "store_wf (ee_store (sv_env env))"
  shows "good_answer env r res (eg_pool (sx_eng x)) (serve_miss env r res x)"
proof -
  define key where "key = inflight_key (rv_project res) (rv_eco res) (rv_key res)"
  define f where "f = (new_fetch key (rv_eco res))\<lparr>fe_cache_key := rv_key res\<rparr>"
  obtain reg i created where s: "registry_start key (sx_flights x) = (reg, i, created)" by (metis prod_cases3)
  obtain c y where g: "get_entry (ee_db (sv_env env) CallGet) (entry_key_of res) (eg_cat (sx_eng x)) = (c, y)" by fastforce
  note G = get_entry_pick [OF g assms(1)]
  define late where "late = (case y of Inr e \<Rightarrow> if holds env (en_digest e) (set_cat c x) then Some e else None | Inl _ \<Rightarrow> None)"
  have m: "serve_miss env r res x = (case late of
      Some e \<Rightarrow> serve_held env r res OutcomeHit (en_digest e) (en_size e) (en_media e) ((set_cat c x)\<lparr>sx_flights := registry_finish i reg\<rparr>)
    | None \<Rightarrow> (case run_miss env res f (set_cat c x) of
        (x2, f') \<Rightarrow> serve_committed env r res f' (x2\<lparr>sx_flights := registry_finish i reg\<rparr>)))"
    unfolding serve_miss_def Let_def key_def [symmetric] f_def [symmetric] s g late_def prod.case ..
  show ?thesis
  proof (cases late)
    case (Some e)
    then have "y = Inr e" by (auto simp: late_def split: sum.splits if_splits)
    then have "good_answer env r res (eg_pool (sx_eng x)) (serve_held env r res OutcomeHit (en_digest e) (en_size e)
        (en_media e) ((set_cat c x)\<lparr>sx_flights := registry_finish i reg\<rparr>))"
      by (intro serve_held_good) (use G in \<open>simp_all add: engine_ok_def\<close>)
    then show ?thesis by (simp add: m Some)
  next
    case None
    obtain x2 f' where r: "run_miss env res f (set_cat c x) = (x2, f')" by fastforce
    have "\<not> fe_done f" by (simp add: f_def new_fetch_def)
    from run_miss_spec [OF r this G(1) assms(2)]
    have "good_answer env r res (eg_pool (sx_eng x)) (serve_committed env r res f' (x2\<lparr>sx_flights := registry_finish i reg\<rparr>))"
      by (intro serve_committed_good) (simp_all add: engine_ok_def)
    then show ?thesis by (simp add: m None r)
  qed
qed

lemma serve_good:
  assumes "engine_ok env x" and "store_wf (ee_store (sv_env env))" and "peer_ok env"
  shows "good_answer env r res (eg_pool (sx_eng x)) (serve env r res x)"
proof -
  have "engine_ok env (count_access env res x)" using assms(1) by (simp add: engine_ok_def)
  then have "good_answer env r res (eg_pool (sx_eng (count_access env res x))) (serve env r res x)"
    unfolding serve_def
    by (rule first_answer_good [rotated 2])
      (use try_hit_good try_dedup_good try_peer_good [OF assms(3)] try_offline_good try_quota_good try_guard_good
        serve_miss_good [OF _ assms(2)] in auto)
  then show ?thesis by simp
qed

text \<open>Offline, or without an origin to ask, the chain ends before any request.\<close>

lemma offline_answer:
  assumes off: "engine_offline (ee_cfg (sv_env env)) (rv_project res) \<or> rq_url (rv_upstream res) = []"
    and ok: "engine_ok env x" and peer: "peer_ok env" and s: "serve env r res x = (x', out, y)"
  shows "eg_pool (sx_eng x') = eg_pool (sx_eng x) \<and> out \<in> {OutcomeHit, OutcomeDedup, OutcomePeer, OutcomeFail}"
proof -
  let ?x = "count_access env res x"
  let ?p = "eg_pool (sx_eng x)"
  let ?fin = "\<lambda>a. case a of (x', out, y) \<Rightarrow> eg_pool (sx_eng x') = ?p \<and> out \<in> {OutcomeHit, OutcomeDedup, OutcomePeer, OutcomeFail}"
  have linked: "?fin (link_and_serve env r res out n x0)" if "eg_pool (sx_eng x0) = ?p" "out \<noteq> OutcomeMiss" "out \<noteq> OutcomeUncached" for out n x0
    using that by (cases out) (simp_all add: link_and_serve_def serve_held_def from_blob_def split: prod.split sum.split)
  have asked: "eg_pool g' = ?p" if "sv_peer env = Some h" "h p e d (sx_eng x0) = (g', found, n)" "engine_ok env x0" "eg_pool (sx_eng x0) = ?p"
    for h p e d x0 g' found n
  proof -
    from that(3) have "fs_inv (ee_store (sv_env env)) (eg_fs (sx_eng x0))" "cat_ok (eg_cat (sx_eng x0))" by (simp_all add: engine_ok_def)
    with peer [unfolded peer_ok_def, rule_format, OF that(1,2)] that(4) show ?thesis by simp
  qed
  have step: "?fin a" if "f x0 = Inr a" "f \<in> {try_hit env r res, try_dedup env r res, try_peer env r res}"
      "engine_ok env x0" "eg_pool (sx_eng x0) = ?p" for f x0 a
  proof -
    note inr = that(1)
    from that(2) consider "f = try_hit env r res" | "f = try_dedup env r res" | "f = try_peer env r res" by auto
    then show ?thesis
    proof cases
      case 1
      then show ?thesis using that(1,4) by (auto simp: try_hit_def serve_held_def from_blob_def split: sum.splits prod.splits if_splits)
    next
      case 2
      then show ?thesis using that(1,4)
        by (auto simp: try_dedup_def link_and_serve_def serve_held_def from_blob_def Let_def split: if_splits sum.splits prod.splits)
    next
      case 3
      then obtain h g found n where h: "sv_peer env = Some h" "h (rv_project res) (rv_eco res) (xp_digest (rv_expect res)) (sx_eng x0) = (g, found, n)"
          "a = link_and_serve env r res OutcomePeer n (x0\<lparr>sx_eng := g\<rparr>)"
        using inr by (auto simp: try_peer_def Let_def split: option.splits if_splits prod.splits)
      then show ?thesis using linked [of "x0\<lparr>sx_eng := g\<rparr>" OutcomePeer n] asked [OF h(1,2) that(3,4)] by simp
    qed
  qed
  have next_step: "engine_ok env x1 \<and> eg_pool (sx_eng x1) = ?p" if "f x0 = Inl x1"
      "f \<in> {try_hit env r res, try_dedup env r res, try_peer env r res}" "engine_ok env x0" "eg_pool (sx_eng x0) = ?p" for f x0 x1
  proof -
    from that(2) have "good_step env r res f"
      using try_hit_good try_dedup_good try_peer_good [OF peer] by auto
    from good_step_on [OF this that(1,3)] that(4) show ?thesis by simp
  qed
  have end_step: "?fin (first_answer (try_offline env res # fs) fin x0)" if "eg_pool (sx_eng x0) = ?p" for fs fin x0
    using off that by (simp add: try_offline_def refuse_def)
  have go: "?fin (first_answer (f # fs) fin x0)" if e: "engine_ok env x0" "eg_pool (sx_eng x0) = ?p"
      and f: "f \<in> {try_hit env r res, try_dedup env r res, try_peer env r res}"
      and rest: "\<And>x1. engine_ok env x1 \<Longrightarrow> eg_pool (sx_eng x1) = ?p \<Longrightarrow> ?fin (first_answer fs fin x1)" for f fs fin x0
  proof (cases "f x0")
    case (Inl x1)
    from next_step [OF Inl f e] have "?fin (first_answer fs fin x1)" by (intro rest) simp_all
    with Inl show ?thesis by simp
  next
    case (Inr a)
    from step [OF Inr f e] Inr show ?thesis by simp
  qed
  have m: "try_hit env r res \<in> {try_hit env r res, try_dedup env r res, try_peer env r res}"
    "try_dedup env r res \<in> {try_hit env r res, try_dedup env r res, try_peer env r res}"
    "try_peer env r res \<in> {try_hit env r res, try_dedup env r res, try_peer env r res}" by simp_all
  have x: "engine_ok env ?x" "eg_pool (sx_eng ?x) = ?p" using ok by (simp_all add: engine_ok_def)
  have "?fin (serve env r res x)"
    unfolding serve_def by (rule go [OF x m(1) go [OF _ _ m(2) go [OF _ _ m(3) end_step]]])
  then show ?thesis by (simp add: s)
qed


section \<open>What was fetched is served from then on\<close>

definition untouched :: "serve_state \<Rightarrow> serve_state \<Rightarrow> bool" where
  "untouched x x1 \<longleftrightarrow> eg_fs (sx_eng x1) = eg_fs (sx_eng x) \<and> sx_events x1 = sx_events x"

lemma held_outcome: "serve_held env r res out d n m x = (x', out', y) \<Longrightarrow> out' = out"
  by (simp add: serve_held_def from_blob_def)

lemma linked_outcome: "link_and_serve env r res out n x = (x', out', y) \<Longrightarrow> out' = out \<or> out' = OutcomeFail"
  by (auto simp: link_and_serve_def dest: held_outcome split: prod.splits sum.splits)

lemma steps_before_miss:
  assumes "f \<in> {try_hit env r res, try_dedup env r res, try_peer env r res, try_offline env res, try_quota env res, try_guard env res}"
    and "sv_peer env = None"
  shows "f x = Inl x1 \<Longrightarrow> untouched x x1" "f x = Inr (x', out, y) \<Longrightarrow> out \<noteq> OutcomeMiss"
proof -
  from assms(1) consider "f = try_hit env r res" | "f = try_dedup env r res" | "f = try_peer env r res"
    | "f = try_offline env res" | "f = try_quota env res" | "f = try_guard env res" by auto
  then have "(\<forall>x1. f x = Inl x1 \<longrightarrow> untouched x x1) \<and> (\<forall>x' out y. f x = Inr (x', out, y) \<longrightarrow> out \<noteq> OutcomeMiss)"
  proof cases
    case 1
    then show ?thesis
      by (auto simp: try_hit_def untouched_def set_cat_def dest: held_outcome split: prod.splits sum.splits if_splits)
  next
    case 2
    then show ?thesis by (auto simp: try_dedup_def untouched_def Let_def dest: linked_outcome split: if_splits)
  next
    case 3
    then show ?thesis using assms(2) by (simp add: try_peer_def untouched_def)
  next
    case 4
    then show ?thesis by (auto simp: try_offline_def untouched_def refuse_def split: if_splits)
  next
    case 5
    then show ?thesis
      by (auto simp: try_quota_def untouched_def set_cat_def refuse_def Let_def split: prod.splits sum.splits)
  next
    case 6
    then show ?thesis
      by (auto simp: try_guard_def untouched_def serve_pass_through_def refuse_def Let_def
          split: option.splits prod.splits sum.splits if_splits)
  qed
  then show "f x = Inl x1 \<Longrightarrow> untouched x x1" "f x = Inr (x', out, y) \<Longrightarrow> out \<noteq> OutcomeMiss" by blast+
qed

lemma miss_from:
  assumes "first_answer fs (serve_miss env r res) x = (x', OutcomeMiss, y)"
    and "set fs \<subseteq> {try_hit env r res, try_dedup env r res, try_peer env r res, try_offline env res, try_quota env res, try_guard env res}"
    and "sv_peer env = None" and "engine_ok env x"
  shows "\<exists>x1. untouched x x1 \<and> engine_ok env x1 \<and> serve_miss env r res x1 = (x', OutcomeMiss, y)"
  using assms(1,2,4)
proof (induction fs arbitrary: x)
  case Nil
  then show ?case by (auto simp: untouched_def)
next
  case (Cons f fs)
  have m: "f \<in> {try_hit env r res, try_dedup env r res, try_peer env r res, try_offline env res, try_quota env res, try_guard env res}"
    using Cons.prems(2) by simp
  have p: "peer_ok env" using assms(3) by (simp add: peer_ok_def)
  from m have g: "good_step env r res f"
    using try_hit_good try_dedup_good try_peer_good [OF p] try_offline_good try_quota_good try_guard_good by auto
  show ?case
  proof (cases "f x")
    case (Inl x1)
    have "\<exists>x2. untouched x1 x2 \<and> engine_ok env x2 \<and> serve_miss env r res x2 = (x', OutcomeMiss, y)"
      by (rule Cons.IH) (use Cons.prems Inl good_step_on [OF g Inl] in simp_all)
    then show ?thesis using steps_before_miss(1) [OF m assms(3) Inl] by (auto simp: untouched_def)
  next
    case (Inr a)
    then show ?thesis using steps_before_miss(2) [OF m assms(3)] Cons.prems(1) by (cases a) auto
  qed
qed

lemma blob_exists_faults: "\<not> flt SysStat \<Longrightarrow> blob_exists no_faults st s d \<Longrightarrow> blob_exists flt st s d"
  by (auto simp: blob_exists_def blob_stat_def os_stat_def split: sum.splits option.splits if_splits)

text \<open>A transfer that was answered: its blob is there, and its entry unless an event says otherwise.\<close>

lemma run_miss_filled:
  assumes r: "run_miss env res f x = (x', f')" and f: "\<not> fe_done f" "fe_written f = 0" and ok: "engine_ok env x"
    and wf: "store_wf (ee_store (sv_env env))" and dirs: "digest_free_dirs (ee_store (sv_env env)) (eg_fs (sx_eng x))"
    and stat: "\<not> ee_faults (sv_env env) SysStat" and fin: "fe_err f' = None"
    and quiet: "\<forall>e \<in> set (drop (length (sx_events x)) (sx_events x')). fst e \<noteq> ''fetch_error''"
  shows "\<exists>n. cat_view (eg_cat (sx_eng x')) (entry_key_of res) = Some (fe_digest f', n, rv_media res) \<and> holds env (fe_digest f') x'"
proof -
  obtain u c room where q: "quota_room (ee_cfg (sv_env env)) (ee_db (sv_env env) CallCount) (ee_now (sv_env env)) (rv_project res)
             (sx_usage x, eg_cat (sx_eng x)) = ((u, c), room)" by (metis prod.collapse)
  define senv where "senv = stream_env_of env res u c (eg_fs (sx_eng x))"
  define req where "req = (rv_upstream res)\<lparr>rq_eco := rv_eco res\<rparr>"
  define want where "want = (rv_expect res)\<lparr>xp_room := room\<rparr>"
  define o0 where "o0 = stream senv req want (eg_pool (sx_eng x)) (eg_fs (sx_eng x)) (bind_cancel f)"
  define out where "out = run_fetch senv req want (sv_cancelled env) (publish_entry (sv_env env) res (sr_fs o0))
                     (eg_pool (sx_eng x)) (eg_fs (sx_eng x)) f (c, u, [])"
  obtain c' u' ev where cat: "ro_cat out = (c', u', ev)" by (metis prod_cases3)
  have x': "eg_fs (sx_eng x') = ro_fs out" "eg_cat (sx_eng x') = c'" "f' = ro_fetch out"
      "sx_events x' = sx_events x @ ev @ map (\<lambda>(k, d, n). (k, rv_project res, rv_eco res, event_key f, n)) (ro_events out)"
    using r q cat by (auto simp: run_miss_def Let_def senv_def [symmetric] req_def [symmetric] want_def [symmetric]
        o0_def [symmetric] out_def [symmetric] split: prod.splits)
  have store: "se_store senv = ee_store (sv_env env)" by (simp add: senv_def stream_env_of_def Let_def)
  note R = run_fetch_fields [OF f(1) refl out_def, folded o0_def]
  from fin obtain d n where s: "sr_result o0 = Inr (d, n)"
    using R(1) by (auto simp: x'(3) run_error_def split: sum.splits)
  then have d: "fe_digest f' = d" "ro_cat out = publish_entry (sv_env env) res (sr_fs o0) d n (c, u, [])" "ro_fs out = sr_fs o0"
    using R(2-4) by (simp_all add: run_error_def x'(3))
  have "fe_written (bind_cancel f) = 0" using f(2) by (simp add: bind_cancel_def)
  from stream_verified [OF wf [folded store] sys_inv_no_writers [OF ok [unfolded engine_ok_def, THEN conjunct1, folded store]] _
      dirs [folded store] this s [unfolded o0_def]]
  have "blob_exists no_faults (se_store senv) (sr_fs o0) d" by (auto simp: o0_def)
  then have h: "holds env (fe_digest f') x'"
    using blob_exists_faults [where flt = "ee_faults (sv_env env)", OF stat] by (simp add: holds_def d x'(1) store)
  have "cat_ok c" using quota_room_keeps [OF q] ok by (simp add: engine_ok_def)
  obtain c1 y where l: "link_entry (sv_env env) res d n (sr_fs o0) c = (c1, y)" by fastforce
  have "is_ok y"
    using quiet d(2) cat l by (cases y) (auto simp: publish_entry_def x'(4))
  then have "c' = c1" using d(2) cat l by (cases y) (simp_all add: publish_entry_def)
  then show ?thesis using h link_entry_spec [OF l \<open>cat_ok c\<close>] \<open>is_ok y\<close> d(1) x'(2) by auto
qed

lemma held_is_hit:
  assumes ok: "engine_ok env x" and v: "cat_view (eg_cat (sx_eng x)) (entry_key_of res) = Some (d, n, m)"
    and h: "holds env d x" and db: "ee_db (sv_env env) CallGet \<noteq> TxFault"
  shows "\<exists>x2 z. serve env r res x = (x2, OutcomeHit, z) \<and> eg_pool (sx_eng x2) = eg_pool (sx_eng x) \<and>
       (\<forall>rep. z = Inr rep \<longrightarrow> whole_get r \<longrightarrow> ry_status rep = 200 \<and> digest_bytes (ry_body rep) = d)"
proof -
  let ?x = "count_access env res x"
  obtain c y where g0: "get_entry (ee_db (sv_env env) CallGet) (entry_key_of res) (eg_cat (sx_eng x)) = (c, y)" by fastforce
  then have g: "get_entry (ee_db (sv_env env) CallGet) (entry_key_of res) (eg_cat (sx_eng ?x)) = (c, y)" by simp
  have ok': "engine_ok env ?x" "cat_ok (eg_cat (sx_eng ?x))" using ok by (simp_all add: engine_ok_def)
  obtain e where y: "y = Inr e" "en_digest e = d"
    using get_entry_spec [OF ok'(2) g] v db by (cases y) (auto simp: en_content_def)
  let ?a = "engine_record env res OutcomeHit (en_size e) (note_touch env res d (set_cat c ?x))"
  obtain z where f: "from_blob env r res OutcomeHit d (media_type res (en_media e)) ?a = (?a, OutcomeHit, z)"
    by (simp add: from_blob_def)
  have "holds env d ?x" using h by (simp add: holds_def)
  then have "serve env r res x = (?a, OutcomeHit, z)"
    using f by (simp add: serve_def try_hit_def g0 y serve_held_def)
  moreover have "engine_ok env ?a" using get_entry_pick(1) [OF g ok'(1)] by (simp add: engine_ok_def)
  then have "ry_status rep = 200 \<and> digest_bytes (ry_body rep) = d" if "z = Inr rep" "whole_get r" for rep
    using from_blob_body [OF f [unfolded that(1)]] that(2) by blast
  ultimately show ?thesis by simp
qed

lemma miss_is_filled:
  assumes "serve_miss env r res x = (x1, OutcomeMiss, y)" and ok: "engine_ok env x" and wf: "store_wf (ee_store (sv_env env))"
    and dirs: "digest_free_dirs (ee_store (sv_env env)) (eg_fs (sx_eng x))" and stat: "\<not> ee_faults (sv_env env) SysStat"
    and quiet: "\<forall>e \<in> set (drop (length (sx_events x)) (sx_events x1)). fst e \<noteq> ''fetch_error''"
  shows "\<exists>d n. cat_view (eg_cat (sx_eng x1)) (entry_key_of res) = Some (d, n, rv_media res) \<and> holds env d x1 \<and>
    engine_ok env x1 \<and> (\<forall>rep. y = Inr rep \<longrightarrow> whole_get r \<longrightarrow> digest_bytes (ry_body rep) = d)"
proof -
  define key where "key = inflight_key (rv_project res) (rv_eco res) (rv_key res)"
  define f where "f = (new_fetch key (rv_eco res))\<lparr>fe_cache_key := rv_key res\<rparr>"
  obtain reg i created where s: "registry_start key (sx_flights x) = (reg, i, created)" by (metis prod_cases3)
  obtain c z where g: "get_entry (ee_db (sv_env env) CallGet) (entry_key_of res) (eg_cat (sx_eng x)) = (c, z)" by fastforce
  note G = get_entry_pick [OF g ok]
  obtain x2 f' where r: "run_miss env res f (set_cat c x) = (x2, f')" by fastforce
  let ?x2 = "x2\<lparr>sx_flights := registry_finish i reg\<rparr>"
  have m: "serve_committed env r res f' ?x2 = (x1, OutcomeMiss, y)"
    using assms(1) unfolding serve_miss_def Let_def key_def [symmetric] f_def [symmetric] s g r prod.case
    by (auto dest: held_outcome split: option.splits)
  then have e: "fe_err f' = None" by (auto simp: serve_committed_def refuse_def split: option.splits if_splits)
  then have b: "from_blob env r res OutcomeMiss (fe_digest f') (media_type res (fe_media f'))
      (engine_record env res OutcomeMiss (if hq_method r = ''HEAD'' then 0 else fe_size f') ?x2) = (x1, OutcomeMiss, y)"
    using m by (simp add: serve_committed_def)
  then have x1: "sx_eng x1 = sx_eng x2" "sx_events x1 = sx_events x2"
    using from_blob_state [OF b] by (simp_all add: engine_record_def Let_def)
  have f: "\<not> fe_done f" "fe_written f = 0" by (simp_all add: f_def new_fetch_def)
  have "digest_free_dirs (ee_store (sv_env env)) (eg_fs (sx_eng (set_cat c x)))" using dirs by simp
  moreover have "\<forall>e \<in> set (drop (length (sx_events (set_cat c x))) (sx_events x2)). fst e \<noteq> ''fetch_error''"
    using quiet by (simp add: x1 set_cat_def)
  ultimately obtain n where n: "cat_view (eg_cat (sx_eng x2)) (entry_key_of res) = Some (fe_digest f', n, rv_media res)"
      "holds env (fe_digest f') x2"
    using run_miss_filled [OF r f G(1) wf _ stat e] by blast
  have ok2: "engine_ok env x1" using run_miss_spec [OF r f(1) G(1) wf] x1 by (simp add: engine_ok_def)
  have "digest_bytes (ry_body rep) = fe_digest f'" if "y = Inr rep" "whole_get r" for rep
    using from_blob_body [OF b [unfolded that(1)] _ that(2)] ok2 x1 by (simp add: engine_ok_def)
  with n ok2 x1 show ?thesis by (auto simp: holds_def)
qed


text \<open>
  A HEAD or a range that waits for a transfer which then fails is not counted, although every
  outcome is meant to reach the series; a plain GET is.
\<close>

lemma waiting_failure_uncounted:
  assumes "fe_err f = Some e"
  shows "serve_committed env r res f x = (x1, OutcomeFail, Inl e) \<longleftrightarrow>
    x1 = (if waits r then x else engine_record env res OutcomeFail 0 x)"
  using assms by (auto simp: serve_committed_def refuse_def)

section \<open>An empty cache before an origin with one file\<close>

definition ex_serve_env :: serve_env where
  "ex_serve_env =
     \<lparr>sv_env = \<lparr>ee_net = ex_flaky [], ee_store = ex_store, ee_cfg = None, ee_faults = no_faults, ee_db = (\<lambda>_. NoFault),
                ee_now = 5, ee_temp = (\<lambda>_. ''1''), ee_accept = (\<lambda>_. 99), ee_gunzip = (\<lambda>s. Some s)\<rparr>,
      sv_peer = None, sv_guard = None, sv_other = (\<lambda>_ _. (400, [])), sv_ctx_done = (\<lambda>_. False), sv_cause = FeContext,
      sv_cancelled = False, sv_client_ok = True, sv_taken = 0\<rparr>"

definition ex_serve_state :: serve_state where
  "ex_serve_state = \<lparr>sx_eng = \<lparr>eg_pool = ex_pool, eg_fs = ex_fs, eg_cat = catalog_open 0 0 empty_db\<rparr>, sx_usage = [],
     sx_stats = new_collector, sx_flights = new_registry, sx_events = []\<rparr>"

definition ex_resolution :: resolution where
  "ex_resolution = \<lparr>rv_project = ''p'', rv_eco = ''pypi'', rv_key = ''k'', rv_upstream = ex_request, rv_expect = ex_want,
     rv_media = [], rv_headers = [], rv_artifact = None, rv_access = []\<rparr>"

definition ex_get :: http_req where
  "ex_get = \<lparr>hq_method = ''GET'', hq_headers = []\<rparr>"

lemma ex_serve_sel:
  "sv_peer ex_serve_env = None" "sv_guard ex_serve_env = None" "ee_store (sv_env ex_serve_env) = ex_store"
  "ee_cfg (sv_env ex_serve_env) = None" "ee_db (sv_env ex_serve_env) c = NoFault" "ee_faults (sv_env ex_serve_env) = no_faults"
  "sx_events ex_serve_state = []" "eg_fs (sx_eng ex_serve_state) = ex_fs" "eg_pool (sx_eng ex_serve_state) = ex_pool"
  "eg_cat (sx_eng ex_serve_state) = catalog_open 0 0 empty_db"
  by (simp_all add: ex_serve_env_def ex_serve_state_def)

lemma ex_serve_ok: "engine_ok ex_serve_env ex_serve_state" "store_wf ex_store" "peer_ok ex_serve_env"
  "digest_free_dirs ex_store ex_fs"
  using ex_rest open_ok [OF empty_db_ok] by (simp_all add: engine_ok_def ex_serve_sel sys_inv_def peer_ok_def)

lemma missing_get:
  assumes "cat_ok c" and "cat_view c k = None" and "flt \<noteq> TxFault"
  shows "\<exists>c'. get_entry flt k c = (c', Inl CatNotFound) \<and> cat_ok c' \<and> cat_view c' = cat_view c"
proof -
  obtain c' r where g: "get_entry flt k c = (c', r)" by fastforce
  from get_entry_spec [OF assms(1) g] assms(2,3) g show ?thesis by (cases r) auto
qed

lemma ex_run_miss:
  assumes "eg_pool (sx_eng x) = ex_pool" and "eg_fs (sx_eng x) = ex_fs" and "\<not> fe_done f"
  shows "\<exists>x' f'. run_miss ex_serve_env ex_resolution f x = (x', f') \<and> fe_err f' = None"
proof -
  let ?e = ex_serve_env and ?u = "sx_usage x" and ?c = "eg_cat (sx_eng x)"
  have room: "quota_room (ee_cfg (sv_env ?e)) (ee_db (sv_env ?e) CallCount) (ee_now (sv_env ?e)) (rv_project ex_resolution) (?u, ?c) = ((?u, ?c), 0)"
    by (simp add: quota_room_def ex_serve_sel engine_quota_def)
  define senv where "senv = stream_env_of ?e ex_resolution ?u ?c ex_fs"
  have env: "se_net senv = ex_flaky []" "se_faults senv = no_faults" "se_store senv = ex_store" "se_now senv = 5"
    "se_temp senv = ''1''" "\<And>n. se_accept senv n = 99" "\<And>a. \<not> se_ctx_done senv a"
    by (simp_all add: senv_def stream_env_of_def ex_serve_env_def Let_def)
  have q: "(rv_upstream ex_resolution)\<lparr>rq_eco := rv_eco ex_resolution\<rparr> = ex_request"
    "(rv_expect ex_resolution)\<lparr>xp_room := 0\<rparr> = ex_want"
    by (simp_all add: ex_resolution_def ex_request_def ex_want_def)
  let ?out = "run_fetch senv ex_request ex_want (sv_cancelled ?e)
    (publish_entry (sv_env ?e) ex_resolution (sr_fs (stream senv ex_request ex_want ex_pool ex_fs (bind_cancel f)))) ex_pool ex_fs f (?c, ?u, [])"
  obtain c' u' ev where "ro_cat ?out = (c', u', ev)" by (metis prod_cases3)
  moreover have "fe_err (ro_fetch ?out) = None"
    by (simp add: run_fetch_fields(1) [OF assms(3) refl refl] ex_stream_any [OF env] run_error_def)
  ultimately show ?thesis
    by (simp add: run_miss_def room Let_def assms senv_def [symmetric] q)
qed

lemma ex_serve_miss: "\<exists>x1 y. serve ex_serve_env ex_get ex_resolution ex_serve_state = (x1, OutcomeMiss, y)"
proof -
  let ?k = "entry_key_of ex_resolution"
  have "cat_ok (catalog_open 0 0 empty_db)" "cat_view (catalog_open 0 0 empty_db) ?k = None"
    using open_ok [OF empty_db_ok] by (simp_all add: cat_view_def catalog_open_def rows_view_def empty_db_def)
  from missing_get [OF this, of NoFault] obtain c where
    c: "get_entry NoFault ?k (catalog_open 0 0 empty_db) = (c, Inl CatNotFound)" "cat_ok c" "cat_view c ?k = None"
    using \<open>cat_view (catalog_open 0 0 empty_db) ?k = None\<close> by auto
  from missing_get [OF c(2,3), of NoFault] obtain c2 where c2: "get_entry NoFault ?k c = (c2, Inl CatNotFound)" by auto
  let ?x = "set_cat c ex_serve_state"
  have acc: "count_access ex_serve_env ex_resolution ex_serve_state = ex_serve_state"
    by (simp add: count_access_def ex_resolution_def)
  have h: "try_hit ex_serve_env ex_get ex_resolution ex_serve_state = Inl ?x"
    by (simp add: try_hit_def ex_serve_sel c(1))
  have d: "try_dedup ex_serve_env ex_get ex_resolution ?x = Inl ?x" "try_peer ex_serve_env ex_get ex_resolution ?x = Inl ?x"
    "try_guard ex_serve_env ex_resolution ?x = Inl ?x"
    by (simp_all add: try_dedup_def try_peer_def try_guard_def ex_serve_sel ex_resolution_def ex_want_def)
  have o: "try_offline ex_serve_env ex_resolution ?x = Inl ?x"
    by (simp add: try_offline_def ex_serve_sel engine_offline_def) (simp add: ex_resolution_def ex_request_def)
  have q: "try_quota ex_serve_env ex_resolution ?x = Inl ?x"
    by (simp add: try_quota_def check_quota_def ex_serve_sel engine_quota_def set_cat_def Let_def)
  have s: "serve ex_serve_env ex_get ex_resolution ex_serve_state = serve_miss ex_serve_env ex_get ex_resolution ?x"
    by (simp add: serve_def acc h d o q)
  let ?f = "(new_fetch (inflight_key ''p'' ''pypi'' ''k'') ''pypi'')\<lparr>fe_cache_key := ''k''\<rparr>"
  have "eg_pool (sx_eng (set_cat c2 ?x)) = ex_pool" "eg_fs (sx_eng (set_cat c2 ?x)) = ex_fs" "\<not> fe_done ?f"
    by (simp_all add: ex_serve_sel new_fetch_def)
  from ex_run_miss [OF this] obtain x2 f' where r: "run_miss ex_serve_env ex_resolution ?f (set_cat c2 ?x) = (x2, f')" "fe_err f' = None"
    by blast
  have "rv_project ex_resolution = ''p''" "rv_eco ex_resolution = ''pypi''" "rv_key ex_resolution = ''k''"
    by (simp_all add: ex_resolution_def)
  then show ?thesis
    by (simp add: s serve_miss_def ex_serve_sel c2 r Let_def serve_committed_def from_blob_def split: prod.split)
qed



end
