(* ===== verification/UsageSpec.thy ===== *)
theory UsageSpec
  imports Usage
begin

text \<open>
  The statistics: the hand-written sort of the summary is the library's stable sort, so the
  result does not depend on the order a map is iterated in; and the time series accounts for
  every request that was flushed, whatever flushes, refused transactions and compactions
  follow.
\<close>

section \<open>The insertion sort\<close>

fun place :: "eco_stats \<Rightarrow> eco_stats list \<Rightarrow> eco_stats list" where
  "place x [] = [x]"
| "place x (y # r) = (if eco_before x y then y # place x r else x # y # r)"

definition eco_rank :: "eco_stats \<Rightarrow> string \<times> string" where
  "eco_rank a = (es_project a, es_eco a)"

lemma eco_before_less: "eco_before a b \<longleftrightarrow> eco_rank a < eco_rank b"
  by (auto simp: eco_before_def eco_rank_def)

lemma sift_down_place: "sift_down (length r) (rev r @ x # ys) = rev (place x r) @ ys"
proof (induction r arbitrary: ys)
  case (Cons y r)
  have "(rev r @ y # x # ys) ! length r = y" "(rev r @ y # x # ys) ! Suc (length r) = x"
    by (simp_all add: nth_append)
  moreover have "(rev r @ y # x # ys)[Suc (length r) := y, length r := x] = rev r @ x # y # ys"
    by (simp add: list_update_append)
  ultimately show ?case using Cons.IH [of "y # ys"] by simp
qed simp

lemma sort_steps:
  "i \<le> length s \<Longrightarrow> fold sift_down [1..<i] s = rev (fold place (take i s) []) @ drop i s"
proof (induction i)
  case (Suc i)
  let ?r = "fold place (take i s) []"
  have "length (place x r) = Suc (length r)" for x r by (induction r) auto
  then have "length (fold place xs r) = length xs + length r" for xs r
    by (induction xs arbitrary: r) auto
  then have len: "length ?r = i" using Suc.prems by simp
  from Suc.prems have d: "drop i s = s ! i # drop (Suc i) s" by (simp add: Cons_nth_drop_Suc)
  show ?case
  proof (cases "i = 0")
    case False
    have "fold sift_down [1..<Suc i] s = sift_down i (rev ?r @ s ! i # drop (Suc i) s)"
      using False Suc by (simp add: d)
    also have "\<dots> = rev (place (s ! i) ?r) @ drop (Suc i) s"
      using sift_down_place [of ?r "s ! i"] len by simp
    finally show ?thesis using Suc.prems by (simp add: take_Suc_conv_app_nth)
  next
    case True
    then show ?thesis by (cases s) simp_all
  qed
qed simp

lemma sort_eco_fold: "sort_eco_stats s = rev (fold place s [])"
  using sort_steps [of "length s" s] by (simp add: sort_eco_stats_def)

lemma mset_place [simp]: "mset (place x r) = add_mset x (mset r)"
  by (induction r) auto

lemma sorted_place: "sorted (map eco_rank (rev r)) \<Longrightarrow> sorted (map eco_rank (rev (place x r)))"
proof (induction r)
  case (Cons y r)
  have "set (place x r) = insert x (set r)" by (metis mset_place set_mset_add_mset_insert set_mset_mset)
  with Cons show ?case by (fastforce simp: sorted_append eco_before_less)
qed simp

lemma filter_place:
  "sorted (map eco_rank (rev r)) \<Longrightarrow>
   filter (\<lambda>a. k = eco_rank a) (rev (place x r)) =
   filter (\<lambda>a. k = eco_rank a) (rev r) @ (if k = eco_rank x then [x] else [])"
proof (induction r)
  case (Cons y r)
  have "k \<noteq> eco_rank y" if "eco_before x y" "k = eco_rank x"
    using that by (auto simp: eco_before_less)
  with Cons show ?case by (auto simp: sorted_append)
qed simp

lemma sort_eco_correct:
  "mset (sort_eco_stats s) = mset s"
  "sorted (map eco_rank (sort_eco_stats s))"
  "filter (\<lambda>a. k = eco_rank a) (sort_eco_stats s) = filter (\<lambda>a. k = eco_rank a) s"
proof -
  have "mset (rev (fold place s r)) = mset s + mset r \<and>
        (sorted (map eco_rank (rev r)) \<longrightarrow> sorted (map eco_rank (rev (fold place s r))) \<and>
        filter (\<lambda>a. k = eco_rank a) (rev (fold place s r)) =
        filter (\<lambda>a. k = eco_rank a) (rev r) @ filter (\<lambda>a. k = eco_rank a) s)" for r
    by (induction s arbitrary: r) (auto simp: sorted_place filter_place)
  from this [of "[]"] show "mset (sort_eco_stats s) = mset s"
    "sorted (map eco_rank (sort_eco_stats s))"
    "filter (\<lambda>a. k = eco_rank a) (sort_eco_stats s) = filter (\<lambda>a. k = eco_rank a) s"
    by (simp_all add: sort_eco_fold)
qed

lemma sort_eco_sort: "sort_eco_stats s = sort_key eco_rank s"
  by (rule sym, rule properties_for_sort_key) (simp_all add: sort_eco_correct)

text \<open>The map's keys determine the rows, so the rows differ in project or ecosystem.\<close>

definition eco_map_ok :: "(string \<times> eco_stats) list \<Rightarrow> bool" where
  "eco_map_ok m \<longleftrightarrow> distinct (map fst m) \<and> (\<forall>(k, s) \<in> set m. k = eco_key (es_project s) (es_eco s))"

lemma upsert_keys:
  "map fst (upsert k r f t) = (if map_of t k = None then k # map fst t else map fst t)"
proof -
  have "map fst (AList.update k v t) = map fst t" if "map_of t k = Some u" for v u
    using that by (induction t) auto
  then show ?thesis by (auto simp: upsert_def split: option.splits)
qed

lemma upsert_set:
  "x \<in> set (upsert k r f t) \<Longrightarrow> x \<in> set t \<or> x = (k, r) \<or> (\<exists>old. map_of t k = Some old \<and> x = (k, f old))"
proof -
  have "x \<in> set (AList.update k v t) \<Longrightarrow> x \<in> set t \<or> x = (k, v)" for v
    by (induction t) (auto split: if_splits)
  then show "x \<in> set (upsert k r f t) \<Longrightarrow> ?thesis" by (auto simp: upsert_def split: option.splits)
qed

lemma set_eco_ok:
  assumes "eco_map_ok m" and "\<And>s. es_project (f s) = es_project s \<and> es_eco (f s) = es_eco s"
  shows "eco_map_ok (set_eco pe f m)"
  unfolding eco_map_ok_def
proof
  show "distinct (map fst (set_eco pe f m))"
    using assms(1) by (auto simp: eco_map_ok_def set_eco_def upsert_keys map_of_eq_None_iff)
  show "\<forall>(k, s) \<in> set (set_eco pe f m). k = eco_key (es_project s) (es_eco s)"
  proof clarify
    fix k s
    assume "(k, s) \<in> set (set_eco pe f m)"
    from upsert_set [OF this [unfolded set_eco_def]] assms show "k = eco_key (es_project s) (es_eco s)"
      by (auto simp: eco_map_ok_def zero_eco_def dest!: map_of_SomeD)
  qed
qed

lemma stats_map_ok: "stats_eco_map sel d = Inr m \<Longrightarrow> eco_map_ok m"
proof -
  assume "stats_eco_map sel d = Inr m"
  then obtain m1 where 1: "stats_inventory sel d [] = Inr m1"
    and 2: "stats_requests sel d (stats_traffic sel d m1) = Inr m"
    by (auto simp: stats_eco_map_def bind_res_Inr_iff)
  have "eco_map_ok m1"
    by (rule fold_res_invariant [OF 1 [unfolded stats_inventory_def], where I = eco_map_ok])
      (auto simp: bind_res_Inr_iff eco_map_ok_def [of "[]"] intro!: set_eco_ok)
  moreover have "eco_map_ok m1 \<Longrightarrow> eco_map_ok (stats_traffic sel d m1)" for m1
  proof -
    have "eco_map_ok m1 \<Longrightarrow> eco_map_ok (fold (\<lambda>(pe, t). set_eco pe (\<lambda>s. s\<lparr>es_hit_count := tr_hit_count t,
        es_hit_bytes := tr_hit_bytes t, es_miss_count := tr_miss_count t, es_miss_bytes := tr_miss_bytes t\<rparr>)) ts m1)" for ts
      by (induction ts arbitrary: m1) (auto simp: set_eco_ok)
    then show "eco_map_ok m1 \<Longrightarrow> eco_map_ok (stats_traffic sel d m1)" by (simp add: stats_traffic_def)
  qed
  ultimately show ?thesis
    by - (rule fold_res_invariant [OF 2 [unfolded stats_requests_def], where I = eco_map_ok],
      auto simp: bind_res_Inr_iff intro!: set_eco_ok)
qed

lemma eco_map_inj: "eco_map_ok m \<Longrightarrow> inj_on eco_rank (set (map snd m))"
proof (rule inj_onI)
  fix a b
  assume m: "eco_map_ok m" and ab: "a \<in> set (map snd m)" "b \<in> set (map snd m)" and r: "eco_rank a = eco_rank b"
  have "(eco_key (es_project x) (es_eco x), x) \<in> set m" if "x \<in> set (map snd m)" for x
    using m that by (auto simp: eco_map_ok_def)
  note k = this [OF ab(1)] this [OF ab(2)]
  have "eco_key (es_project a) (es_eco a) = eco_key (es_project b) (es_eco b)" using r by (simp add: eco_rank_def)
  from k(1) [unfolded this] k(2) show "a = b"
    using m by (intro eq_key_imp_eq_value [of m]) (auto simp: eco_map_ok_def)
qed

lemma sort_eco_order:
  assumes "eco_map_ok m" and "mset (order (map snd m)) = mset (map snd m)"
  shows "sort_eco_stats (order (map snd m)) = sort_eco_stats (map snd m)"
proof -
  from assms(2) have "set (order (map snd m)) = set (map snd m)" by (rule mset_eq_setD)
  then have "inj_on eco_rank (set (order (map snd m)))" using eco_map_inj [OF assms(1)] by simp
  then show ?thesis unfolding sort_eco_sort
    by (intro sort_key_inj_key_eq) (simp_all add: assms(2))
qed

text \<open>
  C33. The summary does not depend on the order in which the map of its rows is iterated: the
  hand-written swapping loops are the stable sort by project and ecosystem, and no two rows
  of the map agree on both.
\<close>

theorem stats_order_free:
  assumes "\<And>xs. mset (order xs) = mset xs"
  shows "catalog_stats order flt p e c = catalog_stats id flt p e c
         \<and> sort_eco_stats s = sort_key (\<lambda>a. (es_project a, es_eco a)) s"
proof
  have "bind_res (stats_eco_map sel d) (\<lambda>m. F (sort_eco_stats (order (map snd m)))) =
        bind_res (stats_eco_map sel d) (\<lambda>m. F (sort_eco_stats (map snd m)))"
    for sel d and F :: "eco_stats list \<Rightarrow> cat_error + stats_result"
    by (cases "stats_eco_map sel d") (simp_all add: sort_eco_order [where order = order, OF stats_map_ok assms])
  note eq = this [of _ _ "\<lambda>x. bind_res _ (\<lambda>n. Inr \<lparr>re_by_eco = x, re_leaderboard = _, re_largest = _,
      re_recent = _, re_blobs = _, re_bytes = n\<rparr>)"]
  show "catalog_stats order flt p e c = catalog_stats id flt p e c"
    unfolding catalog_stats_def Let_def id_apply eq ..
qed (simp add: sort_eco_sort eco_rank_def [abs_def])

section \<open>Totals over a table\<close>

definition tot :: "('k \<Rightarrow> bool) \<Rightarrow> ('v \<Rightarrow> int) \<Rightarrow> ('k \<times> 'v) list \<Rightarrow> int" where
  "tot P g t = (\<Sum>r\<leftarrow>t. if P (fst r) then g (snd r) else 0)"

lemma tot_simps [simp]:
  "tot P g [] = 0" "tot P g (r # t) = (if P (fst r) then g (snd r) else 0) + tot P g t"
  by (simp_all add: tot_def)

lemma tot_update:
  "map_of t k = Some old \<Longrightarrow> tot P g (AList.update k v t) = tot P g t + (if P k then g v - g old else 0)"
  by (induction t) auto

lemma tot_upsert:
  assumes "\<And>old. g (f old) = g old + g v"
  shows "tot P g (upsert k v f t) = tot P g t + (if P k then g v else 0)"
  by (auto simp: upsert_def tot_update assms split: option.splits)

lemma tot_delete: "tot P g (delete_where Q t) = tot P g t - (\<Sum>r\<leftarrow>filter (\<lambda>r. Q (fst r) (snd r)) t. if P (fst r) then g (snd r) else 0)"
  by (induction t) (auto simp: delete_where_def)

lemma tot_mset: "mset t = mset u \<Longrightarrow> tot P g t = tot P g u"
  unfolding tot_def by (simp flip: sum_mset_sum_list)

lemma sum_groups:
  "(\<Sum>p\<leftarrow>group_rows G rows. if P (fst p) then \<Sum>r\<leftarrow>snd p. h r else 0) = (\<Sum>r\<leftarrow>rows. if P (G r) then h r else (0::int))"
proof -
  have "finite K \<Longrightarrow> G ` set rows \<subseteq> K \<Longrightarrow>
      (\<Sum>k\<in>K. if P k then \<Sum>r\<leftarrow>filter (\<lambda>r. G r = k) rows. h r else 0) = (\<Sum>r\<leftarrow>rows. if P (G r) then h r else 0)" for K
  proof (induction rows)
    case (Cons a rows)
    have "(\<Sum>k\<in>K. if P k then \<Sum>r\<leftarrow>filter (\<lambda>r. G r = k) (a # rows). h r else 0) =
          (\<Sum>k\<in>K. (if k = G a then if P k then h a else 0 else 0) + (if P k then \<Sum>r\<leftarrow>filter (\<lambda>r. G r = k) rows. h r else 0))"
      by (rule sum.cong) auto
    also have "\<dots> = (if P (G a) then h a else 0) + (\<Sum>r\<leftarrow>rows. if P (G r) then h r else 0)"
      using Cons by (simp add: sum.distrib)
    finally show ?case by simp
  qed (simp add: sum.neutral)
  from this [of "set (map G rows)"] show ?thesis
    by (simp add: group_rows_def comp_def sum_list_distinct_conv_sum_set cong: if_cong)
qed

section \<open>Days\<close>

definition on_day :: "string \<Rightarrow> string \<Rightarrow> string \<Rightarrow> int64 \<Rightarrow> traffic_key \<Rightarrow> bool" where
  "on_day p e o' D k \<longleftrightarrow> fst (snd k) div 86400 = D \<and> snd (snd k) = (p, e, o')"

lemma floor_day:
  assumes "0 \<le> b" and "0 < w" and "w dvd 86400"
  shows "quot b w * w div 86400 = b div 86400" "0 \<le> quot b w * w"
proof -
  from assms(3) obtain m where m: "86400 = w * m" ..
  have "0 < m" by (rule zero_less_mult_pos [OF _ assms(2)]) (simp flip: m)
  have q: "quot b w = b div w" using assms by (cases "b = 0") (simp_all add: quot_def)
  show "0 \<le> quot b w * w" using q assms by (simp add: pos_imp_zdiv_nonneg_iff)
  have "b div w * w div (w * m) = b div w div m" using assms(2) \<open>0 < m\<close> by (simp add: zdiv_zmult2_eq)
  also have "\<dots> = b div (w * m)" using assms(2) \<open>0 < m\<close> by (simp add: zdiv_zmult2_eq)
  finally show "quot b w * w div 86400 = b div 86400" by (simp add: q m)
qed

lemma ts_div [simp]: "ts t = t div second"
  by (simp add: ts_def)

lemma from_ts_div [simp]: "from_ts i div second = i"
  by (simp add: from_ts_def)

lemma fine_bucket:
  assumes "0 \<le> t"
  shows "ts (bucket t span_fine) div 86400 = ts t div 86400" "0 \<le> ts (bucket t span_fine)"
proof -
  have "0 \<le> t div second" using assms by (simp add: pos_imp_zdiv_nonneg_iff)
  from floor_day [OF this, of 300] this
  show "ts (bucket t span_fine) div 86400 = ts t div 86400" "0 \<le> ts (bucket t span_fine)"
    by (simp_all add: bucket_def span_fine_def Let_def)
qed

section \<open>The table under its operations\<close>

definition buckets_ok :: "series_db \<Rightarrow> bool" where
  "buckets_ok s \<longleftrightarrow> (\<forall>r \<in> set (sd_traffic s). 0 \<le> fst (snd (fst r)))"

definition figure :: "(int64 \<times> int64 \<Rightarrow> int) \<Rightarrow> bool" where
  "figure g \<longleftrightarrow> g = fst \<or> g = snd"

lemma figure_add: "figure g \<Longrightarrow> g (fst a + fst b, snd a + snd b) = g a + g b"
  by (auto simp: figure_def)

lemma tot_add_traffic:
  "figure g \<Longrightarrow> tot P g (sd_traffic (add_traffic k v s)) = tot P g (sd_traffic s) + (if P k then g v else 0)"
  by (simp add: add_traffic_def tot_upsert figure_add)

lemma buckets_add_traffic: "buckets_ok s \<Longrightarrow> 0 \<le> fst (snd k) \<Longrightarrow> buckets_ok (add_traffic k v s)"
  by (auto simp: buckets_ok_def add_traffic_def dest!: upsert_set map_of_SomeD)

lemma fold_steps_tot:
  assumes "fold_res fold_step gs s = Inr s1" and "figure g"
  shows "tot P g (sd_traffic s1) =
    tot P g (sd_traffic s) + (\<Sum>p\<leftarrow>gs. if P (fst p) then \<Sum>r\<leftarrow>snd p. g (snd r) else 0)"
  using assms(1)
proof (induction gs arbitrary: s)
  case (Cons a gs)
  then obtain t where t: "fold_step a s = Inr t" "fold_res fold_step gs t = Inr s1"
    by (auto simp: bind_res_Inr_iff)
  from t(1) obtain n m where nm: "sql_sum (map (fst \<circ> snd) (snd a)) = Inr n" "sql_sum (map (snd \<circ> snd) (snd a)) = Inr m"
    and f: "t = add_traffic (fst a) (n, m) s"
    by (auto simp: bind_res_Inr_iff fold_step_def)
  have "g (n, m) = (\<Sum>r\<leftarrow>snd a. g (snd r))"
    using nm assms(2) by (auto simp: sql_sum_def figure_def comp_def split: if_splits)
  with Cons.IH [OF t(2)] show ?case by (simp add: f tot_add_traffic [OF assms(2)])
qed simp

lemma fold_steps_buckets:
  assumes "fold_res fold_step gs s = Inr s1" and "buckets_ok s" and "\<And>p. p \<in> set gs \<Longrightarrow> 0 \<le> fst (snd (fst p))"
  shows "buckets_ok s1"
  by (rule fold_res_invariant [where I = buckets_ok, OF assms(1,2)])
    (auto simp: fold_step_def bind_res_Inr_iff intro!: buckets_add_traffic assms(3))

lemma group_rows_key: "x \<in> set (group_rows G rows) \<Longrightarrow> \<exists>r \<in> set rows. fst x = G r"
  by (auto simp: group_rows_def)

lemma fold_rows_day:
  assumes f: "fold_rows from to cutoff s = Inr s'" and ok: "buckets_ok s" and g: "figure g"
    and to: "0 < to" "to dvd 86400" "to \<noteq> from"
  shows "tot (on_day p e o' D) g (sd_traffic s') = tot (on_day p e o' D) g (sd_traffic s)" (is "tot ?P _ _ = _")
    and "buckets_ok s'"
proof -
  let ?src = "filter (\<lambda>r. fold_source from cutoff (fst r))"
  define rows where "rows = ?src (sd_traffic s)"
  from f obtain s1 where 1: "fold_res fold_step (group_rows (fold_group to \<circ> fst) rows) s = Inr s1"
    and s': "s' = s1\<lparr>sd_traffic := delete_where (\<lambda>k _. fold_source from cutoff k) (sd_traffic s1)\<rparr>"
    by (auto simp: fold_rows_def rows_def bind_res_Inr_iff)
  have G: "?P (fold_group to (fst r)) = ?P (fst r)" "0 \<le> fst (snd (fold_group to (fst r)))"
    if "r \<in> set rows" for r
    using floor_day [OF _ to(1,2), of "fst (snd (fst r))"] ok that
    by (auto simp: rows_def buckets_ok_def fold_group_def on_day_def split: prod.splits)
  have steps: "tot Q g (sd_traffic s1) = tot Q g (sd_traffic s) + (\<Sum>r\<leftarrow>rows. if Q (fold_group to (fst r)) then g (snd r) else 0)" for Q
    using fold_steps_tot [OF 1 g, of Q] sum_groups [of Q "\<lambda>r. g (snd r)" "fold_group to \<circ> fst" rows] by simp
  have src: "tot (\<lambda>k. ?P k \<and> fold_source from cutoff k) g t = (\<Sum>r\<leftarrow>?src t. if ?P (fst r) then g (snd r) else 0)" for t
    by (induction t) auto
  have none: "\<not> fold_source from cutoff (fold_group to k)" for k
    using to(3) by (simp add: fold_source_def fold_group_def split: prod.splits)
  have "(\<Sum>r\<leftarrow>?src (sd_traffic s1). if ?P (fst r) then g (snd r) else 0) = (\<Sum>r\<leftarrow>rows. if ?P (fst r) then g (snd r) else 0)"
    using steps [of "\<lambda>k. ?P k \<and> fold_source from cutoff k"] unfolding src by (simp add: none rows_def)
  moreover have "(\<Sum>r\<leftarrow>rows. if ?P (fold_group to (fst r)) then g (snd r) else 0) = (\<Sum>r\<leftarrow>rows. if ?P (fst r) then g (snd r) else 0)"
    by (intro arg_cong [where f = sum_list] map_cong refl if_cong) (simp_all add: G)
  ultimately show "tot ?P g (sd_traffic s') = tot ?P g (sd_traffic s)"
    using steps [of ?P] by (simp add: s' tot_delete)
  have "buckets_ok s1"
  proof (rule fold_steps_buckets [OF 1 ok])
    fix g' assume "g' \<in> set (group_rows (fold_group to \<circ> fst) rows)"
    from group_rows_key [OF this] show "0 \<le> fst (snd (fst g'))" using G(2) by force
  qed
  then show "buckets_ok s'" by (auto simp: s' buckets_ok_def delete_where_def)
qed

lemma sum_list_zero: "(\<And>x. x \<in> set xs \<Longrightarrow> f x = (0::int)) \<Longrightarrow> sum_list (map f xs) = 0"
  by (induction xs) auto

lemma expire_day:
  assumes "cutoff \<le> D * 86400"
  shows "tot (on_day p e o' D) g (sd_traffic (expire_traffic span cutoff s)) = tot (on_day p e o' D) g (sd_traffic s)"
proof -
  have "\<not> on_day p e o' D k" if "fst (snd k) < cutoff" for k
    using that assms by (auto simp: on_day_def)
  then have "(if on_day p e o' D (fst r) then g (snd r) else 0) = 0"
    if "r \<in> set (filter (\<lambda>r. fst (fst r) = span \<and> fst (snd (fst r)) < cutoff) t)" for r t
    using that by auto
  then have "(\<Sum>r\<leftarrow>filter (\<lambda>r. fst (fst r) = span \<and> fst (snd (fst r)) < cutoff) t. if on_day p e o' D (fst r) then g (snd r) else 0) = 0" for t
    by (intro sum_list_zero) blast
  then show ?thesis by (simp add: expire_traffic_def tot_delete)
qed

lemma run_steps_invariant:
  assumes "run_steps refused fs s = (s', r)" and "I s"
    and "\<And>f s s'. f \<in> set fs \<Longrightarrow> f s = Inr s' \<Longrightarrow> I s \<Longrightarrow> I s'"
  shows "I s'"
  using assms
proof (induction fs arbitrary: refused s)
  case (Cons f fs)
  show ?case
  proof (cases "f s")
    case (Inl e)
    then show ?thesis using Cons.prems(1,2) by (auto simp: series_tx_def split: if_splits)
  next
    case (Inr t)
    then show ?thesis using Cons.prems Cons.IH [of "tl refused" t]
      by (auto simp: series_tx_def split: if_splits)
  qed
qed simp

text \<open>A compaction, complete or stopped by a refused statement, keeps the totals of every day that has not expired.\<close>

lemma compact_day:
  assumes c: "compact_series refused now s = (s', r)" and ok: "buckets_ok s" and g: "figure g"
    and D: "ts (now - retain_day) \<le> D * 86400"
  shows "tot (on_day p e o' D) g (sd_traffic s') = tot (on_day p e o' D) g (sd_traffic s) \<and> buckets_ok s'"
proof (rule run_steps_invariant [OF c [unfolded compact_series_def], where
    I = "\<lambda>x. tot (on_day p e o' D) g (sd_traffic x) = tot (on_day p e o' D) g (sd_traffic s) \<and> buckets_ok x"])
  fix f x y
  assume f: "f \<in> set (compact_steps now)" "f x = Inr y"
    and I: "tot (on_day p e o' D) g (sd_traffic x) = tot (on_day p e o' D) g (sd_traffic s) \<and> buckets_ok x"
  have del: "buckets_ok (expire_traffic w n x)" "buckets_ok (expire_upstream w n x)" "buckets_ok (expire_storage n x)" for w n
    using I by (auto simp: buckets_ok_def expire_traffic_def expire_upstream_def expire_storage_def delete_where_def)
  have same: "sd_traffic (expire_upstream w n x) = sd_traffic x" "sd_traffic (expire_storage n x) = sd_traffic x" for w n
    by (simp_all add: expire_upstream_def expire_storage_def)
  consider a b n where "fold_rows a b n x = Inr y" "0 < b" "b dvd 86400" "b \<noteq> a"
    | "y = expire_traffic span_day (ts (now - retain_day)) x"
    | "y = expire_upstream span_hour (ts (now - retain_hour)) x"
    | "y = expire_storage (ts (now - retain_day)) x"
    using f by (auto simp: compact_steps_def span_fine_def span_hour_def span_day_def)
  then show "tot (on_day p e o' D) g (sd_traffic y) = tot (on_day p e o' D) g (sd_traffic s) \<and> buckets_ok y"
  proof cases
    case 1
    then show ?thesis using fold_rows_day [OF 1(1) _ g 1(2-4)] I by simp
  next
    case 2
    then show ?thesis using expire_day [OF D] I del(1) by simp
  next
    case 3
    then show ?thesis using I del(2) same(1) by simp
  next
    case 4
    then show ?thesis using I del(3) same(2) by simp
  qed
qed (simp add: ok)

section \<open>What the collector holds\<close>

definition on_day_series :: "string \<Rightarrow> string \<Rightarrow> string \<Rightarrow> int64 \<Rightarrow> series_key \<Rightarrow> bool" where
  "on_day_series p e o' D k \<longleftrightarrow> fst k div 86400 = D \<and> snd k = (p, e, o')"

definition event_on :: "string \<Rightarrow> string \<Rightarrow> string \<Rightarrow> int64 \<Rightarrow> request_event \<Rightarrow> bool" where
  "event_on p e o' D v \<longleftrightarrow> ts (ev_at v) div 86400 = D \<and> ev_project v = p \<and> ev_eco v = e \<and> ev_outcome v = o'"

definition event_figures :: "request_event \<Rightarrow> int64 \<times> int64" where
  "event_figures v = (1, max 0 (ev_bytes v))"

definition logged :: "(int64 \<times> int64 \<Rightarrow> int) \<Rightarrow> string \<Rightarrow> string \<Rightarrow> string \<Rightarrow> int64 \<Rightarrow> request_event list \<Rightarrow> int" where
  "logged g p e o' D vs = (\<Sum>v\<leftarrow>vs. if event_on p e o' D v then g (event_figures v) else 0)"

definition series_keys_ok :: "collector \<Rightarrow> bool" where
  "series_keys_ok s \<longleftrightarrow> (\<forall>r \<in> set (co_series s). 0 \<le> fst (fst r))"

lemma count_series_tot:
  assumes "figure g" and "0 \<le> ev_at v"
  shows "tot (on_day_series p e o' D) g (co_series (count_series v s)) =
    tot (on_day_series p e o' D) g (co_series s) + (if event_on p e o' D v then g (event_figures v) else 0)"
  using assms(1) fine_bucket(1) [OF assms(2)]
  by (subst count_series_def, auto simp: Let_def figure_def event_on_def on_day_series_def event_figures_def
      tot_upsert split: prod.splits simp del: ts_div)

lemma count_series_keys: "series_keys_ok s \<Longrightarrow> 0 \<le> ev_at v \<Longrightarrow> series_keys_ok (count_series v s)"
  using fine_bucket(2) [of "ev_at v"]
  by (auto simp: series_keys_ok_def count_series_def Let_def simp del: ts_div dest!: upsert_set map_of_SomeD)

lemma record_rows_tot:
  assumes "figure g" and "\<And>d. d \<in> set ds \<Longrightarrow> 0 \<le> sd_bucket d"
  shows "tot (on_day p e o' D) g (sd_traffic (fold record_traffic_row ds s)) =
    tot (on_day p e o' D) g (sd_traffic s) +
    (\<Sum>d\<leftarrow>ds. if ts (sd_bucket d) div 86400 = D \<and> (sd_project d, sd_eco d, sd_outcome d) = (p, e, o')
               then g (sd_count d, sd_bytes d) else 0)"
  using assms(2)
proof (induction ds arbitrary: s)
  case (Cons d ds)
  then have d: "ts (bucket (sd_bucket d) span_fine) div 86400 = ts (sd_bucket d) div 86400" by (intro fine_bucket) simp
  show ?case using Cons
    by (simp add: record_traffic_row_def tot_add_traffic [OF assms(1)] on_day_def d del: ts_div)
qed simp

lemma record_rows_buckets:
  "(\<And>d. d \<in> set ds \<Longrightarrow> 0 \<le> sd_bucket d) \<Longrightarrow> buckets_ok s \<Longrightarrow> buckets_ok (fold record_traffic_row ds s)"
proof (induction ds arbitrary: s)
  case (Cons d ds)
  then have "buckets_ok (record_traffic_row d s)"
    unfolding record_traffic_row_def using fine_bucket(2) [of "sd_bucket d"]
    by (intro buckets_add_traffic) (simp_all del: ts_div)
  with Cons show ?case by simp
qed simp

section \<open>The collector and the series together\<close>

text \<open>
  \<open>usage_run pend log t col s\<close>: from an empty start, the requests \<open>pend\<close> are
  counted and not flushed, the requests \<open>log\<close> were flushed to the series \<open>s\<close>,
  \<open>t\<close> is the latest time of a compaction. A flush whose series transaction is refused
  loses its window.
\<close>

inductive usage_run ::
  "request_event list \<Rightarrow> request_event list \<Rightarrow> gotime \<Rightarrow> collector \<Rightarrow> series_db \<Rightarrow> bool" where
  usage_start: "usage_run [] [] 0 new_collector empty_series"
| usage_request: "usage_run pend log t col s \<Longrightarrow> 0 \<le> ev_at v \<Longrightarrow>
    usage_run (v # pend) log t (count_series v col) s"
| usage_package: "usage_run pend log t col s \<Longrightarrow> usage_run pend log t (record_package p e n at col) s"
| usage_touch: "usage_run pend log t col s \<Longrightarrow> usage_run pend log t (record_touch k d at col) s"
| usage_traffic: "usage_run pend log t col s \<Longrightarrow> usage_run pend log t (record_traffic p e hit n col) s"
| usage_flush: "usage_run pend log t col s \<Longrightarrow> (\<And>xs. mset (order xs) = mset xs) \<Longrightarrow>
    engine_flush order flt (col, c, s) = ((col', c', s'), errs) \<Longrightarrow>
    usage_run [] (if ff_series flt then log else pend @ log) t col' s'"
| usage_upstream: "usage_run pend log t col s \<Longrightarrow> usage_run pend log t col (fst (record_series refused [] us s))"
| usage_sample: "usage_run pend log t col s \<Longrightarrow> usage_run pend log t col (fst (sample_storage refused a s))"
| usage_compact: "usage_run pend log t col s \<Longrightarrow> usage_run pend log (max t now) col (fst (compact_series rs now s))"

lemma upstream_rows_traffic [simp]: "sd_traffic (fold record_upstream_row us s) = sd_traffic s"
  by (induction us arbitrary: s) (simp_all add: record_upstream_row_def)

lemma side_tables [simp]:
  "sd_traffic (fst (record_series refused [] us s)) = sd_traffic s"
  "sd_traffic (fst (sample_storage refused a s)) = sd_traffic s"
  "co_series (record_package p e n at col) = co_series col"
  "co_series (record_touch k d at col) = co_series col"
  "co_series (record_traffic p e hit m col) = co_series col"
  by (simp_all add: record_series_def sample_storage_def series_tx_def Let_def record_package_def
      record_touch_def record_traffic_def)

definition drained :: "collector \<Rightarrow> series_delta list" where
  "drained col = snd (snd (snd (snd (drain col))))"

lemma drained_tot:
  "(\<Sum>d\<leftarrow>drained col. if ts (sd_bucket d) div 86400 = D \<and> (sd_project d, sd_eco d, sd_outcome d) = (p, e, o')
               then g (sd_count d, sd_bytes d) else 0) = tot (on_day_series p e o' D) g (co_series col)"
proof -
  have "(\<Sum>d\<leftarrow>map (\<lambda>((b, p, e, o'), c, n). \<lparr>sd_bucket = from_ts b, sd_project = p, sd_eco = e, sd_outcome = o',
           sd_count = c, sd_bytes = n\<rparr>) rows.
         if ts (sd_bucket d) div 86400 = D \<and> (sd_project d, sd_eco d, sd_outcome d) = (p, e, o')
         then g (sd_count d, sd_bytes d) else 0) = tot (on_day_series p e o' D) g rows" for rows
    by (induction rows) (auto simp: on_day_series_def)
  then show ?thesis by (simp only: drained_def drain_def snd_conv)
qed

lemma drained_times: "series_keys_ok col \<Longrightarrow> d \<in> set (drained col) \<Longrightarrow> 0 \<le> sd_bucket d"
  by (auto simp: drained_def drain_def series_keys_ok_def from_ts_def)

lemma flush_series:
  assumes "engine_flush order flt (col, c, s) = ((col', c', s'), errs)" and "mset (order (drained col)) = mset (drained col)"
  shows "col' = new_collector"
    "s' = s \<or> \<not> ff_series flt \<and> s' = fold record_traffic_row (order (drained col)) s"
    "\<not> ff_series flt \<Longrightarrow> s' = fold record_traffic_row (order (drained col)) s"
  using assms
  by (auto simp: engine_flush_def drain_def drained_def record_series_def series_tx_def Let_def
      split: prod.splits if_splits)

lemma flush_tot:
  assumes "series_keys_ok col" and "mset (order (drained col)) = mset (drained col)"
  shows "figure g \<Longrightarrow> tot (on_day p e o' D) g (sd_traffic (fold record_traffic_row (order (drained col)) s)) =
    tot (on_day p e o' D) g (sd_traffic s) + tot (on_day_series p e o' D) g (co_series col)"
    "buckets_ok s \<Longrightarrow> buckets_ok (fold record_traffic_row (order (drained col)) s)"
proof -
  have t: "d \<in> set (order (drained col)) \<Longrightarrow> 0 \<le> sd_bucket d" for d
    using mset_eq_setD [OF assms(2)] drained_times [OF assms(1)] by simp
  have eq: "sum_list (map h (order (drained col))) = sum_list (map h (drained col))" for h :: "series_delta \<Rightarrow> int"
    by (simp flip: sum_mset_sum_list add: assms(2))
  show "tot (on_day p e o' D) g (sd_traffic (fold record_traffic_row (order (drained col)) s)) =
    tot (on_day p e o' D) g (sd_traffic s) + tot (on_day_series p e o' D) g (co_series col)" if "figure g"
    by (rule trans [OF record_rows_tot [OF that]]) (erule t, simp only: eq drained_tot)
  show "buckets_ok s \<Longrightarrow> buckets_ok (fold record_traffic_row (order (drained col)) s)"
    by (rule record_rows_buckets [OF t])
qed

definition accounted :: "request_event list \<Rightarrow> request_event list \<Rightarrow> gotime \<Rightarrow> collector \<Rightarrow> series_db \<Rightarrow> bool" where
  "accounted pend log t col s \<longleftrightarrow> buckets_ok s \<and> series_keys_ok col \<and>
     (\<forall>g p e o' D. figure g \<longrightarrow> tot (on_day_series p e o' D) g (co_series col) = logged g p e o' D pend \<and>
        (ts (t - retain_day) \<le> D * 86400 \<longrightarrow> tot (on_day p e o' D) g (sd_traffic s) = logged g p e o' D log))"

lemma accounted_run: "usage_run pend log t col s \<Longrightarrow> accounted pend log t col s"
proof (induction rule: usage_run.induct)
  case usage_start
  show ?case by (simp add: accounted_def buckets_ok_def series_keys_ok_def empty_series_def new_collector_def logged_def)
next
  case (usage_request pend log t col s v)
  then show ?case
    by (simp add: accounted_def count_series_tot count_series_keys logged_def)
next
  case (usage_flush pend log t col s order flt c col' c' s' errs)
  note m = usage_flush.hyps(2) [of "drained col"]
  note f = flush_series [OF usage_flush.hyps(3) m]
  have I: "buckets_ok s" "series_keys_ok col"
    using usage_flush.IH by (simp_all add: accounted_def)
  note ft = flush_tot [where order = order, OF I(2) m]
  have "accounted [] log t new_collector s"
    using usage_flush.IH by (simp add: accounted_def series_keys_ok_def new_collector_def logged_def)
  moreover have "accounted [] (pend @ log) t new_collector (fold record_traffic_row (order (drained col)) s)"
    using usage_flush.IH ft
    by (simp add: accounted_def series_keys_ok_def new_collector_def logged_def add.commute)
  ultimately show ?case using f by auto
next
  case (usage_compact pend log t col s now rs)
  obtain s' r where c: "compact_series rs now s = (s', r)" by fastforce
  have I: "buckets_ok s" using usage_compact.IH by (simp add: accounted_def)
  have mono: "ts (u - retain_day) \<le> D * 86400" if "ts (max t now - retain_day) \<le> D * 86400" "u \<in> {t, now}" for u D
    using that by (auto elim!: order_trans [rotated] intro!: zdiv_mono1)
  have "ts (now - retain_day) \<le> \<bar>ts (now - retain_day)\<bar> * 86400" by simp
  from compact_day [OF c I _ this, of fst] have "buckets_ok s'" by (simp add: figure_def)
  then show ?case using usage_compact.IH c mono compact_day [OF c I] unfolding accounted_def by auto
qed (simp_all add: accounted_def series_keys_ok_def buckets_ok_def)

lemma logged_figures:
  "logged fst p e o' D vs = int (length (filter (event_on p e o' D) vs))"
  "logged snd p e o' D vs = (\<Sum>v\<leftarrow>filter (event_on p e o' D) vs. max 0 (ev_bytes v))"
  by (induction vs) (auto simp: logged_def event_figures_def)

text \<open>
  C32. The traffic history is exact. Whatever requests are counted and flushed, whichever
  transactions are refused, however often and however far compactions get before they stop:
  the rows of any day that no compaction was late enough to expire, at whatever resolution
  they are by then, add up to the number of flushed requests of that day, project, ecosystem
  and outcome, and to their bytes. Nothing is counted twice and nothing flushed is lost.
\<close>

theorem series_accounts:
  assumes "usage_run pend log t col s" and "ts (t - retain_day) \<le> D * 86400"
  shows "tot (on_day p e o' D) fst (sd_traffic s) = int (length (filter (event_on p e o' D) log))
    \<and> tot (on_day p e o' D) snd (sd_traffic s) = (\<Sum>v\<leftarrow>filter (event_on p e o' D) log. max 0 (ev_bytes v))"
  using accounted_run [OF assms(1)] assms(2)
  by (simp add: accounted_def figure_def logged_figures del: ts_div)

definition ex_event :: request_event where
  "ex_event = \<lparr>ev_project = ''p'', ev_eco = ''npm'', ev_outcome = ''hit'', ev_bytes = 7, ev_at = 10 * second\<rparr>"

definition ex_flush :: "(collector \<times> catalog \<times> series_db) \<times> cat_error list" where
  "ex_flush = engine_flush id \<lparr>ff_access = NoFault, ff_touch = NoFault, ff_series = False\<rparr>
     (count_series ex_event new_collector, catalog_open 0 0 empty_db, empty_series)"

lemma ex_usage_run:
  "usage_run [] [ex_event] (86400 * 10 * second) (fst (fst ex_flush))
     (fst (compact_series [] (86400 * 10 * second) (snd (snd (fst ex_flush)))))"
proof -
  have r: "usage_run [ex_event] [] 0 (count_series ex_event new_collector) empty_series"
    by (intro usage_request usage_start) (simp add: ex_event_def)
  obtain col c s errs where f: "ex_flush = ((col, c, s), errs)" by (metis prod.collapse)
  from usage_flush [where order = id, OF r _ f [unfolded ex_flush_def]]
  have "usage_run [] [ex_event] 0 col s" by simp
  from usage_compact [OF this, of "86400 * 10 * second" "[]"] show ?thesis by (simp add: f)
qed

theorem series_accounts_witness:
  "tot (on_day ''p'' ''npm'' ''hit'' 0) fst
     (sd_traffic (fst (compact_series [] (86400 * 10 * second) (snd (snd (fst ex_flush)))))) = 1"
  using series_accounts [OF ex_usage_run, of 0 "''p''" "''npm''" "''hit''"]
  by (simp add: retain_day_def event_on_def ex_event_def)

theorem stats_order_free_witness:
  "map es_eco (re_by_eco (projr (snd (catalog_stats rev NoFault [] []
     (catalog_open 0 0 (empty_db\<lparr>db_traffic := [((''p'', ''npm''), \<lparr>tr_hit_count = 1, tr_hit_bytes = 1, tr_miss_count = 0, tr_miss_bytes = 0\<rparr>),
                                                ((''p'', ''go''), \<lparr>tr_hit_count = 1, tr_hit_bytes = 1, tr_miss_count = 0, tr_miss_bytes = 0\<rparr>)]\<rparr>))))))
   = [''go'', ''npm'']"
  by (subst stats_order_free [where order = rev, THEN conjunct1])
    (simp_all add: catalog_stats_def after_flush_def flush_def flush_locked_def catalog_open_def empty_db_def
      record_flush_def stats_eco_map_def stats_inventory_def stats_traffic_def stats_requests_def group_rows_def
      stats_select_def set_eco_def upsert_def eco_key_def zero_eco_def sql_sum_def is_int64_def sort_eco_stats_def
      eco_before_def Let_def)

end
