(* ===== verification/Manifest.thy ===== *)
theory Manifest
  imports Digest
begin

text \<open>
  Package snapshot (go/internal/snapshot), the manifest stream: manifest.go and diff.go. A
  manifest is a gzip stream whose text is one header line and one tab-separated line per entry
  in strictly ascending order. What the code does with package compress/gzip and with the
  RFC 3339 form of a time is a parameter, the record \<open>codec\<close>; url.QueryEscape is written out.
\<close>

section \<open>Package net/url: QueryEscape and QueryUnescape\<close>

definition upper_hex_digit :: "nat \<Rightarrow> char" where
  "upper_hex_digit n = (if n < 10 then char_of (48 + n) else char_of (55 + n))"

definition unreserved :: "char \<Rightarrow> bool" where
  "unreserved c \<longleftrightarrow>
     (48 \<le> ord c \<and> ord c \<le> 57) \<or> (65 \<le> ord c \<and> ord c \<le> 90) \<or> (97 \<le> ord c \<and> ord c \<le> 122) \<or>
     c \<in> {CHR ''-'', CHR ''_'', CHR ''.'', CHR ''~''}"

definition escape_char :: "char \<Rightarrow> string" where
  "escape_char c =
     (if unreserved c then [c] else if c = CHR '' '' then ''+''
      else [CHR ''%'', upper_hex_digit (ord c div 16), upper_hex_digit (ord c mod 16)])"

definition query_escape :: "string \<Rightarrow> string" where
  "query_escape s = concat (map escape_char s)"

definition hex_digit_value :: "char \<Rightarrow> nat option" where
  "hex_digit_value c =
     (if 48 \<le> ord c \<and> ord c \<le> 57 then Some (ord c - 48)
      else if 65 \<le> ord c \<and> ord c \<le> 70 then Some (ord c - 55)
      else if 97 \<le> ord c \<and> ord c \<le> 102 then Some (ord c - 87) else None)"

fun query_unescape :: "string \<Rightarrow> string option" where
  "query_unescape [] = Some []"
| "query_unescape (c # s) =
     (if c = CHR ''%'' then
        (case s of
           a # b # r \<Rightarrow>
             (case (hex_digit_value a, hex_digit_value b) of
                (Some x, Some y) \<Rightarrow> map_option ((#) (char_of (16 * x + y))) (query_unescape r)
              | _ \<Rightarrow> None)
         | _ \<Rightarrow> None)
      else map_option ((#) (if c = CHR ''+'' then CHR '' '' else c)) (query_unescape s))"

section \<open>manifest.go\<close>

definition manifest_magic :: string where
  "manifest_magic = ''#pkgreg-manifest v1''"

definition managed_key_prefix :: string where
  "managed_key_prefix = ''~managed/''"

definition managed_key :: "string \<Rightarrow> string \<times> bool" where
  "managed_key key =
     (if \<not> has_prefix key managed_key_prefix then ([], False)
      else let relative = trim_prefix key managed_key_prefix in (relative, relative \<noteq> []))"

record mentry =
  me_eco :: string
  me_key :: string
  me_digest :: digest
  me_size :: int64

record mheader =
  mh_project :: string
  mh_created :: gotime

datatype manifest_error =
    MfHeaderRequired
  | MfWriteHeader
  | MfInvalidEntry string string
  | MfUnsorted string string
  | MfWriteEntry
  | MfFlush
  | MfClose
  | MfOpenGzip
  | MfReadHeader
  | MfUnterminated
  | MfRead
  | MfMalformed
  | MfBadSize
  | MfBadHeader
  | MfBadProject
  | MfBadCreated

text \<open>
  \<open>cx_gunzip\<close> gives the text a gzip stream decodes to and whether the decoder ends with an
  error (a damaged trailer) instead of the end of the stream; \<open>None\<close> is a stream without a gzip
  header. \<open>cx_format\<close> and \<open>cx_parse\<close> are Format and Parse at the layout RFC3339Nano in UTC.
\<close>

record codec =
  cx_gzip :: "string \<Rightarrow> string"
  cx_gunzip :: "string \<Rightarrow> (string \<times> bool) option"
  cx_format :: "gotime \<Rightarrow> string"
  cx_parse :: "string \<Rightarrow> gotime option"

text \<open>Which writes to the destination fail: the header, the line of the n-th entry, the flush, the close.\<close>

record sink =
  sk_header :: bool
  sk_entry :: "nat \<Rightarrow> bool"
  sk_flush :: bool
  sk_close :: bool

definition bad_field :: "string \<Rightarrow> bool" where
  "bad_field s \<longleftrightarrow> s = [] \<or> list_ex (\<lambda>c. c \<in> {CHR 0x09, CHR 0x0D, CHR 0x0A}) s"

definition validate_entry :: "mentry \<Rightarrow> manifest_error + unit" where
  "validate_entry e =
     (if bad_field (me_eco e) \<or> bad_field (me_key e) \<or> \<not> digest_valid (me_digest e) \<or> me_size e < 0
      then Inl (MfInvalidEntry (me_eco e) (me_key e)) else Inr ())"

definition entry_mark :: "mentry \<Rightarrow> string" where
  "entry_mark e = me_eco e @ CHR 0x00 # me_key e"

definition entry_line :: "mentry \<Rightarrow> string" where
  "entry_line e =
     me_eco e @ CHR 0x09 # me_key e @ CHR 0x09 # me_digest e @ CHR 0x09 # format_int (me_size e) @ [CHR 0x0A]"

definition header_line :: "codec \<Rightarrow> mheader \<Rightarrow> string" where
  "header_line cx h =
     manifest_magic @ '' project='' @ query_escape (mh_project h) @ '' created=''
       @ cx_format cx (mh_created h) @ [CHR 0x0A]"

text \<open>The callback of WriteManifest; its state is the last mark, the text so far and the totals.\<close>

definition write_entry ::
  "sink \<Rightarrow> mentry \<Rightarrow> string \<times> string \<times> nat \<times> int64 \<Rightarrow> manifest_error + (string \<times> string \<times> nat \<times> int64)" where
  "write_entry sk e st =
     (case st of (previous, out, n, bytes) \<Rightarrow>
        bind_res (validate_entry e) (\<lambda>_.
          if previous \<noteq> [] \<and> entry_mark e \<le> previous then Inl (MfUnsorted (me_eco e) (me_key e))
          else if sk_entry sk n then Inl MfWriteEntry
          else Inr (entry_mark e, out @ entry_line e, Suc n, wrap64 (bytes + me_size e))))"

text \<open>
  \<open>src\<close> is what the entry source emits and the error it then fails with, if any; a source
  stops at the first error of its callback and returns it. \<open>wrap\<close> takes this package's errors
  to the caller's. The result is the file with its two totals.
\<close>

definition write_manifest ::
  "(manifest_error \<Rightarrow> 'e) \<Rightarrow> codec \<Rightarrow> sink \<Rightarrow> mheader \<Rightarrow> mentry list \<times> 'e option \<Rightarrow> 'e + (string \<times> nat \<times> int64)" where
  "write_manifest wrap cx sk h src =
     (if mh_project h = [] \<or> mh_created h = 0 then Inl (wrap MfHeaderRequired)
      else if sk_header sk then Inl (wrap MfWriteHeader)
      else case fold_res (write_entry sk) (fst src) ([], header_line cx h, 0, 0) of
             Inl e \<Rightarrow> Inl (wrap e)
           | Inr (_, out, n, bytes) \<Rightarrow>
               (case snd src of
                  Some e \<Rightarrow> Inl e
                | None \<Rightarrow>
                    if sk_flush sk then Inl (wrap MfFlush)
                    else if sk_close sk then Inl (wrap MfClose)
                    else Inr (cx_gzip cx out, n, bytes)))"

text \<open>\<open>bufio.Reader.ReadString\<close>: the part before the first newline, or the rest.\<close>

fun read_string :: "string \<Rightarrow> (string \<times> string) option" where
  "read_string [] = None"
| "read_string (c # s) =
     (if c = CHR 0x0A then Some ([], s) else map_option (\<lambda>(l, r). (c # l, r)) (read_string s))"

datatype line_result = Line string string | CleanEnd | BadLine manifest_error

definition read_line :: "string \<Rightarrow> bool \<Rightarrow> line_result" where
  "read_line text fails =
     (case read_string text of
        Some (l, r) \<Rightarrow> Line l r
      | None \<Rightarrow> if fails then BadLine MfRead
                else if text \<noteq> [] then BadLine MfUnterminated else CleanEnd)"

text \<open>\<open>strings.Fields\<close>: the maximal runs without white space.\<close>

fun fields_from :: "string \<Rightarrow> string \<Rightarrow> string list" where
  "fields_from w [] = (if w = [] then [] else [w])"
| "fields_from w (c # s) =
     (if is_space c then (if w = [] then fields_from [] s else w # fields_from [] s)
      else fields_from (w @ [c]) s)"

abbreviation fields_of :: "string \<Rightarrow> string list" where
  "fields_of \<equiv> fields_from []"

definition parse_header :: "codec \<Rightarrow> string \<Rightarrow> manifest_error + mheader" where
  "parse_header cx l =
     (case fields_of l of
        [a, b, p, c] \<Rightarrow>
          if a @ '' '' @ b \<noteq> manifest_magic \<or> \<not> has_prefix p ''project='' \<or> \<not> has_prefix c ''created=''
          then Inl MfBadHeader
          else (case query_unescape (trim_prefix p ''project='') of
                  None \<Rightarrow> Inl MfBadProject
                | Some project \<Rightarrow>
                    if project = [] then Inl MfBadProject
                    else (case cx_parse cx (trim_prefix c ''created='') of
                            None \<Rightarrow> Inl MfBadCreated
                          | Some created \<Rightarrow> Inr \<lparr>mh_project = project, mh_created = created\<rparr>))
      | _ \<Rightarrow> Inl MfBadHeader)"

record iterator =
  it_header :: mheader
  it_text :: string
  it_fails :: bool
  it_previous :: string
  it_ended :: bool

definition new_iterator :: "codec \<Rightarrow> string \<Rightarrow> manifest_error + iterator" where
  "new_iterator cx file =
     (case cx_gunzip cx file of
        None \<Rightarrow> Inl MfOpenGzip
      | Some (text, fails) \<Rightarrow>
          (case read_line text fails of
             Line l rest \<Rightarrow>
               bind_res (parse_header cx l) (\<lambda>h. Inr \<lparr>it_header = h, it_text = rest, it_fails = fails,
                 it_previous = [], it_ended = False\<rparr>)
           | _ \<Rightarrow> Inl MfReadHeader))"

text \<open>One row: its four fields, its size, its validity and its place in the order.\<close>

definition parse_entry :: "string \<Rightarrow> manifest_error + mentry" where
  "parse_entry l =
     (case split_on (CHR 0x09) l of
        [eco, key, d, sz] \<Rightarrow>
          (case parse_int sz of
             None \<Rightarrow> Inl MfBadSize
           | Some n \<Rightarrow>
               let e = \<lparr>me_eco = eco, me_key = key, me_digest = d, me_size = n\<rparr>
               in bind_res (validate_entry e) (\<lambda>_. Inr e))
      | _ \<Rightarrow> Inl MfMalformed)"

definition next_entry :: "iterator \<Rightarrow> (manifest_error + mentry option) \<times> iterator" where
  "next_entry it =
     (if it_ended it then (Inr None, it)
      else case read_line (it_text it) (it_fails it) of
             CleanEnd \<Rightarrow> (Inr None, it\<lparr>it_text := [], it_ended := True\<rparr>)
           | BadLine e \<Rightarrow> (Inl e, it\<lparr>it_text := []\<rparr>)
           | Line l rest \<Rightarrow>
               (let it1 = it\<lparr>it_text := rest\<rparr>
                in case parse_entry l of
                     Inl e \<Rightarrow> (Inl e, it1)
                   | Inr e \<Rightarrow>
                       if it_previous it \<noteq> [] \<and> entry_mark e \<le> it_previous it
                       then (Inl (MfUnsorted (me_eco e) (me_key e)), it1)
                       else (Inr (Some e), it1\<lparr>it_previous := entry_mark e\<rparr>)))"

lemma read_string_shorter: "read_string s = Some (l, r) \<Longrightarrow> length r < length s"
  by (induction s arbitrary: l) (auto split: if_splits)

lemma next_entry_shorter: "next_entry it = (Inr (Some e), it') \<Longrightarrow> length (it_text it') < length (it_text it)"
  by (auto simp: next_entry_def read_line_def Let_def split: if_splits line_result.splits option.splits
      sum.splits prod.splits dest: read_string_shorter)

text \<open>The callback \<open>fn\<close> of Walk threads a state of its own and can refuse an entry.\<close>

function walk_from ::
  "(manifest_error \<Rightarrow> 'e) \<Rightarrow> (mentry \<Rightarrow> 's \<Rightarrow> 'e + 's) \<Rightarrow> iterator \<Rightarrow> 's \<Rightarrow> nat \<Rightarrow> int64 \<Rightarrow> 'e + ('s \<times> nat \<times> int64)" where
  "walk_from wrap fn it s n bytes =
     (case next_entry it of
        (Inl e, _) \<Rightarrow> Inl (wrap e)
      | (Inr None, _) \<Rightarrow> Inr (s, n, bytes)
      | (Inr (Some e), it') \<Rightarrow>
          bind_res (fn e s) (\<lambda>s'. walk_from wrap fn it' s' (Suc n) (wrap64 (bytes + me_size e))))"
  by pat_completeness auto

termination
  by (relation "measure (\<lambda>(wrap, fn, it, s, n, b). length (it_text it))") (auto intro: next_entry_shorter [OF sym])

declare walk_from.simps [simp del]

definition walk_manifest ::
  "(manifest_error \<Rightarrow> 'e) \<Rightarrow> (mentry \<Rightarrow> 's \<Rightarrow> 'e + 's) \<Rightarrow> iterator \<Rightarrow> 's \<Rightarrow> 'e + ('s \<times> nat \<times> int64)" where
  "walk_manifest wrap fn it s = walk_from wrap fn it s 0 0"

text \<open>The rows before the first damaged one, and the error of that one.\<close>

function rows :: "iterator \<Rightarrow> mentry list \<times> manifest_error option" where
  "rows it =
     (case next_entry it of
        (Inl e, _) \<Rightarrow> ([], Some e)
      | (Inr None, _) \<Rightarrow> ([], None)
      | (Inr (Some e), it') \<Rightarrow> (e # fst (rows it'), snd (rows it')))"
  by pat_completeness auto

termination
  by (relation "measure (\<lambda>it. length (it_text it))") (auto intro: next_entry_shorter [OF sym])

declare rows.simps [simp del]

section \<open>diff.go\<close>

datatype change = Removed mentry | Added mentry | Replaced mentry mentry

definition entry_order :: "mentry \<Rightarrow> mentry \<Rightarrow> int" where
  "entry_order a b =
     (if me_eco a < me_eco b then -1 else if me_eco b < me_eco a then 1
      else if me_key a < me_key b then -1 else if me_key b < me_key a then 1 else 0)"

datatype 'e diff_error = DiffRead manifest_error | DiffAdvance manifest_error | DiffYield 'e

definition waiting :: "mentry option \<Rightarrow> iterator \<Rightarrow> nat" where
  "waiting e it = length (it_text it) + (if e = None then 0 else 1)"

text \<open>The row an iterator stands on after the next call of Next.\<close>

fun advance :: "(manifest_error + mentry option) \<times> iterator \<Rightarrow> 'e diff_error + (mentry option \<times> iterator)" where
  "advance (Inl e, it) = Inl (DiffAdvance e)"
| "advance (Inr r, it) = Inr (r, it)"

definition yield_change :: "(change \<Rightarrow> 's \<Rightarrow> 'e + 's) \<Rightarrow> change \<Rightarrow> 's \<Rightarrow> 'e diff_error + 's" where
  "yield_change fn c s = (case fn c s of Inl e \<Rightarrow> Inl (DiffYield e) | Inr s' \<Rightarrow> Inr s')"

lemma next_entry_text: "length (it_text (snd (next_entry it))) \<le> length (it_text it)"
  by (auto simp: next_entry_def read_line_def Let_def split: if_splits line_result.splits option.splits
      sum.splits prod.splits dest: read_string_shorter)

lemma advance_waiting: "advance (next_entry it) = Inr (r, it') \<Longrightarrow> waiting r it' \<le> length (it_text it)"
proof -
  assume a: "advance (next_entry it) = Inr (r, it')"
  then have n: "next_entry it = (Inr r, it')" by (cases "next_entry it" rule: advance.cases) auto
  with next_entry_text [of it] next_entry_shorter [of it _ it'] show ?thesis
    by (cases r) (auto simp: waiting_def)
qed

function diff_loop ::
  "(change \<Rightarrow> 's \<Rightarrow> 'e + 's) \<Rightarrow> mentry option \<Rightarrow> iterator \<Rightarrow> mentry option \<Rightarrow> iterator \<Rightarrow> 's \<Rightarrow> 'e diff_error + 's" where
  "diff_loop fn l base r target s =
     (case (l, r) of
        (None, None) \<Rightarrow> Inr s
      | (Some a, None) \<Rightarrow>
          bind_res (yield_change fn (Removed a) s) (\<lambda>s'.
            case advance (next_entry base) of
              Inl e \<Rightarrow> Inl e | Inr (l', base') \<Rightarrow> diff_loop fn l' base' None target s')
      | (None, Some b) \<Rightarrow>
          bind_res (yield_change fn (Added b) s) (\<lambda>s'.
            case advance (next_entry target) of
              Inl e \<Rightarrow> Inl e | Inr (r', target') \<Rightarrow> diff_loop fn None base r' target' s')
      | (Some a, Some b) \<Rightarrow>
          if entry_order a b < 0 then
            bind_res (yield_change fn (Removed a) s) (\<lambda>s'.
              case advance (next_entry base) of
                Inl e \<Rightarrow> Inl e | Inr (l', base') \<Rightarrow> diff_loop fn l' base' (Some b) target s')
          else if entry_order a b > 0 then
            bind_res (yield_change fn (Added b) s) (\<lambda>s'.
              case advance (next_entry target) of
                Inl e \<Rightarrow> Inl e | Inr (r', target') \<Rightarrow> diff_loop fn (Some a) base r' target' s')
          else
            bind_res (if me_digest a \<noteq> me_digest b \<or> me_size a \<noteq> me_size b
                      then yield_change fn (Replaced a b) s else Inr s) (\<lambda>s'.
              case advance (next_entry base) of
                Inl e \<Rightarrow> Inl e
              | Inr (l', base') \<Rightarrow>
                  (case advance (next_entry target) of
                     Inl e \<Rightarrow> Inl e | Inr (r', target') \<Rightarrow> diff_loop fn l' base' r' target' s')))"
  by pat_completeness auto

termination
  by (relation "measure (\<lambda>(fn, l, base, r, target, s). waiting l base + waiting r target)")
    (auto simp: waiting_def dest!: advance_waiting)

declare diff_loop.simps [simp del]

definition manifest_diff :: "(change \<Rightarrow> 's \<Rightarrow> 'e + 's) \<Rightarrow> iterator \<Rightarrow> iterator \<Rightarrow> 's \<Rightarrow> 'e diff_error + 's" where
  "manifest_diff fn base target s =
     (case next_entry base of
        (Inl e, _) \<Rightarrow> Inl (DiffRead e)
      | (Inr l, base') \<Rightarrow>
          (case next_entry target of
             (Inl e, _) \<Rightarrow> Inl (DiffRead e)
           | (Inr r, target') \<Rightarrow> diff_loop fn l base' r target' s))"

end
