(* ===== verification/Pack.thy ===== *)
theory Pack
  imports Manifest Blob Catalog
begin

text \<open>
  Package snapshot, the transfer pack: pack.go. A pack is a tar stream whose first member is
  pack.json, followed by the manifests of the checkpoints it carries, the blobs the last of them
  needs and, for the global project, certificates. Packages archive/tar and encoding/json are
  parameters: a tar stream is the list of its members, pack.json is encoded and decoded by two
  functions of the environment.
\<close>

section \<open>The portable form of a checkpoint\<close>

definition pack_version :: int where
  "pack_version = 1"

record meta =
  mt_id :: string
  mt_project :: string
  mt_parent :: string
  mt_manifest :: digest
  mt_count :: int64
  mt_bytes :: int64
  mt_created :: gotime
  mt_subject :: string
  mt_author :: string

record pack =
  pk_version :: int
  pk_project :: string
  pk_base :: string
  pk_target :: string
  pk_snapshots :: "meta list"
  pk_blobs :: int64
  pk_bytes :: int64

definition meta_of :: "snapshot \<Rightarrow> meta" where
  "meta_of s = \<lparr>mt_id = sn_id s, mt_project = sn_project s, mt_parent = sn_parent s,
     mt_manifest = sn_manifest s, mt_count = sn_count s, mt_bytes = sn_bytes s,
     mt_created = sn_created s, mt_subject = sn_subject s, mt_author = sn_author s\<rparr>"

definition meta_catalog :: "meta \<Rightarrow> snapshot" where
  "meta_catalog m = \<lparr>sn_id = mt_id m, sn_project = mt_project m, sn_parent = mt_parent m,
     sn_manifest = mt_manifest m, sn_count = mt_count m, sn_bytes = mt_bytes m,
     sn_created = mt_created m, sn_subject = mt_subject m, sn_author = mt_author m\<rparr>"

datatype pack_error =
    PkProjectRequired
  | PkNoCheckpoint
  | PkNotAncestor string string
  | PkForeignCheckpoint string string
  | PkIdentical
  | PkScratch
  | PkCancelled
  | PkCat cat_error
  | PkBlob blob_error
  | PkManifest manifest_error
  | PkForeignManifest string
  | PkTotals string
  | PkMissing digest
  | PkSize digest
  | PkTarWrite
  | PkEncode
  | PkCertRead
  | PkTarRead
  | PkFirstMember
  | PkDecode
  | PkVersion int
  | PkIncomplete
  | PkForeignPack string string
  | PkLineage string
  | PkTarget
  | PkNotFastForward string string
  | PkUnexpected string
  | PkCopy
  | PkCorrupt digest digest
  | PkDuplicate string
  | PkCertStage string
  | PkMissingManifest
  | PkPackTotals
  | PkConflict string
  | PkInstall string

text \<open>
  What a run of the code depends on beside its arguments: the store, the two encodings, and for
  each of its steps (\<open>nat\<close>) the faults of the file system and the database, the clock, the random
  part of a temporary name, how much of a body the file system accepts and whether the context has
  been cancelled. \<open>pe_apply\<close> is the callback of the composition root.
\<close>

record member =
  tm_name :: string
  tm_body :: string
  tm_size :: int64
  tm_torn :: bool

record pack_env =
  pe_codec :: codec
  pe_store :: store
  pe_encode :: "pack \<Rightarrow> string option"
  pe_decode :: "string \<Rightarrow> pack option"
  pe_fs :: "nat \<Rightarrow> faults"
  pe_db :: "nat \<Rightarrow> db_fault"
  pe_now :: "nat \<Rightarrow> gotime"
  pe_rnd :: "nat \<Rightarrow> string"
  pe_accept :: "nat \<Rightarrow> nat"
  pe_cancelled :: "nat \<Rightarrow> bool"
  pe_scratch :: bool
  pe_tar :: "nat \<Rightarrow> bool"

record world =
  wd_fs :: fs
  wd_cat :: catalog

text \<open>A member as tar writes it: the declared size is the length of the body.\<close>

definition whole_member :: "string \<Rightarrow> string \<Rightarrow> member" where
  "whole_member name body = \<lparr>tm_name = name, tm_body = body, tm_size = int (length body), tm_torn = False\<rparr>"

section \<open>Reading a manifest of the store\<close>

definition open_manifest :: "pack_env \<Rightarrow> nat \<Rightarrow> fs \<Rightarrow> digest \<Rightarrow> pack_error + iterator" where
  "open_manifest env k f d =
     (case blob_open (pe_fs env k) (pe_store env) f d of
        Inl e \<Rightarrow> Inl (PkBlob e)
      | Inr (body, _) \<Rightarrow>
          (case new_iterator (pe_codec env) body of Inl e \<Rightarrow> Inl (PkManifest e) | Inr it \<Rightarrow> Inr it))"

text \<open>
  indexManifest: every digest of the checkpoint's manifest goes through \<open>put\<close>, and the totals
  must be those of the catalog row.
\<close>

definition index_manifest ::
  "pack_env \<Rightarrow> nat \<Rightarrow> fs \<Rightarrow> snapshot \<Rightarrow> (mentry \<Rightarrow> 'x \<Rightarrow> 'x) \<Rightarrow> 'x \<Rightarrow> pack_error + 'x" where
  "index_manifest env k f s put x =
     bind_res (open_manifest env k f (sn_manifest s)) (\<lambda>it.
       if mh_project (it_header it) \<noteq> sn_project s then Inl (PkForeignManifest (sn_id s))
       else bind_res
              (walk_manifest PkManifest
                 (\<lambda>e x. if pe_cancelled env k then Inl PkCancelled else Inr (put e x)) it x)
              (\<lambda>(x', n, bytes).
                if int n \<noteq> sn_count s \<or> bytes \<noteq> sn_bytes s then Inl (PkTotals (sn_id s)) else Inr x'))"

section \<open>Export\<close>

text \<open>
  exportLineage follows the parents from the target to the base. \<open>None\<close>: a chain of more rows
  than the catalog has, which the loop of the source never leaves.
\<close>

fun lineage_from :: "nat \<Rightarrow> catalog \<Rightarrow> string \<Rightarrow> string \<Rightarrow> string \<Rightarrow> string \<Rightarrow> meta list \<Rightarrow> (pack_error + meta list) option" where
  "lineage_from fuel c p base target nxt acc =
     (if nxt = base then Some (if acc = [] then Inl PkIdentical else Inr acc)
      else if nxt = [] then Some (Inl (PkNotAncestor base target))
      else case fuel of
             0 \<Rightarrow> None
           | Suc k \<Rightarrow>
               (case get_snapshot nxt c of
                  Inl e \<Rightarrow> Some (Inl (PkCat e))
                | Inr s \<Rightarrow>
                    if sn_project s \<noteq> p then Some (Inl (PkForeignCheckpoint (sn_id s) (sn_project s)))
                    else lineage_from k c p base target (sn_parent s) (meta_of s # acc)))"

declare lineage_from.simps [simp del]

definition export_lineage :: "catalog \<Rightarrow> string \<Rightarrow> string \<Rightarrow> string \<Rightarrow> (pack_error + meta list) option" where
  "export_lineage c p base target =
     lineage_from (length (db_snapshots (ct_db c))) c p base target target []"

definition progress_due :: "int64 \<Rightarrow> int64 \<Rightarrow> bool" where
  "progress_due n whole =
     (if n = whole \<or> whole \<le> 0 then True
      else let q = wrap64 (whole + 99) div 100; step = (if q < 1 then 1 else q) in n mod step = 0)"

text \<open>\<open>INSERT OR IGNORE\<close> into the two sets of the scratch database.\<close>

definition base_insert :: "mentry \<Rightarrow> digest list \<Rightarrow> digest list" where
  "base_insert e base = List.insert (me_digest e) base"

definition selected_insert :: "digest list \<Rightarrow> mentry \<Rightarrow> (digest \<times> int64) list \<Rightarrow> (digest \<times> int64) list" where
  "selected_insert base e sel =
     (if me_digest e \<in> set base \<or> map_of sel (me_digest e) \<noteq> None then sel
      else (me_digest e, me_size e) # sel)"

definition blob_member_name :: "digest \<Rightarrow> string" where
  "blob_member_name d = ''blobs/'' @ take 2 d @ ''/'' @ d"

definition manifest_member_name :: "string \<Rightarrow> string" where
  "manifest_member_name i = ''snapshots/'' @ i @ ''.manifest.gz''"

definition write_blob_member :: "pack_env \<Rightarrow> nat \<Rightarrow> fs \<Rightarrow> digest \<Rightarrow> string \<Rightarrow> pack_error + member" where
  "write_blob_member env k f d name =
     (case blob_open (pe_fs env k) (pe_store env) f d of
        Inl e \<Rightarrow> Inl (PkBlob e)
      | Inr (body, _) \<Rightarrow> if pe_tar env k then Inl PkTarWrite
                         else Inr (whole_member name body))"

text \<open>The loops over the lineage and over the selected blobs; \<open>k\<close> numbers the members written.\<close>

fun write_manifests :: "pack_env \<Rightarrow> nat \<Rightarrow> fs \<Rightarrow> meta list \<Rightarrow> pack_error + member list" where
  "write_manifests env k f [] = Inr []"
| "write_manifests env k f (m # ms) =
     (if pe_cancelled env k then Inl PkCancelled
      else bind_res (write_blob_member env k f (mt_manifest m) (manifest_member_name (mt_id m))) (\<lambda>t.
             bind_res (write_manifests env (Suc k) f ms) (\<lambda>ts. Inr (t # ts))))"

fun write_blobs :: "pack_env \<Rightarrow> nat \<Rightarrow> fs \<Rightarrow> (digest \<times> int64) list \<Rightarrow> pack_error + member list" where
  "write_blobs env k f [] = Inr []"
| "write_blobs env k f ((d, sz) # ds) =
     (if pe_cancelled env k then Inl PkCancelled
      else case blob_stat (pe_fs env k) (pe_store env) f d of
             None \<Rightarrow> Inl (PkMissing d)
           | Some m \<Rightarrow>
               if st_size m \<noteq> sz then Inl (PkSize d)
               else bind_res (write_blob_member env k f d (blob_member_name d)) (\<lambda>t.
                      bind_res (write_blobs env (Suc k) f ds) (\<lambda>ts. Inr (t # ts))))"

definition cert_names :: "string list" where
  "cert_names = [''ca.crt'', ''server.crt'', ''server.key'']"

text \<open>writeFileMember of one certificate: a file that does not exist is skipped.\<close>

definition write_cert :: "pack_env \<Rightarrow> nat \<Rightarrow> fs \<Rightarrow> path \<Rightarrow> string \<Rightarrow> pack_error + member list" where
  "write_cert env k f dir name =
     (if pe_fs env k SysOpen then Inl PkCertRead
      else case lookup_name f (join_seg dir name) of
             None \<Rightarrow> if join_seg dir name \<in> set (fs_dirs f) then Inl PkCertRead else Inr []
           | Some i \<Rightarrow>
               if pe_fs env k SysStat \<or> pe_tar env k then Inl PkTarWrite
               else Inr [whole_member (''certs/'' @ name) (ino_data (fs_inodes f i))])"

fun write_certs :: "pack_env \<Rightarrow> nat \<Rightarrow> fs \<Rightarrow> path \<Rightarrow> string list \<Rightarrow> pack_error + member list" where
  "write_certs env k f dir [] = Inr []"
| "write_certs env k f dir (n # ns) =
     bind_res (write_cert env k f dir n) (\<lambda>t. bind_res (write_certs env (Suc k) f dir ns) (\<lambda>ts. Inr (t @ ts)))"

text \<open>The sets of an export: the digests of the base, then those of the target that are not among them.\<close>

definition export_set ::
  "pack_env \<Rightarrow> world \<Rightarrow> string \<Rightarrow> meta \<Rightarrow> pack_error + (digest \<times> int64) list" where
  "export_set env w base target =
     bind_res (if base = [] then Inr []
               else case get_snapshot base (wd_cat w) of
                      Inl e \<Rightarrow> Inl (PkCat e)
                    | Inr s \<Rightarrow> index_manifest env 0 (wd_fs w) s base_insert []) (\<lambda>have.
       index_manifest env 1 (wd_fs w) (meta_catalog target) (selected_insert have) [])"

definition write_members ::
  "pack_env \<Rightarrow> fs \<Rightarrow> path option \<Rightarrow> pack \<Rightarrow> (digest \<times> int64) list \<Rightarrow> pack_error + member list" where
  "write_members env f certs pk selected =
     (case pe_encode env pk of
        None \<Rightarrow> Inl PkEncode
      | Some payload \<Rightarrow>
          if pe_tar env 0 then Inl PkTarWrite
          else
            let k = Suc (length (pk_snapshots pk))
            in bind_res (write_manifests env 1 f (pk_snapshots pk)) (\<lambda>ms.
               bind_res (write_blobs env k f (sort_key fst selected)) (\<lambda>bs.
               bind_res (case certs of
                           Some dir \<Rightarrow> if pk_project pk = ''global''
                                       then write_certs env (k + length selected) f dir cert_names else Inr []
                         | None \<Rightarrow> Inr []) (\<lambda>cs.
                 if pe_tar env (k + length selected + 3) then Inl PkTarWrite
                 else Inr (whole_member ''pack.json'' (payload @ [CHR 0x0A]) # ms @ bs @ cs)))))"

text \<open>WritePack. The outer \<open>None\<close>: the lineage never ends.\<close>

definition write_pack ::
  "pack_env \<Rightarrow> world \<Rightarrow> string \<Rightarrow> string \<Rightarrow> string \<Rightarrow> path option \<Rightarrow> (pack_error + member list \<times> pack) option" where
  "write_pack env w project base target0 certs =
     (if project = [] then Some (Inl PkProjectRequired)
      else
        let target = (if target0 = [] then get_head project (wd_cat w) else target0)
        in if target = [] then Some (Inl PkNoCheckpoint)
           else case export_lineage (wd_cat w) project base target of
                  None \<Rightarrow> None
                | Some (Inl e) \<Rightarrow> Some (Inl e)
                | Some (Inr lineage) \<Rightarrow> Some (
                    if pe_scratch env then Inl PkScratch
                    else bind_res (export_set env w base (last lineage)) (\<lambda>selected.
                         bind_res (map_sum PkCat id (sql_sum (map snd selected))) (\<lambda>bytes.
                           let pk = \<lparr>pk_version = pack_version, pk_project = project, pk_base = base, pk_target = target,
                                pk_snapshots = lineage, pk_blobs = int (length selected), pk_bytes = bytes\<rparr>
                           in bind_res (write_members env (wd_fs w) certs pk selected) (\<lambda>ms. Inr (ms, pk))))))"

section \<open>Import: checks on names and metadata\<close>

definition valid_pack :: "pack \<Rightarrow> string \<Rightarrow> pack_error + unit" where
  "valid_pack pk expected =
     (if pk_version pk \<noteq> pack_version then Inl (PkVersion (pk_version pk))
      else if pk_project pk = [] \<or> pk_target pk = [] \<or> pk_snapshots pk = [] then Inl PkIncomplete
      else if expected \<noteq> [] \<and> pk_project pk \<noteq> expected then Inl (PkForeignPack (pk_project pk) expected)
      else bind_res
             (fold_res (\<lambda>m parent.
                if mt_project m \<noteq> pk_project pk \<or> mt_id m \<noteq> mt_manifest m \<or> \<not> digest_valid (mt_manifest m) \<or>
                   mt_parent m \<noteq> parent \<or> mt_count m < 0 \<or> mt_bytes m < 0 \<or> mt_created m = 0
                then Inl (PkLineage (mt_id m)) else Inr (mt_id m)) (pk_snapshots pk) (pk_base pk))
             (\<lambda>parent. if parent \<noteq> pk_target pk \<or> pk_blobs pk < 0 \<or> pk_bytes pk < 0 then Inl PkTarget else Inr ()))"

definition snapshot_member_id :: "string \<Rightarrow> string option" where
  "snapshot_member_id name =
     (if \<not> has_prefix name ''snapshots/'' \<or> \<not> has_suffix name ''.manifest.gz'' then None
      else let i = trim_suffix (trim_prefix name ''snapshots/'') ''.manifest.gz''
           in if i \<noteq> [] \<and> CHR ''/'' \<notin> set i then Some i else None)"

definition blob_member_digest :: "string \<Rightarrow> digest option" where
  "blob_member_digest name =
     (case split_on (CHR ''/'') name of
        [a, b, c] \<Rightarrow>
          if a \<noteq> ''blobs'' \<or> length b \<noteq> 2 \<or> \<not> has_prefix c b then None
          else (case parse_digest c of Inl _ \<Rightarrow> None | Inr d \<Rightarrow> Some d)
      | _ \<Rightarrow> None)"

text \<open>The first member, read by InspectPack and by ReadPack; its size is at most 4 MB.\<close>

definition first_member :: "pack_env \<Rightarrow> string \<Rightarrow> member list \<Rightarrow> pack_error + pack" where
  "first_member env expected ms =
     (case ms of
        [] \<Rightarrow> Inl PkTarRead
      | m # _ \<Rightarrow>
          if tm_name m \<noteq> ''pack.json'' \<or> tm_size m > 4194304 then Inl PkFirstMember
          else (case pe_decode env (tm_body m) of
                  None \<Rightarrow> Inl PkDecode
                | Some pk \<Rightarrow> bind_res (valid_pack pk expected) (\<lambda>_. Inr pk)))"

definition inspect_pack :: "pack_env \<Rightarrow> string \<Rightarrow> member list \<Rightarrow> pack_error + pack" where
  "inspect_pack = first_member"

section \<open>Import: one member\<close>

text \<open>
  importBlob: the body goes through a writer of the store, which takes as much of it as the file
  system accepts; a body the tar stream does not deliver to its end is an error, and so is one
  whose digest is not the expected one.
\<close>

definition import_blob ::
  "pack_env \<Rightarrow> nat \<Rightarrow> fs \<Rightarrow> member \<Rightarrow> digest \<Rightarrow> fs \<times> (pack_error + digest \<times> int64)" where
  "import_blob env k f m expected =
     (let flt = pe_fs env k; st = pe_store env; now = pe_now env k
      in case writer_create flt st f (pe_rnd env k) now of
           (f1, Inl e) \<Rightarrow> (f1, Inl (PkBlob e))
         | (f1, Inr w) \<Rightarrow>
             (case writer_write (pe_accept env k) now f1 w (tm_body m) of
                (f2, w2, r, n) \<Rightarrow>
                  if \<not> is_ok r \<or> tm_torn m then (fst (writer_abort flt f2 w2), Inl PkCopy)
                  else if writer_digest w2 \<noteq> expected
                  then (fst (writer_abort flt f2 w2), Inl (PkCorrupt expected (writer_digest w2)))
                  else (case writer_commit flt now st f2 w2 of
                          (f3, w3, Inl e) \<Rightarrow> (fst (writer_abort flt f3 w3), Inl (PkBlob e))
                        | (f3, w3, Inr r) \<Rightarrow> (fst (writer_abort flt f3 w3), Inr r))))"

text \<open>stageFile writes one certificate beside its place under a temporary name.\<close>

definition stage_file :: "pack_env \<Rightarrow> nat \<Rightarrow> fs \<Rightarrow> member \<Rightarrow> path \<Rightarrow> string \<Rightarrow> fs \<times> (pack_error + path)" where
  "stage_file env k f m dir name =
     (let flt = pe_fs env k; p = dir @ [''.'' @ name @ ''.import-'' @ pe_rnd env k]
      in case mkdir_all flt dir f of
           None \<Rightarrow> (f, Inl (PkCertStage name))
         | Some f1 \<Rightarrow>
             if flt SysCreateTemp \<or> CHR ''/'' \<in> set (pe_rnd env k) \<or> lookup_name f1 p \<noteq> None \<or> p \<in> set (fs_dirs f1)
             then (f1, Inl (PkCertStage name))
             else
               let i = fs_next f1;
                   f2 = new_file p \<lparr>ino_data = tm_body m, ino_mtime = pe_now env k, ino_mode = 384, ino_synced = False\<rparr> f1
               in if tm_torn m \<or> flt SysCopy \<or> flt SysSync then (fst (os_remove flt p f2), Inl (PkCertStage name))
                  else if flt SysClose then (fst (os_remove flt p (fsync_inode i f2)), Inl (PkCertStage name))
                  else (fsync_inode i f2, Inr p))"

text \<open>
  What the loop of ReadPack has gathered: the manifests and blobs seen (the two tables of its
  scratch database) and the certificates staged.
\<close>

record progress =
  im_world :: world
  im_manifests :: "string list"
  im_blobs :: "(digest \<times> int64) list"
  im_staged :: "(string \<times> path) list"

definition keep_fs :: "fs \<Rightarrow> progress \<Rightarrow> progress" where
  "keep_fs f st = st\<lparr>im_world := (im_world st)\<lparr>wd_fs := f\<rparr>\<rparr>"

definition keep_cat :: "catalog \<Rightarrow> progress \<Rightarrow> progress" where
  "keep_cat c st = st\<lparr>im_world := (im_world st)\<lparr>wd_cat := c\<rparr>\<rparr>"

definition meta_by_id :: "pack \<Rightarrow> string \<Rightarrow> meta option" where
  "meta_by_id pk = map_of (rev (map (\<lambda>m. (mt_id m, m)) (pk_snapshots pk)))"

definition read_manifest_member ::
  "pack_env \<Rightarrow> pack \<Rightarrow> nat \<Rightarrow> member \<Rightarrow> progress \<Rightarrow> progress \<times> (pack_error + unit)" where
  "read_manifest_member env pk k m st =
     (case snapshot_member_id (tm_name m) of
        None \<Rightarrow> (st, Inl (PkUnexpected (tm_name m)))
      | Some i \<Rightarrow>
          (case meta_by_id pk i of
             None \<Rightarrow> (st, Inl (PkUnexpected (tm_name m)))
           | Some mt \<Rightarrow>
               (case import_blob env k (wd_fs (im_world st)) m (mt_manifest mt) of
                  (f, Inl e) \<Rightarrow> (keep_fs f st, Inl e)
                | (f, Inr (d, sz)) \<Rightarrow>
                    (case upsert_blob (pe_db env k) (pe_now env k) d
                            \<lparr>br_size = sz, br_created = mt_created mt, br_access = mt_created mt\<rparr>
                            (wd_cat (im_world st)) of
                       (c, Inl e) \<Rightarrow> (keep_cat c (keep_fs f st), Inl (PkCat e))
                     | (c, Inr _) \<Rightarrow>
                         if i \<in> set (im_manifests st) then (keep_cat c (keep_fs f st), Inl (PkDuplicate i))
                         else (keep_cat c (keep_fs f (st\<lparr>im_manifests := i # im_manifests st\<rparr>)), Inr ())))))"

definition read_blob_member ::
  "pack_env \<Rightarrow> nat \<Rightarrow> member \<Rightarrow> progress \<Rightarrow> progress \<times> (pack_error + unit)" where
  "read_blob_member env k m st =
     (case blob_member_digest (tm_name m) of
        None \<Rightarrow> (st, Inl (PkUnexpected (tm_name m)))
      | Some expected \<Rightarrow>
          (case import_blob env k (wd_fs (im_world st)) m expected of
             (f, Inl e) \<Rightarrow> (keep_fs f st, Inl e)
           | (f, Inr (d, sz)) \<Rightarrow>
               if map_of (im_blobs st) d \<noteq> None then (keep_fs f st, Inl (PkDuplicate d))
               else
                 let st1 = keep_fs f (st\<lparr>im_blobs := (d, sz) # im_blobs st\<rparr>)
                 in case upsert_blob (pe_db env k) (pe_now env k) d
                           \<lparr>br_size = sz, br_created = pe_now env k, br_access = pe_now env k\<rparr>
                           (wd_cat (im_world st)) of
                      (c, Inl e) \<Rightarrow> (keep_cat c st1, Inl (PkCat e))
                    | (c, Inr _) \<Rightarrow> (keep_cat c st1, Inr ())))"

definition read_cert_member ::
  "pack_env \<Rightarrow> pack \<Rightarrow> path option \<Rightarrow> nat \<Rightarrow> member \<Rightarrow> progress \<Rightarrow> progress \<times> (pack_error + unit)" where
  "read_cert_member env pk certs k m st =
     (case certs of
        None \<Rightarrow> (st, Inl (PkUnexpected (tm_name m)))
      | Some dir \<Rightarrow>
          if pk_project pk \<noteq> ''global'' then (st, Inl (PkUnexpected (tm_name m)))
          else
            let name = trim_prefix (tm_name m) ''certs/''
            in if name \<notin> set cert_names then (st, Inl (PkUnexpected (tm_name m)))
               else (case stage_file env k (wd_fs (im_world st)) m dir name of
                       (f, Inl e) \<Rightarrow> (keep_fs f st, Inl e)
                     | (f, Inr p) \<Rightarrow>
                         (keep_fs f (st\<lparr>im_staged := AList.update name p (im_staged st)\<rparr>), Inr ())))"

definition read_member ::
  "pack_env \<Rightarrow> pack \<Rightarrow> path option \<Rightarrow> nat \<Rightarrow> member \<Rightarrow> progress \<Rightarrow> progress \<times> (pack_error + unit)" where
  "read_member env pk certs k m st =
     (if has_prefix (tm_name m) ''snapshots/'' then read_manifest_member env pk k m st
      else if has_prefix (tm_name m) ''blobs/'' then read_blob_member env k m st
      else if has_prefix (tm_name m) ''certs/'' then read_cert_member env pk certs k m st
      else (st, Inl (PkUnexpected (tm_name m))))"

text \<open>\<open>ends\<close>: the tar stream ends cleanly after its last member.\<close>

fun read_members ::
  "pack_env \<Rightarrow> pack \<Rightarrow> path option \<Rightarrow> bool \<Rightarrow> nat \<Rightarrow> member list \<Rightarrow> progress \<Rightarrow> progress \<times> (pack_error + unit)" where
  "read_members env pk certs ends k [] st =
     (if pe_cancelled env k then (st, Inl PkCancelled)
      else if ends then (st, Inr ()) else (st, Inl PkTarRead))"
| "read_members env pk certs ends k (m # ms) st =
     (if pe_cancelled env k then (st, Inl PkCancelled)
      else case read_member env pk certs k m st of
             (st1, Inl e) \<Rightarrow> (st1, Inl e)
           | (st1, Inr _) \<Rightarrow> read_members env pk certs ends (Suc k) ms st1)"

section \<open>Import: the verified application\<close>

definition check_totals :: "pack \<Rightarrow> progress \<Rightarrow> pack_error + unit" where
  "check_totals pk st =
     bind_res (map_sum PkCat id (sql_sum (map snd (im_blobs st)))) (\<lambda>bytes.
       if length (im_manifests st) \<noteq> length (pk_snapshots pk) then Inl PkMissingManifest
       else if int (length (im_blobs st)) \<noteq> pk_blobs pk \<or> bytes \<noteq> pk_bytes pk then Inl PkPackTotals
       else Inr ())"

definition verify_entry :: "pack_env \<Rightarrow> nat \<Rightarrow> fs \<Rightarrow> bool \<Rightarrow> mentry \<Rightarrow> unit \<Rightarrow> pack_error + unit" where
  "verify_entry env k f require e u =
     (if pe_cancelled env k then Inl PkCancelled
      else if \<not> require then Inr ()
      else case blob_stat (pe_fs env k) (pe_store env) f (me_digest e) of
             None \<Rightarrow> Inl (PkMissing (me_digest e))
           | Some m \<Rightarrow> if st_size m \<noteq> me_size e then Inl (PkSize (me_digest e)) else Inr ())"

definition verify_manifest :: "pack_env \<Rightarrow> nat \<Rightarrow> fs \<Rightarrow> meta \<Rightarrow> bool \<Rightarrow> pack_error + unit" where
  "verify_manifest env k f m require =
     bind_res (open_manifest env k f (mt_manifest m)) (\<lambda>it.
       if mh_project (it_header it) \<noteq> mt_project m then Inl (PkForeignManifest (mt_id m))
       else bind_res (walk_manifest PkManifest (verify_entry env k f require) it ()) (\<lambda>(_, n, bytes).
              if int n \<noteq> mt_count m \<or> bytes \<noteq> mt_bytes m then Inl (PkTotals (mt_id m)) else Inr ()))"

text \<open>The checkpoints of the pack, each verified, then recorded or compared with the local row.\<close>

fun admit_snapshots :: "pack_env \<Rightarrow> nat \<Rightarrow> meta list \<Rightarrow> world \<Rightarrow> world \<times> (pack_error + unit)" where
  "admit_snapshots env k [] w = (w, Inr ())"
| "admit_snapshots env k (m # ms) w =
     (case verify_manifest env k (wd_fs w) m (ms = []) of
        Inl e \<Rightarrow> (w, Inl e)
      | Inr _ \<Rightarrow>
          (case get_snapshot (mt_id m) (wd_cat w) of
             Inr s \<Rightarrow> if meta_of s \<noteq> m then (w, Inl (PkConflict (mt_id m))) else admit_snapshots env (Suc k) ms w
           | Inl e \<Rightarrow>
               if e \<noteq> CatNotFound then (w, Inl (PkCat e))
               else (case put_snapshot (pe_db env k) (pe_now env k) (meta_catalog m) (wd_cat w) of
                       (c, Inl e) \<Rightarrow> (w\<lparr>wd_cat := c\<rparr>, Inl (PkCat e))
                     | (c, Inr _) \<Rightarrow> admit_snapshots env (Suc k) ms (w\<lparr>wd_cat := c\<rparr>))))"

text \<open>
  A manifest row as a catalog entry. The media type is not in the manifest, so it comes back empty;
  a read error of the manifest reaches the catalog as the error of its source.
\<close>

definition manifest_entry :: "string \<Rightarrow> mentry \<Rightarrow> entry" where
  "manifest_entry p e = \<lparr>en_key = EntryKey p (me_eco e) (me_key e), en_digest = me_digest e, en_size = me_size e,
     en_media = [], en_cached = 0, en_access = 0, en_hits = 0\<rparr>"

definition source_error :: "manifest_error option \<Rightarrow> cat_error option" where
  "source_error r = map_option (\<lambda>_. CatSql ''manifest'') r"

definition apply_directly :: "pack_env \<Rightarrow> nat \<Rightarrow> pack \<Rightarrow> meta \<Rightarrow> world \<Rightarrow> world \<times> (pack_error + unit)" where
  "apply_directly env k pk target w =
     (case open_manifest env k (wd_fs w) (mt_manifest target) of
        Inl e \<Rightarrow> (w, Inl e)
      | Inr it \<Rightarrow>
          (case apply_snapshot (pe_db env k) (pe_now env k) (pk_project pk) (pk_base pk) (pk_target pk) True
                  (map (manifest_entry (pk_project pk)) (fst (rows it))) (source_error (snd (rows it))) None (wd_cat w) of
             (c, Inl e) \<Rightarrow> (w\<lparr>wd_cat := c\<rparr>, Inl (PkCat e))
           | (c, Inr _) \<Rightarrow> (w\<lparr>wd_cat := c\<rparr>, Inr ())))"

text \<open>
  The staged certificates are installed in the order the map of the source happens to give,
  \<open>order\<close>; the ones not installed are removed at the end.
\<close>

definition cert_mode :: "string \<Rightarrow> nat" where
  "cert_mode name = (if name = ''server.key'' then 384 else 420)"

fun install_certs :: "pack_env \<Rightarrow> nat \<Rightarrow> path \<Rightarrow> (string \<times> path) list \<Rightarrow> fs \<Rightarrow> fs \<times> (string \<times> path) list \<times> (pack_error + unit)" where
  "install_certs env k dir [] f = (f, [], Inr ())"
| "install_certs env k dir ((name, p) # order) f =
     (if pe_fs env k SysChmod then (f, (name, p) # order, Inl (PkInstall name))
      else case os_rename (pe_fs env k) p (dir @ [name]) (os_chmod p (cert_mode name) f) of
             (f1, r) \<Rightarrow> if r = IoOk then install_certs env (Suc k) dir order f1
                        else (f1, (name, p) # order, Inl (PkInstall name)))"

definition remove_staged :: "faults \<Rightarrow> (string \<times> path) list \<Rightarrow> fs \<Rightarrow> fs" where
  "remove_staged flt staged f = fold (\<lambda>np f. fst (os_remove flt (snd np) f)) staged f"

text \<open>
  What follows the loop. \<open>apply\<close> is the callback of the composition root, \<open>None\<close> the direct
  application; \<open>order\<close> arranges the staged certificates.
\<close>

definition finish_import ::
  "pack_env \<Rightarrow> nat \<Rightarrow> (pack \<Rightarrow> meta \<Rightarrow> world \<Rightarrow> world \<times> (pack_error + unit)) option \<Rightarrow> pack \<Rightarrow> path option \<Rightarrow>
   ((string \<times> path) list \<Rightarrow> (string \<times> path) list) \<Rightarrow> progress \<Rightarrow> world \<times> (string \<times> path) list \<times> (pack_error + pack)" where
  "finish_import env k app pk certs order st =
     (let w = im_world st; n = length (pk_snapshots pk)
      in case check_totals pk st of
           Inl e \<Rightarrow> (w, im_staged st, Inl e)
         | Inr _ \<Rightarrow>
             (case admit_snapshots env k (pk_snapshots pk) w of
                (w1, Inl e) \<Rightarrow> (w1, im_staged st, Inl e)
              | (w1, Inr _) \<Rightarrow>
                  (case (case app of None \<Rightarrow> apply_directly env (k + n) pk | Some f \<Rightarrow> f pk) (last (pk_snapshots pk)) w1 of
                     (w2, Inl e) \<Rightarrow> (w2, im_staged st, Inl e)
                   | (w2, Inr _) \<Rightarrow>
                       (case certs of
                          None \<Rightarrow> (w2, im_staged st, Inr pk)
                        | Some dir \<Rightarrow>
                            (case install_certs env (k + n + 1) dir (order (im_staged st)) (wd_fs w2) of
                               (f, left, r) \<Rightarrow> (w2\<lparr>wd_fs := f\<rparr>, left, map_sum id (\<lambda>_. pk) r))))))"

definition read_pack ::
  "pack_env \<Rightarrow> (pack \<Rightarrow> meta \<Rightarrow> world \<Rightarrow> world \<times> (pack_error + unit)) option \<Rightarrow> string \<Rightarrow> path option \<Rightarrow>
   ((string \<times> path) list \<Rightarrow> (string \<times> path) list) \<Rightarrow> member list \<Rightarrow> bool \<Rightarrow> world \<Rightarrow> world \<times> (pack_error + pack)" where
  "read_pack env app expected certs order ms ends w =
     (case first_member env expected ms of
        Inl e \<Rightarrow> (w, Inl e)
      | Inr pk \<Rightarrow>
          if get_head (pk_project pk) (wd_cat w) \<noteq> pk_base pk
          then (w, Inl (PkNotFastForward (get_head (pk_project pk) (wd_cat w)) (pk_base pk)))
          else if pe_scratch env then (w, Inl PkScratch)
          else
            let st = \<lparr>im_world = w, im_manifests = [], im_blobs = [], im_staged = []\<rparr>; k = length ms
            in case read_members env pk certs ends 1 (tl ms) st of
                 (st1, Inl e) \<Rightarrow> ((im_world st1)\<lparr>wd_fs := remove_staged (pe_fs env k) (im_staged st1) (wd_fs (im_world st1))\<rparr>, Inl e)
               | (st1, Inr _) \<Rightarrow>
                   (case finish_import env (Suc k) app pk certs order st1 of
                      (w1, left, r) \<Rightarrow> (w1\<lparr>wd_fs := remove_staged (pe_fs env k) left (wd_fs w1)\<rparr>, r)))"

end
