(* ===== verification/ManifestSpec.thy ===== *)
theory ManifestSpec
  imports Manifest "HOL-Library.Product_Lexorder"
begin

text \<open>
  What the manifest stream of package snapshot promises: a manifest that was written reads back
  as the entries it was given, whatever the reader does with them, and the linear merge of two
  manifests is the difference of two finite maps.
\<close>

section \<open>Numbers, escapes and lines\<close>

lemma digits_value_append:
  "digits_value (s @ t) acc = (case digits_value s acc of None \<Rightarrow> None | Some a \<Rightarrow> digits_value t a)"
  by (induction s arbitrary: acc) auto

lemma is_digit_char: "n < 10 \<Longrightarrow> is_digit (char_of (48 + n)) \<and> ord (char_of (48 + n)) = 48 + n"
  by (simp add: is_digit_def ord_def)

lemma digits_value_nat_digits: "digits_value (nat_digits n) 0 = Some (int n)"
proof (induction n rule: nat_digits.induct)
  case (1 n)
  show ?case
  proof (cases "n < 10")
    case True
    then show ?thesis by (subst nat_digits.simps) (simp add: is_digit_char)
  next
    case False
    have d: "is_digit (char_of (48 + n mod 10))" "ord (char_of (48 + n mod 10)) = 48 + n mod 10"
      using is_digit_char [of "n mod 10"] by simp_all
    have "10 * int (n div 10) + int (n mod 10) = int n" by presburger
    then show ?thesis using False 1 d by (subst nat_digits.simps) (simp add: digits_value_append)
  qed
qed

lemma nat_digits_digit: "list_all is_digit (nat_digits n) \<and> nat_digits n \<noteq> []"
proof (induction n rule: nat_digits.induct)
  case (1 n)
  then show ?case
    using is_digit_char [of n] is_digit_char [of "n mod 10"] by (subst (1 2) nat_digits.simps) auto
qed

lemma is_digit_plain: "is_digit c \<Longrightarrow> c \<noteq> CHR ''-'' \<and> c \<noteq> CHR ''+'' \<and> \<not> is_space c"
  by (auto simp: is_digit_def is_space_def ord_def)

lemma parse_format_int: "is_int64 n \<Longrightarrow> parse_int (format_int n) = Some n"
proof -
  assume n: "is_int64 n"
  show ?thesis
  proof (cases "n < 0")
    case True
    then show ?thesis
      using n digits_value_nat_digits [of "nat (- n)"] nat_digits_digit [of "nat (- n)"]
      by (simp add: parse_int_def format_int_def)
  next
    case False
    obtain c r where cr: "nat_digits (nat n) = c # r" "is_digit c"
      using nat_digits_digit [of "nat n"] by (cases "nat_digits (nat n)") auto
    then show ?thesis
      using n False digits_value_nat_digits [of "nat n"] is_digit_plain [of c]
      by (simp add: parse_int_def format_int_def)
  qed
qed

lemma format_int_plain: "c \<in> set (format_int n) \<Longrightarrow> c \<noteq> CHR 0x09 \<and> c \<noteq> CHR 0x0A"
proof -
  assume c: "c \<in> set (format_int n)"
  then have "c = CHR ''-'' \<or> is_digit c"
    using nat_digits_digit by (auto simp: format_int_def list_all_iff split: if_splits)
  then show ?thesis by (auto simp: is_digit_def ord_def)
qed

lemma hex_digit_round: "n < 16 \<Longrightarrow> hex_digit_value (upper_hex_digit n) = Some n"
  by (simp add: hex_digit_value_def upper_hex_digit_def ord_char_of)

lemma ord_bound: "ord c < 256"
  by (simp add: ord_def)

lemma query_unescape_escape_char:
  "query_unescape (escape_char c @ t) = map_option ((#) c) (query_unescape t)"
proof -
  have q: "ord c div 16 < 16" "ord c mod 16 < 16" using ord_bound [of c] by auto
  have c: "char_of (16 * (ord c div 16) + ord c mod 16) = c" by (simp add: ord_def)
  have "unreserved c \<Longrightarrow> c \<noteq> CHR ''%'' \<and> c \<noteq> CHR ''+''" by (auto simp: unreserved_def ord_def)
  then show ?thesis using q c by (auto simp: escape_char_def hex_digit_round)
qed

lemma query_unescape_escape_append:
  "query_unescape (query_escape s @ t) = map_option ((@) s) (query_unescape t)"
  by (induction s) (simp_all add: query_escape_def query_unescape_escape_char option.map_comp comp_def option.map_ident)

lemma query_unescape_escape: "query_unescape (query_escape s) = Some s"
  using query_unescape_escape_append [of s "[]"] by simp

lemma upper_hex_digit_plain: "n < 16 \<Longrightarrow> \<not> is_space (upper_hex_digit n)"
  by (auto simp: is_space_def upper_hex_digit_def ord_char_of)

lemma escape_char_plain: "x \<in> set (escape_char c) \<Longrightarrow> \<not> is_space x"
proof -
  have q: "ord c div 16 < 16" "ord c mod 16 < 16" using ord_bound [of c] by auto
  have "unreserved c \<Longrightarrow> \<not> is_space c" by (auto simp: unreserved_def is_space_def ord_def)
  moreover have "\<not> is_space (CHR ''%'')" "\<not> is_space (CHR ''+'')" by (auto simp: is_space_def ord_def)
  ultimately show "x \<in> set (escape_char c) \<Longrightarrow> \<not> is_space x"
    using q by (auto simp: escape_char_def upper_hex_digit_plain split: if_splits)
qed

lemma query_escape_plain: "x \<in> set (query_escape s) \<Longrightarrow> \<not> is_space x"
  by (auto simp: query_escape_def escape_char_plain)

lemma query_escape_nonempty: "s \<noteq> [] \<Longrightarrow> query_escape s \<noteq> []"
  by (cases s) (auto simp: query_escape_def escape_char_def)

lemma read_string_line: "CHR 0x0A \<notin> set l \<Longrightarrow> read_string (l @ CHR 0x0A # r) = Some (l, r)"
  by (induction l) auto

lemma fields_word: "\<forall>c\<in>set a. \<not> is_space c \<Longrightarrow> fields_from w (a @ s) = fields_from (w @ a) s"
  by (induction a arbitrary: w) auto

lemma fields_space: "w \<noteq> [] \<Longrightarrow> fields_from w (CHR '' '' # s) = w # fields_of s"
  by (simp add: is_space_def ord_def)

lemma fields_cons:
  "a \<noteq> [] \<Longrightarrow> \<forall>c\<in>set a. \<not> is_space c \<Longrightarrow> fields_of (a @ CHR '' '' # s) = a # fields_of s"
  by (simp add: fields_word fields_space del: fields_from.simps)

lemma fields_one: "a \<noteq> [] \<Longrightarrow> \<forall>c\<in>set a. \<not> is_space c \<Longrightarrow> fields_of a = [a]"
  using fields_word [of a "[]" "[]"] by simp

lemma split_on_cons: "c \<notin> set a \<Longrightarrow> split_on c (a @ c # s) = a # split_on c s"
  by (induction a) auto

section \<open>The header and one row\<close>

definition gzip_ok :: "codec \<Rightarrow> bool" where
  "gzip_ok cx \<longleftrightarrow> (\<forall>s. cx_gunzip cx (cx_gzip cx s) = Some (s, False))"

definition header_ok :: "codec \<Rightarrow> mheader \<Rightarrow> bool" where
  "header_ok cx h \<longleftrightarrow>
     cx_parse cx (cx_format cx (mh_created h)) = Some (mh_created h) \<and>
     (\<forall>c\<in>set (cx_format cx (mh_created h)). \<not> is_space c)"

lemma newline_space: "\<not> is_space c \<Longrightarrow> c \<noteq> CHR 0x0A"
  by (auto simp: is_space_def ord_def)

lemma parse_header_line:
  assumes "header_ok cx h" and "mh_project h \<noteq> []"
  shows "\<exists>l. header_line cx h = l @ [CHR 0x0A] \<and> CHR 0x0A \<notin> set l \<and> parse_header cx l = Inr h"
proof -
  let ?p = "''project='' @ query_escape (mh_project h)"
  let ?c = "''created='' @ cx_format cx (mh_created h)"
  let ?l = "''#pkgreg-manifest'' @ CHR '' '' # ''v1'' @ CHR '' '' # ?p @ CHR '' '' # ?c"
  have l: "header_line cx h = ?l @ [CHR 0x0A]"
    by (simp add: header_line_def manifest_magic_def)
  have p: "\<forall>x\<in>set ?p. \<not> is_space x" using query_escape_plain by (auto simp: is_space_def ord_def)
  have c: "\<forall>x\<in>set ?c. \<not> is_space x" using assms by (auto simp: header_ok_def is_space_def ord_def)
  have n: "CHR 0x0A \<notin> set ?p" "CHR 0x0A \<notin> set ?c"
    using p c newline_space by blast+
  then have nl: "CHR 0x0A \<notin> set ?l" by auto
  have a: "\<forall>x\<in>set ''#pkgreg-manifest''. \<not> is_space x" "\<forall>x\<in>set ''v1''. \<not> is_space x"
    by (auto simp: is_space_def ord_def)
  have f4: "fields_of ?c = [?c]" by (rule fields_one [OF _ c]) simp
  have f3: "fields_of (?p @ CHR '' '' # ?c) = [?p, ?c]" by (subst fields_cons [OF _ p]) (simp, simp only: f4)
  have f2: "fields_of (''v1'' @ CHR '' '' # ?p @ CHR '' '' # ?c) = [''v1'', ?p, ?c]"
    by (subst fields_cons [OF _ a(2)]) (simp, simp only: f3)
  have f: "fields_of ?l = [''#pkgreg-manifest'', ''v1'', ?p, ?c]"
    by (subst fields_cons [OF _ a(1)]) (simp, simp only: f2)
  have t: "has_prefix ?p ''project=''" "has_prefix ?c ''created=''"
    "trim_prefix ?p ''project='' = query_escape (mh_project h)"
    "trim_prefix ?c ''created='' = cx_format cx (mh_created h)"
    by (simp_all add: trim_prefix_def)
  have "parse_header cx ?l = Inr h"
    unfolding parse_header_def f
    using assms t by (simp add: manifest_magic_def header_ok_def query_unescape_escape)
  with l nl show ?thesis by blast
qed

lemma bad_field_plain: "\<not> bad_field s \<Longrightarrow> CHR 0x09 \<notin> set s \<and> CHR 0x0A \<notin> set s \<and> s \<noteq> []"
  by (auto simp: bad_field_def list_ex_iff)

lemma digest_plain: "digest_valid d \<Longrightarrow> CHR 0x09 \<notin> set d \<and> CHR 0x0A \<notin> set d"
  by (auto simp: digest_valid_def list_all_iff lower_hex_def ord_def)

lemma validate_entry_ok:
  "validate_entry e = Inr u \<longleftrightarrow>
     \<not> bad_field (me_eco e) \<and> \<not> bad_field (me_key e) \<and> digest_valid (me_digest e) \<and> me_size e \<ge> 0"
  by (auto simp: validate_entry_def)

lemma parse_entry_line:
  assumes "validate_entry e = Inr ()" and "is_int64 (me_size e)"
  shows "\<exists>l. entry_line e = l @ [CHR 0x0A] \<and> CHR 0x0A \<notin> set l \<and> parse_entry l = Inr e"
proof -
  let ?t = "CHR 0x09"
  let ?l = "me_eco e @ ?t # me_key e @ ?t # me_digest e @ ?t # format_int (me_size e)"
  have v: "?t \<notin> set (me_eco e)" "?t \<notin> set (me_key e)" "?t \<notin> set (me_digest e)" "?t \<notin> set (format_int (me_size e))"
    "CHR 0x0A \<notin> set ?l"
    using assms bad_field_plain digest_plain format_int_plain by (auto simp: validate_entry_ok)
  have e: "\<lparr>me_eco = me_eco e, me_key = me_key e, me_digest = me_digest e, me_size = me_size e\<rparr> = e"
    by simp
  have "parse_entry ?l = Inr e"
    unfolding parse_entry_def
    by (simp add: split_on_cons split_on_no_sep v(1-4) parse_format_int assms e Let_def)
  with v(5) show ?thesis by (intro exI [of _ ?l]) (simp add: entry_line_def)
qed

section \<open>Walks and rows\<close>

definition sum_sizes :: "mentry list \<Rightarrow> int" where
  "sum_sizes es = sum_list (map me_size es)"

lemma sum_sizes_simps [simp]: "sum_sizes [] = 0" "sum_sizes (e # es) = me_size e + sum_sizes es"
  by (simp_all add: sum_sizes_def)

lemma wrap64_idem [simp]: "wrap64 (wrap64 a) = wrap64 a"
  by simp

text \<open>A walk is the fold of its callback over the rows, then the error of the first damaged one.\<close>

lemma walk_from_rows:
  "wrap64 b = b \<Longrightarrow> walk_from wrap fn it s n b =
     bind_res (fold_res fn (fst (rows it)) s) (\<lambda>s'.
       case snd (rows it) of
         Some e \<Rightarrow> Inl (wrap e)
       | None \<Rightarrow> Inr (s', n + length (fst (rows it)), wrap64 (b + sum_sizes (fst (rows it)))))"
proof (induction it arbitrary: s n b rule: rows.induct)
  case (1 it)
  obtain r it' where n: "next_entry it = (r, it')" by (cases "next_entry it")
  show ?case
  proof (cases r)
    case (Inl e)
    then show ?thesis using n by (simp add: walk_from.simps [of wrap fn it] rows.simps [of it])
  next
    case (Inr o')
    show ?thesis
    proof (cases o')
      case None
      then show ?thesis using n Inr "1.prems" by (simp add: walk_from.simps [of wrap fn it] rows.simps [of it])
    next
      case (Some e)
      have ih: "walk_from wrap fn it' s' (Suc n) (wrap64 (b + me_size e)) =
          bind_res (fold_res fn (fst (rows it')) s') (\<lambda>s'.
            case snd (rows it') of
              Some e \<Rightarrow> Inl (wrap e)
            | None \<Rightarrow> Inr (s', Suc n + length (fst (rows it')),
                wrap64 (wrap64 (b + me_size e) + sum_sizes (fst (rows it')))))" for s'
        using "1.IH" [OF n [symmetric] Inr Some] by simp
      show ?thesis
        using n Inr Some ih
        by (cases "fn e s") (simp_all add: walk_from.simps [of wrap fn it] rows.simps [of it] wrap64_add add.assoc cong: option.case_cong)
    qed
  qed
qed

lemma walk_manifest_rows:
  "walk_manifest wrap fn it s =
     bind_res (fold_res fn (fst (rows it)) s) (\<lambda>s'.
       case snd (rows it) of
         Some e \<Rightarrow> Inl (wrap e) | None \<Rightarrow> Inr (s', length (fst (rows it)), wrap64 (sum_sizes (fst (rows it)))))"
  by (simp add: walk_manifest_def walk_from_rows wrap64_def cong: option.case_cong)

section \<open>Writing, then reading\<close>

lemma write_entry_ok:
  "write_entry sk e (p, out, n, b) = Inr st \<Longrightarrow>
     validate_entry e = Inr () \<and> (p \<noteq> [] \<longrightarrow> p < entry_mark e) \<and>
     st = (entry_mark e, out @ entry_line e, Suc n, wrap64 (b + me_size e))"
  by (auto simp: write_entry_def bind_res_Inr_iff split: if_splits)

lemma entry_mark_nonempty [simp]: "entry_mark e \<noteq> []"
  by (simp add: entry_mark_def)

definition fresh_iterator :: "mheader \<Rightarrow> string \<Rightarrow> string \<Rightarrow> iterator" where
  "fresh_iterator h text p = \<lparr>it_header = h, it_text = text, it_fails = False, it_previous = p, it_ended = False\<rparr>"

lemma next_entry_written:
  assumes "validate_entry e = Inr ()" and "is_int64 (me_size e)" and "p \<noteq> [] \<longrightarrow> p < entry_mark e"
  shows "next_entry (fresh_iterator h (entry_line e @ text) p) = (Inr (Some e), fresh_iterator h text (entry_mark e))"
proof -
  obtain l where l: "entry_line e = l @ [CHR 0x0A]" "CHR 0x0A \<notin> set l" "parse_entry l = Inr e"
    using parse_entry_line [OF assms(1,2)] by blast
  then have "read_line (entry_line e @ text) False = Line l text"
    by (simp add: read_line_def read_string_line)
  then show ?thesis using l assms(3) by (auto simp: next_entry_def fresh_iterator_def Let_def)
qed

lemma write_entries_rows:
  assumes "fold_res (write_entry sk) es (p, out, n, b) = Inr (p', out', n', b')"
    and "list_all (\<lambda>e. is_int64 (me_size e)) es" and "wrap64 b = b"
  shows "\<exists>text. out' = out @ text \<and> rows (fresh_iterator h text p) = (es, None) \<and>
     n' = n + length es \<and> b' = wrap64 (b + sum_sizes es)"
  using assms
proof (induction es arbitrary: p out n b)
  case Nil
  then show ?case
    by (auto intro!: exI [of _ "[]"] simp: rows.simps next_entry_def fresh_iterator_def read_line_def)
next
  case (Cons e es)
  then obtain st where st: "write_entry sk e (p, out, n, b) = Inr st"
    and rest: "fold_res (write_entry sk) es st = Inr (p', out', n', b')" by (auto simp: bind_res_Inr_iff)
  note ok = write_entry_ok [OF st]
  obtain body where t: "out' = (out @ entry_line e) @ body" "rows (fresh_iterator h body (entry_mark e)) = (es, None)"
    "n' = Suc n + length es" "b' = wrap64 (wrap64 (b + me_size e) + sum_sizes es)"
    using Cons.IH [of "entry_mark e" "out @ entry_line e" "Suc n" "wrap64 (b + me_size e)"] rest ok Cons.prems(2) by auto
  have "next_entry (fresh_iterator h (entry_line e @ body) p) = (Inr (Some e), fresh_iterator h body (entry_mark e))"
    by (rule next_entry_written) (use ok Cons.prems in auto)
  then have "rows (fresh_iterator h (entry_line e @ body) p) = (e # es, None)"
    using t(2) by (simp add: rows.simps [of "fresh_iterator h (entry_line e @ body) p"])
  with t show ?case by (intro exI [of _ "entry_line e @ body"]) (simp add: wrap64_add add.assoc)
qed

text \<open>
  The file WriteManifest made opens with the header it was given and holds exactly the entries
  the source emitted, in their order.
\<close>

lemma written_reads_back:
  assumes "write_manifest wrap cx sk h (es, failure) = Inr (file, n, bytes)"
    and "gzip_ok cx"
    and "header_ok cx h" and "list_all (\<lambda>e. is_int64 (me_size e)) es"
  shows "\<exists>it. new_iterator cx file = Inr it \<and> it_header it = h \<and> rows it = (es, None) \<and>
     n = length es \<and> bytes = wrap64 (sum_sizes es)"
proof -
  have h: "mh_project h \<noteq> []" and f: "\<exists>p out. fold_res (write_entry sk) es ([], header_line cx h, 0, 0) = Inr (p, out, n, bytes) \<and>
      file = cx_gzip cx out"
    using assms(1) by (auto simp: write_manifest_def split: if_splits sum.splits prod.splits option.splits)
  then obtain p out where fo: "fold_res (write_entry sk) es ([], header_line cx h, 0, 0) = Inr (p, out, n, bytes)"
    "file = cx_gzip cx out" by blast
  then have g: "cx_gunzip cx file = Some (out, False)" using assms(2) by (simp add: gzip_ok_def)
  obtain l where l: "header_line cx h = l @ [CHR 0x0A]" "CHR 0x0A \<notin> set l" "parse_header cx l = Inr h"
    using parse_header_line [OF assms(3) h] by blast
  obtain body where t: "out = header_line cx h @ body" "rows (fresh_iterator h body []) = (es, None)"
    "n = length es" "bytes = wrap64 (sum_sizes es)"
    using write_entries_rows [OF fo(1) assms(4)] by (auto simp: wrap64_def)
  have "new_iterator cx file = Inr (fresh_iterator h body [])"
    using g l t(1) by (simp add: new_iterator_def read_line_def read_string_line fresh_iterator_def)
  with t show ?thesis by (intro exI [of _ "fresh_iterator h body []"]) (simp add: fresh_iterator_def)
qed

section \<open>What a readable manifest holds\<close>

text \<open>Every row an iterator yields is valid, and the rows come in strictly ascending order.\<close>

definition ascending :: "string \<Rightarrow> mentry list \<Rightarrow> bool" where
  "ascending p es \<longleftrightarrow> sorted_wrt (<) (map entry_mark es) \<and> (p \<noteq> [] \<longrightarrow> (\<forall>e\<in>set es. p < entry_mark e))"

lemma ascending_Cons:
  "ascending p (e # es) \<longleftrightarrow> (p \<noteq> [] \<longrightarrow> p < entry_mark e) \<and> ascending (entry_mark e) es"
  by (auto simp: ascending_def)

lemma parse_int_range: "parse_int s = Some n \<Longrightarrow> is_int64 n"
proof -
  assume p: "parse_int s = Some n"
  obtain neg ds where x: "(case s of [] \<Rightarrow> (False, []) | c # r \<Rightarrow> if c = CHR ''-'' then (True, r)
      else if c = CHR ''+'' then (False, r) else (False, s)) = (neg, ds)" by (rule prod.exhaust)
  show ?thesis
    using p unfolding parse_int_def x Let_def prod.case
    by (auto split: option.splits if_splits)
qed

lemma parse_entry_valid: "parse_entry l = Inr e \<Longrightarrow> validate_entry e = Inr () \<and> is_int64 (me_size e)"
  by (auto simp: parse_entry_def Let_def bind_res_Inr_iff
      split: list.splits option.splits dest: parse_int_range)

lemma next_entry_valid:
  "next_entry it = (Inr (Some e), it') \<Longrightarrow>
     validate_entry e = Inr () \<and> is_int64 (me_size e) \<and>
     (it_previous it \<noteq> [] \<longrightarrow> it_previous it < entry_mark e) \<and> it_previous it' = entry_mark e"
  by (auto simp: next_entry_def Let_def dest: parse_entry_valid
      split: if_splits line_result.splits sum.splits prod.splits)

lemma rows_valid:
  "ascending (it_previous it) (fst (rows it)) \<and>
   (\<forall>e\<in>set (fst (rows it)). validate_entry e = Inr () \<and> is_int64 (me_size e))"
proof (induction it rule: rows.induct)
  case (1 it)
  obtain r it' where n: "next_entry it = (r, it')" by (cases "next_entry it")
  show ?case
  proof (cases "\<exists>e. r = Inr (Some e)")
    case True
    then obtain e where r: "r = Inr (Some e)" by blast
    then have "ascending (it_previous it') (fst (rows it'))"
      "\<forall>e\<in>set (fst (rows it')). validate_entry e = Inr () \<and> is_int64 (me_size e)"
      using "1.IH" [OF n [symmetric] r refl] by auto
    then show ?thesis
      using n r next_entry_valid [of it e it'] by (simp add: rows.simps [of it] ascending_Cons)
  next
    case False
    then have "fst (rows it) = []"
      using n by (cases r) (auto simp: rows.simps [of it] split: option.splits)
    then show ?thesis by (simp add: ascending_def)
  qed
qed

section \<open>The difference of two manifests\<close>

text \<open>
  The identity of an entry is its ecosystem and key. As long as no ecosystem name holds a NUL,
  the order of the stream (the name, a NUL, the key) is the order Diff compares by.
\<close>

definition ident :: "mentry \<Rightarrow> string \<times> string" where
  "ident e = (me_eco e, me_key e)"

definition nul_free :: "mentry list \<Rightarrow> bool" where
  "nul_free es \<longleftrightarrow> list_all (\<lambda>e. CHR 0x00 \<notin> set (me_eco e)) es"

lemma nul_least: "c \<noteq> CHR 0x00 \<Longrightarrow> CHR 0x00 < c \<and> \<not> c < CHR 0x00"
proof -
  assume c: "c \<noteq> CHR 0x00"
  have "(of_char (CHR 0x00) :: nat) = 0" by simp
  moreover have "(of_char c :: nat) \<noteq> 0" using c by (metis calculation of_char_eq_iff)
  ultimately show ?thesis by (simp add: less_char_def)
qed

lemma mark_less:
  "CHR 0x00 \<notin> set a \<Longrightarrow> CHR 0x00 \<notin> set b \<Longrightarrow>
     (a @ CHR 0x00 # x < b @ CHR 0x00 # y) = (a < b \<or> a = b \<and> x < y)"
proof (induction a arbitrary: b)
  case Nil
  show ?case
  proof (cases b)
    case (Cons d b')
    with Nil have "CHR 0x00 < d" using nul_least [of d] by auto
    with Cons show ?thesis by simp
  qed simp
next
  case (Cons c a)
  then have c: "\<not> c < CHR 0x00" "c \<noteq> CHR 0x00" using nul_least [of c] by auto
  then show ?case
  proof (cases b)
    case (Cons d b')
    with Cons.IH [of b'] Cons.prems show ?thesis by auto
  qed simp
qed

lemma mark_ident:
  assumes "CHR 0x00 \<notin> set (me_eco a)" and "CHR 0x00 \<notin> set (me_eco b)"
  shows "entry_mark a < entry_mark b \<longleftrightarrow> ident a < ident b"
  using mark_less [OF assms] by (simp add: entry_mark_def ident_def less_prod_def')

lemma entry_order_ident:
  "entry_order a b < 0 \<longleftrightarrow> ident a < ident b" "entry_order a b > 0 \<longleftrightarrow> ident b < ident a"
  by (auto simp: entry_order_def ident_def less_prod_def')

lemma ascending_ident: "ascending p es \<Longrightarrow> nul_free es \<Longrightarrow> sorted_wrt (<) (map ident es)"
proof -
  assume "ascending p es" and n: "nul_free es"
  then have "sorted_wrt (\<lambda>a b. entry_mark a < entry_mark b) es" by (simp add: ascending_def sorted_wrt_map)
  then have "sorted_wrt (\<lambda>a b. ident a < ident b) es"
    by (rule sorted_wrt_mono_rel [rotated]) (use n mark_ident in \<open>auto simp: nul_free_def list_all_iff\<close>)
  then show ?thesis by (simp add: sorted_wrt_map)
qed

text \<open>The reference: for each identity of either side, in order, what became of it.\<close>

definition held :: "mentry list \<Rightarrow> string \<times> string \<Rightarrow> mentry option" where
  "held es = map_of (map (\<lambda>e. (ident e, e)) es)"

definition change_of :: "mentry option \<Rightarrow> mentry option \<Rightarrow> change list" where
  "change_of l r =
     (case (l, r) of
        (None, None) \<Rightarrow> []
      | (Some a, None) \<Rightarrow> [Removed a]
      | (None, Some b) \<Rightarrow> [Added b]
      | (Some a, Some b) \<Rightarrow> if a = b then [] else [Replaced a b])"

definition difference :: "mentry list \<Rightarrow> mentry list \<Rightarrow> change list" where
  "difference as bs =
     concat (map (\<lambda>i. change_of (held as i) (held bs i)) (sorted_list_of_set (ident ` (set as \<union> set bs))))"

text \<open>The merge Diff performs, on lists.\<close>

fun merge_rows :: "mentry list \<Rightarrow> mentry list \<Rightarrow> change list" where
  "merge_rows [] [] = []"
| "merge_rows (a # as) [] = Removed a # merge_rows as []"
| "merge_rows [] (b # bs) = Added b # merge_rows [] bs"
| "merge_rows (a # as) (b # bs) =
     (if ident a < ident b then Removed a # merge_rows as (b # bs)
      else if ident b < ident a then Added b # merge_rows (a # as) bs
      else (if me_digest a \<noteq> me_digest b \<or> me_size a \<noteq> me_size b then [Replaced a b] else []) @ merge_rows as bs)"

lemma held_simps [simp]: "held [] = Map.empty" "held (e # es) = (held es)(ident e \<mapsto> e)"
  by (simp_all add: held_def)

lemma held_None: "i \<notin> ident ` set es \<Longrightarrow> held es i = None"
  by (force simp: held_def map_of_eq_None_iff)

lemma least_first:
  "finite S \<Longrightarrow> \<forall>y\<in>S. (x :: 'a :: linorder) < y \<Longrightarrow> sorted_list_of_set (insert x S) = x # sorted_list_of_set S"
proof -
  assume S: "finite S" "\<forall>y\<in>S. x < y"
  then have "x \<notin> S" by auto
  with S show ?thesis by (simp add: insort_is_Cons less_imp_le)
qed

lemma difference_step:
  assumes "\<forall>y\<in>ident ` (set as' \<union> set bs'). i < y"
    and "ident ` (set as \<union> set bs) = insert i (ident ` (set as' \<union> set bs'))"
    and "\<And>j. j \<noteq> i \<Longrightarrow> held as j = held as' j \<and> held bs j = held bs' j"
  shows "difference as bs = change_of (held as i) (held bs i) @ difference as' bs'"
proof -
  have "change_of (held as j) (held bs j) = change_of (held as' j) (held bs' j)"
    if "j \<in> set (sorted_list_of_set (ident ` (set as' \<union> set bs')))" for j
  proof -
    have "j \<noteq> i" using that assms(1) by auto
    then show ?thesis by (simp add: assms(3))
  qed
  then have m: "map (\<lambda>j. change_of (held as j) (held bs j)) (sorted_list_of_set (ident ` (set as' \<union> set bs'))) =
      map (\<lambda>j. change_of (held as' j) (held bs' j)) (sorted_list_of_set (ident ` (set as' \<union> set bs')))"
    by (rule map_cong [OF refl])
  then show ?thesis unfolding difference_def assms(2) least_first [OF finite_imageI [OF finite_UnI [OF finite_set finite_set]] assms(1)]
    by (simp only: list.map(2) concat.simps m)
qed

lemma merge_is_difference:
  "sorted_wrt (<) (map ident as) \<Longrightarrow> sorted_wrt (<) (map ident bs) \<Longrightarrow> merge_rows as bs = difference as bs"
proof (induction as bs rule: merge_rows.induct)
  case 1
  then show ?case by (simp add: difference_def)
next
  case (2 a as)
  have "difference (a # as) [] = change_of (held (a # as) (ident a)) (held [] (ident a)) @ difference as []"
    by (rule difference_step) (use 2 in simp_all)
  with 2 show ?case by (simp add: change_of_def)
next
  case (3 b bs)
  have "difference [] (b # bs) = change_of (held [] (ident b)) (held (b # bs) (ident b)) @ difference [] bs"
    by (rule difference_step) (use 3 in simp_all)
  with 3 show ?case by (simp add: change_of_def)
next
  case (4 a as b bs)
  have as: "\<forall>y\<in>ident ` set as. ident a < y" and bs: "\<forall>y\<in>ident ` set bs. ident b < y" using 4 by simp_all
  consider (less) "ident a < ident b" | (greater) "ident b < ident a" | (same) "ident a = ident b" by force
  then show ?case
  proof cases
    case less
    have l: "\<forall>y\<in>ident ` (set as \<union> set (b # bs)). ident a < y" using as bs less by (auto intro: less_trans)
    then have n: "held (b # bs) (ident a) = None" by (intro held_None) auto
    have "difference (a # as) (b # bs) =
        change_of (held (a # as) (ident a)) (held (b # bs) (ident a)) @ difference as (b # bs)"
      by (rule difference_step [OF l]) auto
    with 4 less n show ?thesis by (simp add: change_of_def del: held_simps) (simp add: held_def)
  next
    case greater
    have l: "\<forall>y\<in>ident ` (set (a # as) \<union> set bs). ident b < y" using as bs greater by (auto intro: less_trans)
    then have n: "held (a # as) (ident b) = None" by (intro held_None) auto
    have "difference (a # as) (b # bs) =
        change_of (held (a # as) (ident b)) (held (b # bs) (ident b)) @ difference (a # as) bs"
      by (rule difference_step [OF l]) auto
    with 4 greater n show ?thesis by (simp add: change_of_def del: held_simps) (simp add: held_def)
  next
    case same
    have l: "\<forall>y\<in>ident ` (set as \<union> set bs). ident a < y" using as bs same by auto
    have "difference (a # as) (b # bs) =
        change_of (held (a # as) (ident a)) (held (b # bs) (ident a)) @ difference as bs"
      by (rule difference_step [OF l]) (use same in auto)
    moreover have "a = b \<longleftrightarrow> me_digest a = me_digest b \<and> me_size a = me_size b"
      using same by (auto simp: ident_def)
    ultimately show ?thesis using 4 same by (auto simp: change_of_def)
  qed
qed

text \<open>The rows an iterator stands on and still holds.\<close>

definition pending :: "mentry option \<Rightarrow> iterator \<Rightarrow> mentry list" where
  "pending e it = (case e of None \<Rightarrow> [] | Some a \<Rightarrow> a # fst (rows it))"

definition sound :: "mentry option \<Rightarrow> iterator \<Rightarrow> bool" where
  "sound e it \<longleftrightarrow> e = None \<or> snd (rows it) = None"

lemma next_pending:
  assumes "snd (rows it) = None"
  shows "\<exists>r it'. next_entry it = (Inr r, it') \<and> pending r it' = fst (rows it) \<and> sound r it'"
proof -
  obtain r it' where n: "next_entry it = (r, it')" by (cases "next_entry it")
  show ?thesis
  proof (cases r)
    case (Inl e)
    then show ?thesis using n assms by (simp add: rows.simps [of it])
  next
    case (Inr o')
    then show ?thesis
      using n assms by (cases o') (simp_all add: rows.simps [of it] pending_def sound_def)
  qed
qed

definition lift_yield :: "'e + 's \<Rightarrow> 'e diff_error + 's" where
  "lift_yield r = (case r of Inl e \<Rightarrow> Inl (DiffYield e) | Inr s \<Rightarrow> Inr s)"

lemma yield_lift: "yield_change fn c s = lift_yield (fn c s)"
  by (simp add: yield_change_def lift_yield_def)

lemma lift_bind: "lift_yield (bind_res m f) = bind_res (lift_yield m) (\<lambda>s. lift_yield (f s))"
  by (cases m) (simp_all add: lift_yield_def)

lemma lift_Inr [simp]: "lift_yield (Inr s) = Inr s"
  by (simp add: lift_yield_def)

lemma diff_loop_merge:
  assumes "sound l base" and "sound r target"
  shows "diff_loop fn l base r target s = lift_yield (fold_res fn (merge_rows (pending l base) (pending r target)) s)"
  using assms
proof (induction "length (pending l base) + length (pending r target)" arbitrary: l base r target s rule: less_induct)
  case less
  note ih = less.hyps [rule_format]
  have stepl: "\<exists>l' base'. next_entry base = (Inr l', base') \<and> pending l base = a # pending l' base' \<and> sound l' base'"
    if "l = Some a" for a
    using next_pending [of base] less.prems(1) that by (auto simp: sound_def pending_def)
  have stepr: "\<exists>r' target'. next_entry target = (Inr r', target') \<and> pending r target = b # pending r' target' \<and> sound r' target'"
    if "r = Some b" for b
    using next_pending [of target] less.prems(2) that by (auto simp: sound_def pending_def)
  show ?case
  proof (cases l)
    case None
    note l = this
    show ?thesis
    proof (cases r)
      case None
      with l show ?thesis by (simp add: diff_loop.simps pending_def)
    next
      case (Some b)
      then obtain r' target' where t: "next_entry target = (Inr r', target')"
        "pending r target = b # pending r' target'" "sound r' target'" using stepr by blast
      have "diff_loop fn None base r' target' s' = lift_yield (fold_res fn (merge_rows [] (pending r' target')) s')" for s'
        using ih [of None base r' target'] l t less.prems(1) by (simp add: pending_def)
      then show ?thesis
        using l Some t by (simp add: diff_loop.simps [of fn None base "Some b"] yield_lift lift_bind pending_def [of None])
    qed
  next
    case (Some a)
    note l = this
    obtain l' base' where bs: "next_entry base = (Inr l', base')"
      "pending l base = a # pending l' base'" "sound l' base'" using stepl l by blast
    show ?thesis
    proof (cases r)
      case None
      have "diff_loop fn l' base' None target s' = lift_yield (fold_res fn (merge_rows (pending l' base') []) s')" for s'
        using ih [of l' base' None target] None bs less.prems(2) by (simp add: pending_def)
      then show ?thesis
        using l None bs by (simp add: diff_loop.simps [of fn "Some a" base None] yield_lift lift_bind pending_def [of None])
    next
      case (Some b)
      then obtain r' target' where t: "next_entry target = (Inr r', target')"
        "pending r target = b # pending r' target'" "sound r' target'" using stepr by blast
      have i1: "diff_loop fn l' base' r target s' = lift_yield (fold_res fn (merge_rows (pending l' base') (pending r target)) s')" for s'
        using ih [of l' base' r target] bs less.prems(2) by simp
      have i2: "diff_loop fn l base r' target' s' = lift_yield (fold_res fn (merge_rows (pending l base) (pending r' target')) s')" for s'
        using ih [of l base r' target'] t less.prems(1) by simp
      have i3: "diff_loop fn l' base' r' target' s' = lift_yield (fold_res fn (merge_rows (pending l' base') (pending r' target')) s')" for s'
        using ih [of l' base' r' target'] t bs by simp
      consider (less) "ident a < ident b" | (greater) "ident b < ident a" | (same) "ident a = ident b" by force
      then show ?thesis
      proof cases
        case less
        then show ?thesis
          using i1 l Some bs t
          by (simp add: diff_loop.simps [of fn "Some a" base "Some b"] yield_lift lift_bind entry_order_ident)
      next
        case greater
        then have "\<not> ident a < ident b" by (rule less_not_sym)
        with greater show ?thesis
          using i2 l Some bs t
          by (simp add: diff_loop.simps [of fn "Some a" base "Some b"] yield_lift lift_bind entry_order_ident)
      next
        case same
        then show ?thesis
          using i3 l Some bs t
          by (simp add: diff_loop.simps [of fn "Some a" base "Some b"] yield_lift lift_bind entry_order_ident)
      qed
    qed
  qed
qed

lemma diff_is_difference:
  assumes "rows base = (as, None)" and "rows target = (bs, None)" and "nul_free as" and "nul_free bs"
  shows "manifest_diff fn base target s = lift_yield (fold_res fn (difference as bs) s)"
proof -
  obtain l base' where l: "next_entry base = (Inr l, base')" "pending l base' = as" "sound l base'"
    using next_pending [of base] assms(1) by auto
  obtain r target' where r: "next_entry target = (Inr r, target')" "pending r target' = bs" "sound r target'"
    using next_pending [of target] assms(2) by auto
  have "ascending (it_previous base) as" "ascending (it_previous target) bs"
    using rows_valid [of base] rows_valid [of target] assms(1,2) by auto
  then have "merge_rows as bs = difference as bs"
    using ascending_ident assms(3,4) by (intro merge_is_difference) blast+
  then show ?thesis
    using l r by (simp add: manifest_diff_def diff_loop_merge)
qed

section \<open>The properties\<close>

lemma written_walks:
  assumes "gzip_ok cx" and "header_ok cx h" and "list_all (\<lambda>e. is_int64 (me_size e)) es"
    and "write_manifest wrap cx sk h (es, failure) = Inr (file, n, bytes)"
  shows "\<exists>it. new_iterator cx file = Inr it \<and> it_header it = h \<and> rows it = (es, None) \<and>
     (\<forall>wr fn s. walk_manifest wr fn it s = bind_res (fold_res fn es s) (\<lambda>s'. Inr (s', n, bytes)))"
  using written_reads_back [OF assms(4,1,2,3)] by (auto simp: walk_manifest_rows)

text \<open>
  C99. Round trip of a manifest: whenever WriteManifest succeeds, for any project, creation time
  and entries, opening the file it made gives back the header, and Walk hands exactly the entries
  that were written, in their order, to whatever callback it is given, stops where the callback
  refuses one, and reports the totals that WriteManifest returned.
\<close>

theorem manifest_roundtrip:
  assumes "gzip_ok cx" and "header_ok cx h" and "list_all (\<lambda>e. is_int64 (me_size e)) es"
    and "write_manifest wrap cx sk h (es, failure) = Inr (file, n, bytes)"
  shows "\<exists>it. new_iterator cx file = Inr it \<and> it_header it = h \<and>
     (\<forall>wr fn s. walk_manifest wr fn it s = bind_res (fold_res fn es s) (\<lambda>s'. Inr (s', n, bytes)))"
  using written_walks [OF assms] by (elim exE conjE) (intro exI conjI; assumption)

definition plain_codec :: codec where
  "plain_codec = \<lparr>cx_gzip = (\<lambda>s. s), cx_gunzip = (\<lambda>s. Some (s, False)),
     cx_format = format_int, cx_parse = parse_int\<rparr>"

definition good_sink :: sink where
  "good_sink = \<lparr>sk_header = False, sk_entry = (\<lambda>_. False), sk_flush = False, sk_close = False\<rparr>"

definition sample_entry :: "string \<Rightarrow> char \<Rightarrow> int64 \<Rightarrow> mentry" where
  "sample_entry key c n = \<lparr>me_eco = ''npm'', me_key = key, me_digest = replicate 64 c, me_size = n\<rparr>"

definition sample_header :: mheader where
  "sample_header = \<lparr>mh_project = ''team a'', mh_created = 7\<rparr>"

lemma plain_codec_ok: "gzip_ok plain_codec" "header_ok plain_codec sample_header"
proof -
  show "gzip_ok plain_codec" by (simp add: gzip_ok_def plain_codec_def)
  show "header_ok plain_codec sample_header" by code_simp
qed

lemma manifest_roundtrip_witness:
  "\<exists>file it. write_manifest id plain_codec good_sink sample_header
       ([sample_entry ''a'' CHR ''1'' 5, sample_entry ''b'' CHR ''2'' 6], None) = Inr (file, 2, 11) \<and>
     new_iterator plain_codec file = Inr it \<and> it_header it = sample_header \<and>
     walk_manifest id (\<lambda>e acc. Inr (acc @ [me_key e])) it [] = Inr ([''a'', ''b''], 2, 11)"
proof -
  let ?es = "[sample_entry ''a'' CHR ''1'' 5, sample_entry ''b'' CHR ''2'' 6]"
  have "is_ok (write_manifest id plain_codec good_sink sample_header (?es, None))"
    "map_sum id snd (write_manifest id plain_codec good_sink sample_header (?es, None)) = Inr (2, 11)"
    by code_simp+
  then obtain out where w: "write_manifest id plain_codec good_sink sample_header (?es, None) = Inr (out, 2, 11)"
    by (cases "write_manifest id plain_codec good_sink sample_header (?es, None)") auto
  have "list_all (\<lambda>e. is_int64 (me_size e)) ?es" by code_simp
  from manifest_roundtrip [OF plain_codec_ok this w]
  show ?thesis
  proof (elim exE conjE)
    fix it
    assume it: "new_iterator plain_codec out = Inr it" "it_header it = sample_header"
      and all: "\<forall>(wr :: manifest_error \<Rightarrow> manifest_error) (fn :: mentry \<Rightarrow> string list \<Rightarrow> _) s. walk_manifest wr fn it s = bind_res (fold_res fn ?es s) (\<lambda>s'. Inr (s', 2, 11))"
    have walks: "walk_manifest id (\<lambda>e acc. Inr (acc @ [me_key e])) it [] = Inr ([''a'', ''b''], 2, 11)"
      unfolding all [rule_format] by (simp add: sample_entry_def)
    show ?thesis by (intro exI [of _ out] exI [of _ it] conjI w it walks)
  qed
qed

text \<open>
  C99. Diff of two readable manifests is the difference of the two finite maps they stand for:
  its callback sees, in ascending order of ecosystem and key, one removal for each entry only the
  base holds, one addition for each entry only the target holds, one replacement for each entry
  whose content or size differs and nothing for the others, until the callback refuses one.
\<close>

theorem diff_exact:
  assumes "rows base = (as, None)" and "rows target = (bs, None)" and "nul_free as" and "nul_free bs"
  shows "manifest_diff fn base target s = lift_yield (fold_res fn (difference as bs) s)"
  by (rule diff_is_difference) (rule assms)+

definition sample_iterator :: "mentry list \<Rightarrow> iterator" where
  "sample_iterator es = fresh_iterator sample_header (concat (map entry_line es)) []"

lemma diff_exact_witness:
  "manifest_diff (\<lambda>c cs. Inr (cs @ [c]))
     (sample_iterator [sample_entry ''a'' CHR ''1'' 5, sample_entry ''b'' CHR ''2'' 6])
     (sample_iterator [sample_entry ''b'' CHR ''3'' 6, sample_entry ''c'' CHR ''4'' 7]) [] =
   Inr [Removed (sample_entry ''a'' CHR ''1'' 5),
        Replaced (sample_entry ''b'' CHR ''2'' 6) (sample_entry ''b'' CHR ''3'' 6),
        Added (sample_entry ''c'' CHR ''4'' 7)]"
proof -
  let ?as = "[sample_entry ''a'' CHR ''1'' 5, sample_entry ''b'' CHR ''2'' 6]"
  let ?bs = "[sample_entry ''b'' CHR ''3'' 6, sample_entry ''c'' CHR ''4'' 7]"
  have r: "rows (sample_iterator ?as) = (?as, None)" "rows (sample_iterator ?bs) = (?bs, None)" by code_simp+
  have n: "nul_free ?as" "nul_free ?bs" by code_simp+
  have "difference ?as ?bs = [Removed (sample_entry ''a'' CHR ''1'' 5),
      Replaced (sample_entry ''b'' CHR ''2'' 6) (sample_entry ''b'' CHR ''3'' 6),
      Added (sample_entry ''c'' CHR ''4'' 7)]" by code_simp
  then show ?thesis by (simp add: diff_exact [OF r n])
qed

end
