(* ===== verification/PackSpec.thy ===== *)
theory PackSpec
  imports Pack ManifestSpec CatalogSpec
begin

text \<open>
  What the transfer pack of package snapshot promises. Every member that reaches the store went
  through a verified writer, so the store keeps its invariant; a project's catalog changes only
  after every manifest and blob of the pack has been checked, all at once, and only from the
  checkpoint the pack starts at.
\<close>

section \<open>The store during an import\<close>

definition idle :: "fs \<Rightarrow> blob_sys" where
  "idle f = \<lparr>bs_fs = f, bs_writers = (\<lambda>_. None)\<rparr>"

definition with_writer :: "fs \<Rightarrow> writer \<Rightarrow> blob_sys" where
  "with_writer f w = \<lparr>bs_fs = f, bs_writers = [0 \<mapsto> w]\<rparr>"

lemma inv_idle: "sys_inv st (idle f) \<longleftrightarrow> fs_inv st f"
  using sys_inv_no_writers [of st f] by (auto simp: idle_def sys_inv_def)

lemma inv_with_writer: "sys_inv st (with_writer f w) \<Longrightarrow> fs_inv st f"
  by (simp add: sys_inv_def with_writer_def)

lemma writer_steps:
  assumes "store_wf st"
  shows "fs_inv st f \<Longrightarrow> writer_create flt st f rnd now = (f', Inr w) \<Longrightarrow> sys_inv st (with_writer f' w)"
    and "sys_inv st (with_writer f w) \<Longrightarrow> writer_write n now f w p = (f', w', r, m) \<Longrightarrow> sys_inv st (with_writer f' w')"
    and "sys_inv st (with_writer f w) \<Longrightarrow> writer_commit flt now st f w = (f', w', r') \<Longrightarrow> sys_inv st (with_writer f' w')"
    and "sys_inv st (with_writer f w) \<Longrightarrow> writer_abort flt f w = (f', w', r'') \<Longrightarrow> sys_inv st (with_writer f' w')"
proof -
  note inv = blob_step_inv [OF _ assms]
  {
    assume "fs_inv st f" and c: "writer_create flt st f rnd now = (f', Inr w)"
    moreover have "blob_step st (idle f) (with_writer f' w)"
      using step_create [of "idle f" 0 flt st rnd now f' w] c by (simp add: idle_def with_writer_def)
    ultimately show "sys_inv st (with_writer f' w)" using inv inv_idle by blast
  next
    assume i: "sys_inv st (with_writer f w)"
    show "writer_write n now f w p = (f', w', r, m) \<Longrightarrow> sys_inv st (with_writer f' w')"
      using inv [OF _ i] step_write [of "with_writer f w" 0 w n now p f' w' r m st] by (simp add: with_writer_def)
    show "writer_commit flt now st f w = (f', w', r') \<Longrightarrow> sys_inv st (with_writer f' w')"
      using inv [OF _ i] step_commit [of "with_writer f w" 0 w True flt now st f' w' r']
      by (simp add: with_writer_def writer_commit_def)
    show "writer_abort flt f w = (f', w', r'') \<Longrightarrow> sys_inv st (with_writer f' w')"
      using inv [OF _ i] step_abort [of "with_writer f w" 0 w flt f' w' r'' st] by (simp add: with_writer_def)
  }
qed

lemma import_blob_inv:
  assumes wf: "store_wf (pe_store env)" and i: "fs_inv (pe_store env) f"
    and f: "import_blob env k f m expected = (f', r)"
  shows "fs_inv (pe_store env) f'"
proof -
  note W = writer_steps [OF wf]
  obtain f1 c where c: "writer_create (pe_fs env k) (pe_store env) f (pe_rnd env k) (pe_now env k) = (f1, c)" by fastforce
  show ?thesis
  proof (cases c)
    case (Inl e)
    then show ?thesis using f c i by (auto simp: import_blob_def Let_def writer_create_def split: if_splits)
  next
    case (Inr w)
    with c W(1) [OF i] have i1: "sys_inv (pe_store env) (with_writer f1 w)" by simp
    obtain f2 w2 r2 n where w: "writer_write (pe_accept env k) (pe_now env k) f1 w (tm_body m) = (f2, w2, r2, n)"
      by (metis prod_cases4)
    note i2 = W(2) [OF i1 w]
    have a: "fs_inv (pe_store env) (fst (writer_abort (pe_fs env k) g v))" if "sys_inv (pe_store env) (with_writer g v)" for g v
      using W(4) [OF that] inv_with_writer by (metis prod_cases3 fst_conv)
    obtain f3 w3 r3 where m: "writer_commit (pe_fs env k) (pe_now env k) (pe_store env) f2 w2 = (f3, w3, r3)"
      by (metis prod_cases3)
    note i3 = W(3) [OF i2 m]
    show ?thesis
      using f c Inr w m a [OF i2] a [OF i3] by (auto simp: import_blob_def Let_def split: if_splits sum.splits)
  qed
qed

text \<open>The certificate directory lies outside the blobs.\<close>

definition apart :: "store \<Rightarrow> path \<Rightarrow> bool" where
  "apart st dir \<longleftrightarrow> (\<forall>x. \<not> under (so_blobs st) (dir @ [x]))"

definition certs_apart :: "store \<Rightarrow> path option \<Rightarrow> bool" where
  "certs_apart st certs \<longleftrightarrow> (\<forall>dir. certs = Some dir \<longrightarrow> apart st dir)"

lemma new_file_inv:
  assumes "fs_inv st f" and "\<not> under (so_blobs st) p"
  shows "fs_inv st (new_file p i f)"
  using assms by (auto simp: fs_inv_def new_file_def lookup_name_def less_SucI split: if_splits)

lemma shrinks_removal: "shrinks f (fst (os_remove flt p f))"
  by (cases "os_remove flt p f") (auto dest: shrinks_remove)

lemma stage_file_inv:
  assumes i: "fs_inv st f" and a: "apart st dir" and f: "stage_file env k f m dir name = (f', r)"
  shows "fs_inv st f' \<and> (\<forall>p. r = Inr p \<longrightarrow> \<not> under (so_blobs st) p)"
proof -
  let ?p = "dir @ [''.'' @ name @ ''.import-'' @ pe_rnd env k]"
  have p: "\<not> under (so_blobs st) ?p" using a by (simp add: apart_def)
  show ?thesis
  proof (cases "mkdir_all (pe_fs env k) dir f")
    case None
    then show ?thesis using f i by (auto simp: stage_file_def)
  next
    case (Some f1)
    then have i1: "fs_inv st f1" using shrinks_inv [OF i shrinks_mkdir] by blast
    let ?i = "\<lparr>ino_data = tm_body m, ino_mtime = pe_now env k, ino_mode = 384, ino_synced = False\<rparr>"
    have i2: "fs_inv st (new_file ?p ?i f1)" by (rule new_file_inv [OF i1 p])
    have i3: "fs_inv st (fsync_inode (fs_next f1) (new_file ?p ?i f1))" by (rule shrinks_inv [OF i2]) simp
    have "fs_inv st (fst (os_remove (pe_fs env k) ?p g))" if "fs_inv st g" for g
      by (rule shrinks_inv [OF that shrinks_removal])
    then show ?thesis using f Some i1 i2 i3 p by (auto simp: stage_file_def Let_def split: if_splits)
  qed
qed

section \<open>What the members leave alone in the catalog\<close>

text \<open>The catalog as the entries and heads of every project show it.\<close>

definition same_projects :: "catalog \<Rightarrow> catalog \<Rightarrow> bool" where
  "same_projects c c' \<longleftrightarrow> cat_view c' = cat_view c \<and> (\<forall>p. get_head p c' = get_head p c)"

lemma same_projects_refl [simp]: "same_projects c c"
  by (simp add: same_projects_def)

lemma same_projects_trans: "same_projects a b \<Longrightarrow> same_projects b c \<Longrightarrow> same_projects a c"
  by (simp add: same_projects_def)

lemma upsert_blob_same:
  assumes ok: "cat_ok c" and f: "upsert_blob flt now d b c = (c', r)"
  shows "cat_ok c' \<and> same_projects c c'"
proof -
  have "cat_ok c' \<and> cat_view c' = cat_view c"
    using neutral_keeps [OF ok, of "OpUpsertBlob d b" flt now c' "map_sum id (\<lambda>_. None) r"] f
    by (cases r) (auto simp: no_answer_def)
  moreover have "db_heads (ct_db c') = db_heads (ct_db c)"
    using f by (auto simp: upsert_blob_def in_tx_def put_blob_def split: if_splits sum.splits)
  ultimately show ?thesis by (simp add: same_projects_def get_head_def)
qed

lemma put_snapshot_same:
  assumes ok: "cat_ok c" and f: "put_snapshot flt now s c = (c', r)"
  shows "cat_ok c' \<and> same_projects c c'"
proof -
  have "cat_ok c' \<and> cat_view c' = cat_view c"
    using neutral_keeps [OF ok, of "OpPutSnapshot s" flt now c' "map_sum id (\<lambda>_. None) r"] f
    by (cases r) (auto simp: no_answer_def)
  moreover have "db_heads (ct_db c') = db_heads (ct_db c)"
    using f by (auto simp: put_snapshot_def in_tx_def insert_snapshot_def split: if_splits sum.splits)
  ultimately show ?thesis by (simp add: same_projects_def get_head_def)
qed

section \<open>The loop over the members\<close>

definition intact :: "pack_env \<Rightarrow> catalog \<Rightarrow> progress \<Rightarrow> bool" where
  "intact env c st \<longleftrightarrow>
     fs_inv (pe_store env) (wd_fs (im_world st)) \<and> cat_ok (wd_cat (im_world st)) \<and>
     same_projects c (wd_cat (im_world st)) \<and>
     (\<forall>np\<in>set (im_staged st). \<not> under (so_blobs (pe_store env)) (snd np))"

lemma intact_keep:
  "intact env c st \<Longrightarrow> fs_inv (pe_store env) f \<Longrightarrow> intact env c (keep_fs f st)"
  "intact env c st \<Longrightarrow> cat_ok d \<Longrightarrow> same_projects (wd_cat (im_world st)) d \<Longrightarrow> intact env c (keep_cat d st)"
  "intact env c (st\<lparr>im_manifests := ms\<rparr>) = intact env c st"
  "intact env c (st\<lparr>im_blobs := bs\<rparr>) = intact env c st"
  by (auto simp: intact_def keep_fs_def keep_cat_def intro: same_projects_trans)

lemma keep_simps [simp]:
  "im_world (keep_fs f st) = (im_world st)\<lparr>wd_fs := f\<rparr>" "im_world (keep_cat c st) = (im_world st)\<lparr>wd_cat := c\<rparr>"
  "im_staged (keep_fs f st) = im_staged st" "im_staged (keep_cat c st) = im_staged st"
  by (simp_all add: keep_fs_def keep_cat_def)

lemma upsert_intact:
  assumes "intact env c st" and "upsert_blob flt now d b (wd_cat (im_world st)) = (c', r)"
  shows "cat_ok c' \<and> same_projects (wd_cat (im_world st)) c'"
  using assms upsert_blob_same by (auto simp: intact_def)

lemma read_manifest_member_intact:
  assumes wf: "store_wf (pe_store env)" and i: "intact env c st"
    and f: "read_manifest_member env pk k m st = (st', r)"
  shows "intact env c st'"
proof (cases "snapshot_member_id (tm_name m)")
  case None
  then show ?thesis using f i by (simp add: read_manifest_member_def)
next
  case (Some j)
  note j = this
  show ?thesis
  proof (cases "meta_by_id pk j")
    case None
    then show ?thesis using f i j by (simp add: read_manifest_member_def)
  next
    case (Some mt)
    obtain g q where b: "import_blob env k (wd_fs (im_world st)) m (mt_manifest mt) = (g, q)" by fastforce
    have g: "fs_inv (pe_store env) g" using import_blob_inv [OF wf _ b] i by (simp add: intact_def)
    note ig = intact_keep(1) [OF i g]
    show ?thesis
    proof (cases q)
      case (Inl e)
      then show ?thesis using f j Some b ig by (simp add: read_manifest_member_def)
    next
      case (Inr ds)
      obtain c' u where u: "upsert_blob (pe_db env k) (pe_now env k) (fst ds)
          \<lparr>br_size = snd ds, br_created = mt_created mt, br_access = mt_created mt\<rparr> (wd_cat (im_world st)) = (c', u)" by fastforce
      have "intact env c (keep_cat c' (keep_fs g st))"
        using intact_keep(2) [OF ig] upsert_intact [OF i u] by simp
      moreover from this have "intact env c (keep_cat c' (keep_fs g (st\<lparr>im_manifests := j # im_manifests st\<rparr>)))"
        by (simp add: intact_def)
      ultimately show ?thesis using f j Some b Inr u
        by (cases ds) (auto simp: read_manifest_member_def split: sum.splits if_splits)
    qed
  qed
qed

lemma read_blob_member_intact:
  assumes wf: "store_wf (pe_store env)" and i: "intact env c st"
    and f: "read_blob_member env k m st = (st', r)"
  shows "intact env c st'"
proof (cases "blob_member_digest (tm_name m)")
  case None
  then show ?thesis using f i by (simp add: read_blob_member_def)
next
  case (Some d)
  obtain g q where b: "import_blob env k (wd_fs (im_world st)) m d = (g, q)" by fastforce
  have g: "fs_inv (pe_store env) g" using import_blob_inv [OF wf _ b] i by (simp add: intact_def)
  note ig = intact_keep(1) [OF i g]
  show ?thesis
  proof (cases q)
    case (Inl e)
    then show ?thesis using f Some b ig by (simp add: read_blob_member_def)
  next
    case (Inr ds)
    obtain c' u where u: "upsert_blob (pe_db env k) (pe_now env k) (fst ds)
        \<lparr>br_size = snd ds, br_created = pe_now env k, br_access = pe_now env k\<rparr> (wd_cat (im_world st)) = (c', u)" by fastforce
    have "intact env c (keep_cat c' (keep_fs g st))"
      using intact_keep(2) [OF ig] upsert_intact [OF i u] by simp
    then have "intact env c (keep_cat c' (keep_fs g (st\<lparr>im_blobs := (fst ds, snd ds) # im_blobs st\<rparr>)))"
      by (simp add: intact_def)
    then show ?thesis using f Some b Inr u ig
      by (cases ds) (auto simp: read_blob_member_def Let_def split: sum.splits if_splits)
  qed
qed

lemma in_update: "kv \<in> set (AList.update k v xs) \<Longrightarrow> kv = (k, v) \<or> kv \<in> set xs"
  by (induction xs) (auto split: if_splits)

lemma read_cert_member_intact:
  assumes a: "certs_apart (pe_store env) certs" and i: "intact env c st"
    and f: "read_cert_member env pk certs k m st = (st', r)"
  shows "intact env c st'"
proof (cases certs)
  case None
  then show ?thesis using f i by (simp add: read_cert_member_def)
next
  case (Some dir)
  then have d: "apart (pe_store env) dir" using a by (simp add: certs_apart_def)
  let ?name = "trim_prefix (tm_name m) ''certs/''"
  obtain g q where b: "stage_file env k (wd_fs (im_world st)) m dir ?name = (g, q)" by fastforce
  note S = stage_file_inv [OF _ d b]
  have g: "fs_inv (pe_store env) g" using S i by (simp add: intact_def)
  note ig = intact_keep(1) [OF i g]
  have "intact env c (keep_fs g (st\<lparr>im_staged := AList.update ?name p (im_staged st)\<rparr>))" if "q = Inr p" for p
    using S i that g by (auto simp: intact_def keep_fs_def dest!: in_update)
  then show ?thesis using f Some b ig i
    by (auto simp: read_cert_member_def Let_def split: sum.splits if_splits)
qed

lemma read_members_intact:
  assumes wf: "store_wf (pe_store env)" and a: "certs_apart (pe_store env) certs"
  shows "intact env c st \<Longrightarrow> read_members env pk certs ends k ms st = (st', r) \<Longrightarrow> intact env c st'"
proof (induction ms arbitrary: k st)
  case Nil
  then show ?case by (auto split: if_splits)
next
  case (Cons m ms)
  obtain st1 r1 where m: "read_member env pk certs k m st = (st1, r1)" by fastforce
  have "intact env c st1"
    using m read_manifest_member_intact [OF wf Cons.prems(1), of pk k m st1 r1]
      read_blob_member_intact [OF wf Cons.prems(1), of k m st1 r1] read_cert_member_intact [OF a Cons.prems(1), of pk k m st1 r1]
      Cons.prems(1)
    unfolding read_member_def by (simp split: if_splits)
  with Cons m show ?case by (auto split: if_splits sum.splits)
qed

section \<open>Verification of the checkpoints\<close>

text \<open>
  A checkpoint is verified in a file system when its manifest is a blob of the store that decodes,
  names its project and has its totals; with \<open>require\<close> every entry's blob is stored at its size.
\<close>

definition stored :: "pack_env \<Rightarrow> fs \<Rightarrow> digest \<Rightarrow> string \<Rightarrow> bool" where
  "stored env f d body \<longleftrightarrow> (\<exists>m. blob_open no_faults (pe_store env) f d = Inr (body, m))"

definition manifest_of :: "pack_env \<Rightarrow> fs \<Rightarrow> meta \<Rightarrow> mentry list \<Rightarrow> bool" where
  "manifest_of env f m es \<longleftrightarrow>
     (\<exists>body it. stored env f (mt_manifest m) body \<and> new_iterator (pe_codec env) body = Inr it \<and>
        mh_project (it_header it) = mt_project m \<and> rows it = (es, None) \<and>
        int (length es) = mt_count m \<and> wrap64 (sum_sizes es) = mt_bytes m)"

definition entry_stored :: "pack_env \<Rightarrow> fs \<Rightarrow> mentry \<Rightarrow> bool" where
  "entry_stored env f e \<longleftrightarrow>
     (\<exists>body. stored env f (me_digest e) body \<and> digest_bytes body = me_digest e \<and> int (length body) = me_size e)"

lemma stored_open: "blob_open flt (pe_store env) f d = Inr (body, m) \<Longrightarrow> stored env f d body"
  by (auto simp: stored_def blob_open_Inr)

lemma stored_digest: "fs_inv (pe_store env) f \<Longrightarrow> stored env f d body \<Longrightarrow> digest_bytes body = d"
  using fs_inv_open by (auto simp: stored_def)

lemma stat_stored:
  assumes "fs_inv (pe_store env) f" and "blob_stat flt (pe_store env) f (me_digest e) = Some m" and "st_size m = me_size e"
  shows "entry_stored env f e"
proof -
  obtain p i where p: "store_path (pe_store env) (me_digest e) = Inr p" "lookup_name f p = Some i" "m = stat_of (fs_inodes f i)"
    using assms(2) by (auto simp: blob_stat_Some)
  then have s: "stored env f (me_digest e) (ino_data (fs_inodes f i))" by (auto simp: stored_def blob_open_Inr)
  with stored_digest [OF assms(1) s] p(3) assms(3) show ?thesis
    unfolding entry_stored_def by (auto simp: stat_of_def)
qed

lemma verify_entries:
  assumes "fold_res (verify_entry env k f True) es u = Inr v" and "fs_inv (pe_store env) f"
  shows "\<forall>e\<in>set es. entry_stored env f e"
  using assms(1)
proof (induction es arbitrary: u)
  case Nil
  then show ?case by simp
next
  case (Cons e es)
  then have "verify_entry env k f True e u = Inr ()" and r: "fold_res (verify_entry env k f True) es () = Inr v"
    by (auto simp: bind_res_Inr_iff)
  then have "entry_stored env f e"
    using stat_stored [OF assms(2)] by (auto simp: verify_entry_def split: if_splits option.splits)
  with Cons.IH [OF r] show ?case by simp
qed

lemma open_manifest_Inr:
  "open_manifest env k f d = Inr it \<Longrightarrow> \<exists>body. stored env f d body \<and> new_iterator (pe_codec env) body = Inr it"
  by (auto simp: open_manifest_def dest: stored_open split: sum.splits prod.splits)

lemma verify_manifest_Inr:
  assumes "verify_manifest env k f m require = Inr u" and "fs_inv (pe_store env) f"
  shows "\<exists>es. manifest_of env f m es \<and> (require \<longrightarrow> (\<forall>e\<in>set es. entry_stored env f e))"
proof -
  obtain it v n b where o': "open_manifest env k f (mt_manifest m) = Inr it"
    and h: "mh_project (it_header it) = mt_project m"
    and w: "walk_manifest PkManifest (verify_entry env k f require) it () = Inr (v, n, b)"
    and t: "int n = mt_count m" "b = mt_bytes m"
    using assms(1) by (auto simp: verify_manifest_def bind_res_Inr_iff split: if_splits)
  obtain body where body: "stored env f (mt_manifest m) body" "new_iterator (pe_codec env) body = Inr it"
    using open_manifest_Inr [OF o'] by blast
  have r: "snd (rows it) = None" "n = length (fst (rows it))" "b = wrap64 (sum_sizes (fst (rows it)))"
    "fold_res (verify_entry env k f require) (fst (rows it)) () = Inr v"
    using w by (auto simp: walk_manifest_rows bind_res_Inr_iff split: option.splits)
  have "rows it = (fst (rows it), None)" using r(1) by (metis prod.collapse)
  then have "manifest_of env f m (fst (rows it))"
    using body h t r(2,3) unfolding manifest_of_def by auto
  moreover have "require \<longrightarrow> (\<forall>e\<in>set (fst (rows it)). entry_stored env f e)"
    using verify_entries [OF _ assms(2)] r(4) by (cases require) auto
  ultimately show ?thesis by blast
qed

lemma admit_snapshots_Inr:
  assumes "admit_snapshots env k ms w = (w', r)" and "cat_ok (wd_cat w)" and "fs_inv (pe_store env) (wd_fs w)"
  shows "wd_fs w' = wd_fs w \<and> cat_ok (wd_cat w') \<and> same_projects (wd_cat w) (wd_cat w') \<and>
    (is_ok r \<longrightarrow> ms \<noteq> [] \<longrightarrow>
       (\<exists>es. manifest_of env (wd_fs w) (last ms) es \<and> (\<forall>e\<in>set es. entry_stored env (wd_fs w) e)))"
  using assms(1,2,3)
proof (induction ms arbitrary: k w)
  case Nil
  then show ?case by simp
next
  case (Cons m ms)
  show ?case
  proof (cases "verify_manifest env k (wd_fs w) m (ms = [])")
    case (Inl e)
    then have "w' = w \<and> r = Inl e" using Cons.prems by auto
    then show ?thesis using Cons.prems by simp
  next
    case (Inr u)
    note v = verify_manifest_Inr [OF Inr Cons.prems(3)]
    show ?thesis
    proof (cases "\<exists>c. cat_ok c \<and> same_projects (wd_cat w) c \<and> admit_snapshots env (Suc k) ms (w\<lparr>wd_cat := c\<rparr>) = (w', r)")
      case True
      then obtain c where c: "cat_ok c" "same_projects (wd_cat w) c" "admit_snapshots env (Suc k) ms (w\<lparr>wd_cat := c\<rparr>) = (w', r)"
        by blast
      from Cons.IH [OF c(3)] c(1,2) Cons.prems(3) v show ?thesis
        by (auto intro: same_projects_trans)
    next
      case False
      then have n: "admit_snapshots env (Suc k) ms (w\<lparr>wd_cat := c\<rparr>) \<noteq> (w', r)" if "cat_ok c" "same_projects (wd_cat w) c" for c
        using that by blast
      have n0: "admit_snapshots env (Suc k) ms w \<noteq> (w', r)" using n [of "wd_cat w"] Cons.prems(2) by simp
      have "\<not> is_ok r \<and> wd_fs w' = wd_fs w \<and> cat_ok (wd_cat w') \<and> same_projects (wd_cat w) (wd_cat w')"
      proof (cases "get_snapshot (mt_id m) (wd_cat w)")
        case (Inr s)
        then show ?thesis using Cons.prems n0 \<open>verify_manifest env k (wd_fs w) m (ms = []) = Inr u\<close> by (auto split: if_splits)
      next
        case (Inl e)
        obtain c q where p: "put_snapshot (pe_db env k) (pe_now env k) (meta_catalog m) (wd_cat w) = (c, q)" by fastforce
        show ?thesis using put_snapshot_same [OF Cons.prems(2) p] Cons.prems n [of c] Inl p
            \<open>verify_manifest env k (wd_fs w) m (ms = []) = Inr u\<close> by (cases q) (auto split: if_splits)
      qed
      then show ?thesis by auto
    qed
  qed
qed

section \<open>Application\<close>

lemma apply_directly_ok:
  assumes f: "apply_directly env k pk target w = (w', r)" and ok: "cat_ok (wd_cat w)"
  shows "wd_fs w' = wd_fs w \<and>
    (if is_ok r
     then \<exists>body it es. stored env (wd_fs w) (mt_manifest target) body \<and> new_iterator (pe_codec env) body = Inr it \<and>
        rows it = (es, None) \<and> get_head (pk_project pk) (wd_cat w) = pk_base pk \<and>
        get_head (pk_project pk) (wd_cat w') = pk_target pk \<and>
        cat_view (wd_cat w') = (\<lambda>j. if k_project j = pk_project pk
          then manifest_view (pk_project pk) (map (manifest_entry (pk_project pk)) es) j else cat_view (wd_cat w) j)
     else same_projects (wd_cat w) (wd_cat w'))"
proof (cases "open_manifest env k (wd_fs w) (mt_manifest target)")
  case (Inl e)
  then show ?thesis using f by (auto simp: apply_directly_def)
next
  case (Inr it)
  let ?src = "map (manifest_entry (pk_project pk)) (fst (rows it))"
  obtain c q where a: "apply_snapshot (pe_db env k) (pe_now env k) (pk_project pk) (pk_base pk) (pk_target pk) True
      ?src (source_error (snd (rows it))) None (wd_cat w) = (c, q)" by fastforce
  note A = apply_snapshot_full [OF ok a]
  have w': "w' = w\<lparr>wd_cat := c\<rparr>" "is_ok r = is_ok q" using f Inr a by (auto simp: apply_directly_def split: sum.splits)
  show ?thesis
  proof (cases "is_ok q")
    case True
    have "snd (rows it) = None" using A True by (simp add: source_error_def)
    then have "rows it = (fst (rows it), None)" by (metis prod.collapse)
    moreover obtain body where "stored env (wd_fs w) (mt_manifest target) body" "new_iterator (pe_codec env) body = Inr it"
      using open_manifest_Inr [OF Inr] by blast
    moreover have "cat_view c = (\<lambda>j. if k_project j = pk_project pk then manifest_view (pk_project pk) ?src j else cat_view (wd_cat w) j)"
      using A True by blast
    ultimately show ?thesis using A True w' by auto
  next
    case False
    then show ?thesis using A w' by (simp add: same_projects_def)
  qed
qed

section \<open>The certificates leave the blobs alone\<close>

definition same_blobs :: "store \<Rightarrow> fs \<Rightarrow> fs \<Rightarrow> bool" where
  "same_blobs st f g \<longleftrightarrow> (\<forall>i. ino_data (fs_inodes g i) = ino_data (fs_inodes f i)) \<and>
     (\<forall>p. under (so_blobs st) p \<longrightarrow> lookup_name g p = lookup_name f p)"

lemma same_blobs_refl [simp]: "same_blobs st f f"
  by (simp add: same_blobs_def)

lemma same_blobs_trans: "same_blobs st f g \<Longrightarrow> same_blobs st g h \<Longrightarrow> same_blobs st f h"
  by (simp add: same_blobs_def)

lemma same_blobs_stored: "same_blobs (pe_store env) f g \<Longrightarrow> stored env g d body = stored env f d body"
  using store_path_under by (fastforce simp: stored_def blob_open_Inr same_blobs_def)

lemma remove_same_blobs: "\<not> under (so_blobs st) p \<Longrightarrow> same_blobs st f (fst (os_remove flt p f))"
  by (cases "os_remove flt p f") (auto simp: same_blobs_def os_remove_frame os_remove_lookup)

lemma remove_staged_same:
  "\<forall>np\<in>set staged. \<not> under (so_blobs st) (snd np) \<Longrightarrow> same_blobs st f (remove_staged flt staged f)"
proof (induction staged arbitrary: f)
  case Nil
  then show ?case by (simp add: remove_staged_def)
next
  case (Cons np staged)
  have "same_blobs st (fst (os_remove flt (snd np) f)) (remove_staged flt (np # staged) f)"
    using Cons by (simp add: remove_staged_def)
  then show ?case using remove_same_blobs [of st "snd np" f flt] Cons.prems same_blobs_trans by auto
qed

lemma install_certs_same:
  assumes a: "apart st dir"
  shows "\<forall>np\<in>set staged. \<not> under (so_blobs st) (snd np) \<Longrightarrow> install_certs env k dir staged f = (g, left, r) \<Longrightarrow>
     same_blobs st f g \<and> set left \<subseteq> set staged \<and> (\<forall>e. r = Inl e \<longrightarrow> (\<exists>n. e = PkInstall n))"
proof (induction staged arbitrary: k f)
  case Nil
  then show ?case by auto
next
  case (Cons np staged)
  obtain n p where np: "np = (n, p)" by fastforce
  have q: "\<not> under (so_blobs st) (dir @ [n])" "\<not> under (so_blobs st) p" using a Cons.prems(1) np by (auto simp: apart_def)
  obtain f1 q1 where rn: "os_rename (pe_fs env k) p (dir @ [n]) (os_chmod p (cert_mode n) f) = (f1, q1)" by fastforce
  have s1: "same_blobs st f f1"
    unfolding same_blobs_def
  proof (intro conjI allI impI)
    show "ino_data (fs_inodes f1 i) = ino_data (fs_inodes f i)" for i using os_rename_frame [OF rn] by simp
    show "lookup_name f1 x = lookup_name f x" if "under (so_blobs st) x" for x
      using os_rename_lookup [OF rn, of x] that q by auto
  qed
  show ?case
  proof (cases "pe_fs env k SysChmod \<or> q1 \<noteq> IoOk")
    case True
    then show ?thesis using Cons.prems(2) np rn s1 by (auto split: if_splits)
  next
    case False
    then have "install_certs env (Suc k) dir staged f1 = (g, left, r)" using Cons.prems(2) np rn by simp
    from Cons.IH [OF _ this] Cons.prems(1) s1 same_blobs_trans show ?thesis by auto
  qed
qed

section \<open>A whole import\<close>

text \<open>What a project serves after its manifest was applied: each row, under its key, without a media type.\<close>

definition listed :: "string \<Rightarrow> mentry list \<Rightarrow> entry_key \<Rightarrow> (digest \<times> int64 \<times> string) option" where
  "listed p es = map_of (map (\<lambda>e. (EntryKey p (me_eco e) (me_key e), (me_digest e, me_size e, []))) es)"

lemma manifest_view_listed: "manifest_view p (map (manifest_entry p) es) = listed p es"
  by (simp add: manifest_view_def listed_def restored_key_def manifest_entry_def en_content_def comp_def)

definition imported :: "pack_env \<Rightarrow> pack \<Rightarrow> world \<Rightarrow> world \<Rightarrow> bool" where
  "imported env pk w w' \<longleftrightarrow>
     get_head (pk_project pk) (wd_cat w) = pk_base pk \<and> get_head (pk_project pk) (wd_cat w') = pk_target pk \<and>
     (\<exists>es. manifest_of env (wd_fs w') (last (pk_snapshots pk)) es \<and> (\<forall>e\<in>set es. entry_stored env (wd_fs w') e) \<and>
        cat_view (wd_cat w') = (\<lambda>j. if k_project j = pk_project pk then listed (pk_project pk) es j else cat_view (wd_cat w) j))"

lemma imported_same_blobs:
  assumes "imported env pk w w'" and "same_blobs (pe_store env) (wd_fs w') f"
  shows "imported env pk w (w'\<lparr>wd_fs := f\<rparr>)"
proof -
  have s: "stored env f d body = stored env (wd_fs w') d body" for d body by (rule same_blobs_stored [OF assms(2)])
  show ?thesis using assms(1) by (simp add: imported_def manifest_of_def entry_stored_def s)
qed

lemma imported_from: "same_projects (wd_cat v) (wd_cat w) \<Longrightarrow> imported env pk w w' = imported env pk v w'"
  by (simp add: imported_def same_projects_def cong: if_cong)

lemma manifest_of_rows:
  assumes "manifest_of env f m es" and "stored env f (mt_manifest m) body" and "new_iterator (pe_codec env) body = Inr it"
  shows "rows it = (es, None)"
  using assms by (auto simp: manifest_of_def stored_def)

lemma first_member_Inr: "first_member env expected ms = Inr pk \<Longrightarrow> pk_snapshots pk \<noteq> [] \<and> valid_pack pk expected = Inr ()"
  by (auto simp: first_member_def bind_res_Inr_iff valid_pack_def split: list.splits option.splits if_splits)

lemma finish_import_outcome:
  assumes a: "certs_apart (pe_store env) certs" and p: "\<And>xs. set (order xs) = set xs" and i: "intact env c st"
    and ne: "pk_snapshots pk \<noteq> []" and f: "finish_import env k None pk certs order st = (w', left, r)"
  shows "(\<forall>np\<in>set left. \<not> under (so_blobs (pe_store env)) (snd np)) \<and>
    (case r of Inr pk' \<Rightarrow> pk' = pk \<and> imported env pk (im_world st) w'
     | Inl e \<Rightarrow> (\<exists>n. e = PkInstall n) \<or> same_projects c (wd_cat w'))"
proof (cases "check_totals pk st")
  case (Inl e)
  then show ?thesis using f i by (auto simp: finish_import_def Let_def intact_def)
next
  case (Inr u)
  let ?w = "im_world st"
  have I: "fs_inv (pe_store env) (wd_fs ?w)" "cat_ok (wd_cat ?w)" "same_projects c (wd_cat ?w)"
    "\<forall>np\<in>set (im_staged st). \<not> under (so_blobs (pe_store env)) (snd np)" using i by (simp_all add: intact_def)
  obtain w1 r1 where s: "admit_snapshots env k (pk_snapshots pk) ?w = (w1, r1)" by fastforce
  note S = admit_snapshots_Inr [OF s I(2,1)]
  show ?thesis
  proof (cases r1)
    case (Inl e)
    then have "w' = w1 \<and> left = im_staged st \<and> r = Inl e" using f Inr s by (simp add: finish_import_def)
    moreover have "same_projects c (wd_cat w1)" using S I(3) by (blast intro: same_projects_trans)
    ultimately show ?thesis using I(4) by simp
  next
    case (Inr v)
    obtain w2 r2 where d: "apply_directly env (k + length (pk_snapshots pk)) pk (last (pk_snapshots pk)) w1 = (w2, r2)" by fastforce
    note D = apply_directly_ok [OF d]
    show ?thesis
    proof (cases r2)
      case (Inl e)
      then have "same_projects (wd_cat w1) (wd_cat w2)" using D S by simp
      then have "same_projects c (wd_cat w2)" using S I(3) by (blast intro: same_projects_trans)
      moreover have "w' = w2 \<and> left = im_staged st \<and> r = Inl e"
        using f \<open>check_totals pk st = Inr u\<close> \<open>r1 = Inr v\<close> s d Inl by (simp add: finish_import_def)
      ultimately show ?thesis using I(4) by simp
    next
      case (Inr x)
      obtain es where es: "manifest_of env (wd_fs ?w) (last (pk_snapshots pk)) es" "\<forall>e\<in>set es. entry_stored env (wd_fs ?w) e"
        using S ne \<open>r1 = Inr v\<close> by auto
      have same: "same_projects (wd_cat ?w) (wd_cat w1)" using S by blast
      obtain body it es' where d': "stored env (wd_fs ?w) (mt_manifest (last (pk_snapshots pk))) body"
        "new_iterator (pe_codec env) body = Inr it" "rows it = (es', None)"
        "get_head (pk_project pk) (wd_cat w1) = pk_base pk" "get_head (pk_project pk) (wd_cat w2) = pk_target pk"
        "cat_view (wd_cat w2) = (\<lambda>j. if k_project j = pk_project pk
          then manifest_view (pk_project pk) (map (manifest_entry (pk_project pk)) es') j else cat_view (wd_cat w1) j)"
        using D S Inr by auto
      have "es' = es" using manifest_of_rows [OF es(1) d'(1,2)] d'(3) by simp
      then have "cat_view (wd_cat w2) = (\<lambda>j. if k_project j = pk_project pk then listed (pk_project pk) es j else cat_view (wd_cat ?w) j)"
        using d'(6) same by (simp add: manifest_view_listed same_projects_def cong: if_cong)
      moreover have "wd_fs w2 = wd_fs ?w" using D S by simp
      ultimately have "imported env pk ?w w2"
        using d'(4,5) same es unfolding imported_def same_projects_def by auto
      moreover have "wd_fs w2 = wd_fs ?w" using D S by simp
      ultimately have im: "imported env pk ?w (w2\<lparr>wd_fs := g\<rparr>)" if "same_blobs (pe_store env) (wd_fs ?w) g" for g
        using imported_same_blobs that by simp
      show ?thesis
      proof (cases certs)
        case None
        then show ?thesis using f \<open>check_totals pk st = Inr u\<close> \<open>r1 = Inr v\<close> s d Inr I(4) \<open>imported env pk ?w w2\<close>
          by (auto simp: finish_import_def Let_def)
      next
        case (Some dir)
        obtain g lf q where q: "install_certs env (k + length (pk_snapshots pk) + 1) dir (order (im_staged st)) (wd_fs w2) = (g, lf, q)"
          by (metis prod_cases3)
        have "apart (pe_store env) dir" using a Some by (simp add: certs_apart_def)
        from install_certs_same [OF this _ q] I(4) p
        have "same_blobs (pe_store env) (wd_fs w2) g" "set lf \<subseteq> set (im_staged st)" "\<forall>e. q = Inl e \<longrightarrow> (\<exists>n. e = PkInstall n)"
          by auto
        then show ?thesis using f \<open>check_totals pk st = Inr u\<close> \<open>r1 = Inr v\<close> s d Inr I(4) Some q im \<open>wd_fs w2 = wd_fs ?w\<close>
          by (cases q) (auto simp: finish_import_def Let_def)
      qed
    qed
  qed
qed

lemma read_pack_outcome:
  assumes wf: "store_wf (pe_store env)" and a: "certs_apart (pe_store env) certs" and p: "\<And>xs. set (order xs) = set xs"
    and i: "fs_inv (pe_store env) (wd_fs w)" and ok: "cat_ok (wd_cat w)"
    and f: "read_pack env None expected certs order ms ends w = (w', r)"
  shows "case r of Inr pk \<Rightarrow> first_member env expected ms = Inr pk \<and> imported env pk w w'
     | Inl e \<Rightarrow> (\<exists>n. e = PkInstall n) \<or> same_projects (wd_cat w) (wd_cat w')"
proof (cases "first_member env expected ms")
  case (Inl e)
  then have "w' = w \<and> r = Inl e" using f by (auto simp: read_pack_def)
  then show ?thesis by simp
next
  case (Inr pk)
  note first = first_member_Inr [OF Inr]
  let ?st = "\<lparr>im_world = w, im_manifests = [], im_blobs = [], im_staged = []\<rparr>"
  have int: "intact env (wd_cat w) ?st" using i ok by (simp add: intact_def)
  show ?thesis
  proof (cases "get_head (pk_project pk) (wd_cat w) \<noteq> pk_base pk \<or> pe_scratch env")
    case True
    then have "w' = w \<and> \<not> is_ok r" using f Inr by (auto simp: read_pack_def split: if_splits)
    then show ?thesis by (cases r) auto
  next
    case False
    obtain st1 r1 where m: "read_members env pk certs ends 1 (tl ms) ?st = (st1, r1)" by fastforce
    have int1: "intact env (wd_cat w) st1" by (rule read_members_intact [OF wf a int m])
    show ?thesis
    proof (cases r1)
      case (Inl e)
      then show ?thesis using f Inr False m int1 by (auto simp: read_pack_def intact_def)
    next
      case (Inr v)
      obtain w1 left r2 where fi: "finish_import env (Suc (length ms)) None pk certs order st1 = (w1, left, r2)"
        by (metis prod_cases3)
      note F = finish_import_outcome [OF a p int1 _ fi]
      have w': "w' = w1\<lparr>wd_fs := remove_staged (pe_fs env (length ms)) left (wd_fs w1)\<rparr>" "r = r2"
        using f \<open>first_member env expected ms = Inr pk\<close> False m Inr fi by (auto simp: read_pack_def Let_def)
      have sb: "same_blobs (pe_store env) (wd_fs w1) (remove_staged (pe_fs env (length ms)) left (wd_fs w1))"
        by (rule remove_staged_same) (use F first in blast)
      show ?thesis
      proof (cases r2)
        case (Inl e)
        then show ?thesis using F first w' by auto
      next
        case r2: (Inr pk')
        have "same_projects (wd_cat w) (wd_cat (im_world st1))" using int1 by (simp add: intact_def)
        then have "imported env pk w w1"
          using F first r2 imported_from by auto
        with imported_same_blobs [OF this sb] F first r2 w' \<open>first_member env expected ms = Inr pk\<close> show ?thesis by auto
      qed
    qed
  qed
qed

text \<open>
  C99. Verified import: when ReadPack reports success, HEAD stood at the pack's base and stands at
  its target; the target's manifest is a blob of the store that decodes, names the project and has
  the announced totals; the project serves exactly that manifest's entries and every other project
  what it served before; and each of those entries has a blob in the store with the bytes its digest
  names, of the manifest's size. This holds whatever the tar stream held and however the file
  system, the database and the context behaved on the way.
\<close>

theorem import_verified:
  assumes "store_wf (pe_store env)" and "certs_apart (pe_store env) certs" and "\<And>xs. set (order xs) = set xs"
    and "fs_inv (pe_store env) (wd_fs w)" and "cat_reaches (wd_cat w)"
    and "read_pack env None expected certs order ms ends w = (w', Inr pk)"
  shows "get_head (pk_project pk) (wd_cat w) = pk_base pk \<and> get_head (pk_project pk) (wd_cat w') = pk_target pk \<and>
     (\<exists>es. manifest_of env (wd_fs w') (last (pk_snapshots pk)) es \<and> (\<forall>e\<in>set es. entry_stored env (wd_fs w') e) \<and>
        (\<forall>j. cat_view (wd_cat w') j = (if k_project j = pk_project pk then listed (pk_project pk) es j else cat_view (wd_cat w) j)))"
proof -
  have "imported env pk w w'"
    using read_pack_outcome [OF assms(1,2) _ assms(4) reaches_ok [OF assms(5)] assms(6)] assms(3) by simp
  then show ?thesis unfolding imported_def by auto
qed

text \<open>
  C99. A refused import changes no project: when ReadPack returns an error, whichever check, system
  call or transaction it came from, every project serves the entries and stands at the checkpoint
  it did before. The one exception is an error while the certificates are put in place, which comes
  after the checkpoint has been applied.
\<close>

theorem import_refused:
  assumes "store_wf (pe_store env)" and "certs_apart (pe_store env) certs" and "\<And>xs. set (order xs) = set xs"
    and "fs_inv (pe_store env) (wd_fs w)" and "cat_reaches (wd_cat w)"
    and "read_pack env None expected certs order ms ends w = (w', Inl e)" and "\<And>n. e \<noteq> PkInstall n"
  shows "cat_view (wd_cat w') = cat_view (wd_cat w) \<and> (\<forall>p. get_head p (wd_cat w') = get_head p (wd_cat w))"
  using read_pack_outcome [OF assms(1,2) _ assms(4) reaches_ok [OF assms(5)] assms(6)] assms(3,7)
  by (simp add: same_projects_def)

section \<open>An example: the first, empty checkpoint of a project\<close>

definition ex_manifest :: string where
  "ex_manifest = header_line plain_codec sample_header"

definition ex_meta :: meta where
  "ex_meta = \<lparr>mt_id = digest_bytes ex_manifest, mt_project = ''team a'', mt_parent = [],
     mt_manifest = digest_bytes ex_manifest, mt_count = 0, mt_bytes = 0, mt_created = 7, mt_subject = ''first'', mt_author = []\<rparr>"

definition ex_pack :: pack where
  "ex_pack = \<lparr>pk_version = 1, pk_project = ''team a'', pk_base = [], pk_target = digest_bytes ex_manifest,
     pk_snapshots = [ex_meta], pk_blobs = 0, pk_bytes = 0\<rparr>"

definition ex_env :: pack_env where
  "ex_env = \<lparr>pe_codec = plain_codec, pe_store = ex_store, pe_encode = (\<lambda>_. Some []), pe_decode = (\<lambda>_. Some ex_pack),
     pe_fs = (\<lambda>_. no_faults), pe_db = (\<lambda>_. NoFault), pe_now = (\<lambda>_. 9), pe_rnd = (\<lambda>_. ''1''), pe_accept = (\<lambda>_. length ex_manifest),
     pe_cancelled = (\<lambda>_. False), pe_scratch = False, pe_tar = (\<lambda>_. False)\<rparr>"

definition ex_world :: world where
  "ex_world = \<lparr>wd_fs = ex_fs, wd_cat = ex_catalog\<rparr>"

definition ex_members :: "member list" where
  "ex_members = [whole_member ''pack.json'' ''{}'', whole_member (manifest_member_name (digest_bytes ex_manifest)) ex_manifest]"

lemma ex_env_simps [simp]:
  "pe_codec ex_env = plain_codec" "pe_store ex_env = ex_store" "pe_decode ex_env b = Some ex_pack"
  "pe_fs ex_env k = no_faults" "pe_db ex_env k = NoFault" "pe_now ex_env k = 9" "pe_rnd ex_env k = ''1''"
  "pe_accept ex_env k = length ex_manifest" "pe_cancelled ex_env k = False" "pe_scratch ex_env = False"
  by (simp_all add: ex_env_def)

lemma ex_store_wf: "store_wf ex_store"
  by (simp add: store_wf_def ex_store_def)

lemma ex_fs_inv: "fs_inv ex_store ex_fs"
  by (simp add: fs_inv_def lookup_name_def ex_dirs)

lemma trim_suffix_append: "trim_suffix (s @ p) p = s"
  by (simp add: trim_suffix_def has_suffix_def)

lemma snapshot_member_name:
  assumes "i \<noteq> []" and "CHR ''/'' \<notin> set i"
  shows "snapshot_member_id (manifest_member_name i) = Some i" and "has_prefix (manifest_member_name i) ''snapshots/''"
proof -
  have "has_suffix (''snapshots/'' @ i @ ''.manifest.gz'') ''.manifest.gz''"
    unfolding has_suffix_def rev_append by (simp only: append_assoc has_prefix_append)
  moreover have "trim_prefix (''snapshots/'' @ i @ ''.manifest.gz'') ''snapshots/'' = i @ ''.manifest.gz''"
    by (simp add: trim_prefix_def)
  ultimately show "snapshot_member_id (manifest_member_name i) = Some i"
    using assms unfolding snapshot_member_id_def manifest_member_name_def by (simp only: has_prefix_append trim_suffix_append) simp
  show "has_prefix (manifest_member_name i) ''snapshots/''"
    unfolding manifest_member_name_def by (rule has_prefix_append)
qed

lemma ex_manifest_nonempty: "ex_manifest \<noteq> []"
  by (simp add: ex_manifest_def header_line_def manifest_magic_def)

lemma ex_import:
  "\<exists>f. import_blob ex_env 1 ex_fs (whole_member n ex_manifest) (digest_bytes ex_manifest) =
       (f, Inr (digest_bytes ex_manifest, int (length ex_manifest))) \<and> stored ex_env f (digest_bytes ex_manifest) ex_manifest"
proof -
  let ?d = "digest_bytes ex_manifest"
  have p: "store_path ex_store ?d = Inr ([''data'', ''blobs'', ''sha256'', take 2 ?d, take 2 (drop 2 ?d), ?d])"
    by (simp add: store_path_valid ex_store_def)
  show ?thesis
    using ex_manifest_nonempty
    by (simp add: import_blob_def whole_member_def writer_create_def writer_write_def writer_abort_def writer_commit_def
        writer_commit_with_def commit_run_def Let_def writer_digest_def p mkdir_all_def lookup_name_def fsync_inode_def
        set_inode_def path_dir_def publish_name_def os_link_def os_chmod_def ex_dirs drop_staging_def os_remove_def
        new_file_def stored_def blob_open_def ex_store_def [THEN arg_cong [where f = so_staging], simplified])
qed

lemma ex_iterator: "new_iterator plain_codec ex_manifest = Inr (fresh_iterator sample_header [] [])"
proof -
  obtain l where l: "ex_manifest = l @ [CHR 0x0A]" "CHR 0x0A \<notin> set l" "parse_header plain_codec l = Inr sample_header"
    using parse_header_line [OF plain_codec_ok(2)] by (auto simp: ex_manifest_def sample_header_def)
  then have "read_string ex_manifest = Some (l, [])" using read_string_line [of l "[]"] by simp
  with l(3) show ?thesis
    by (simp add: new_iterator_def plain_codec_def [THEN arg_cong [where f = cx_gunzip], simplified] read_line_def
        fresh_iterator_def)
qed

lemma ex_rows: "rows (fresh_iterator sample_header [] []) = ([], None)"
  by (simp add: rows.simps next_entry_def fresh_iterator_def read_line_def)

lemma ex_open_manifest:
  "stored ex_env f (digest_bytes ex_manifest) ex_manifest \<Longrightarrow>
     open_manifest ex_env k f (digest_bytes ex_manifest) = Inr (fresh_iterator sample_header [] [])"
  by (auto simp: stored_def open_manifest_def ex_iterator)

lemma ex_verify:
  "stored ex_env f (digest_bytes ex_manifest) ex_manifest \<Longrightarrow> verify_manifest ex_env k f ex_meta b = Inr ()"
  by (simp add: verify_manifest_def ex_meta_def ex_open_manifest walk_manifest_rows ex_rows)
    (simp add: fresh_iterator_def sample_header_def wrap64_def)

lemma ex_ids: "digest_bytes ex_manifest \<noteq> []" "CHR ''/'' \<notin> set (digest_bytes ex_manifest)"
  using digest_valid_nonempty valid_no_special by simp_all

lemma ex_first: "first_member ex_env ''team a'' (whole_member ''pack.json'' ''{}'' # ms) = Inr ex_pack"
  using ex_ids by (simp add: first_member_def whole_member_def valid_pack_def ex_pack_def pack_version_def ex_meta_def)

lemma ex_run:
  "\<exists>w'. read_pack ex_env None ''team a'' None (\<lambda>xs. xs) ex_members True ex_world = (w', Inr ex_pack)"
proof -
  let ?d = "digest_bytes ex_manifest"
  obtain f where f: "import_blob ex_env 1 ex_fs (whole_member (manifest_member_name ?d) ex_manifest) ?d = (f, Inr (?d, int (length ex_manifest)))"
    "stored ex_env f ?d ex_manifest" using ex_import by blast
  let ?c = "ex_catalog\<lparr>ct_db := empty_db\<lparr>db_blobs := [(?d, \<lparr>br_size = int (length ex_manifest), br_created = 0, br_access = 0\<rparr>)]\<rparr>\<rparr>"
  have u: "upsert_blob NoFault 9 ?d \<lparr>br_size = int (length ex_manifest), br_created = 7, br_access = 7\<rparr> ex_catalog = (?c, Inr ())"
    by (simp add: upsert_blob_def in_tx_def put_blob_def empty_db_def upsert_def or_now_def col_time_def ts_def from_ts_def)
  let ?st = "\<lparr>im_world = \<lparr>wd_fs = f, wd_cat = ?c\<rparr>, im_manifests = [?d], im_blobs = [], im_staged = []\<rparr>"
  have m: "tm_name (whole_member (manifest_member_name ?d) ex_manifest) = manifest_member_name ?d"
    by (simp add: whole_member_def)
  have mt: "meta_by_id ex_pack ?d = Some ex_meta" by (simp add: meta_by_id_def ex_pack_def ex_meta_def)
  have rm: "read_members ex_env ex_pack None True 1 [whole_member (manifest_member_name ?d) ex_manifest]
      \<lparr>im_world = ex_world, im_manifests = [], im_blobs = [], im_staged = []\<rparr> = (?st, Inr ())"
    using f(1) u by (simp add: read_member_def read_manifest_member_def m snapshot_member_name ex_ids mt ex_world_def
        ex_meta_def keep_fs_def keep_cat_def)
  let ?c2 = "?c\<lparr>ct_db := (ct_db ?c)\<lparr>db_snapshots := [(?d, (meta_catalog ex_meta)\<lparr>sn_created := 0\<rparr>)]\<rparr>\<rparr>"
  have ad: "admit_snapshots ex_env k [ex_meta] \<lparr>wd_fs = f, wd_cat = ?c\<rparr> = (\<lparr>wd_fs = f, wd_cat = ?c2\<rparr>, Inr ())" for k
    using ex_verify [OF f(2)]
    by (simp add: get_snapshot_def put_snapshot_def ex_in_tx insert_snapshot_def empty_db_def)
      (simp add: ex_meta_def meta_catalog_def or_now_def col_time_def ts_def from_ts_def empty_db_def)
  have ap: "\<exists>w'. apply_directly ex_env k ex_pack ex_meta \<lparr>wd_fs = f, wd_cat = ?c2\<rparr> = (w', Inr ())" for k
    using ex_open_manifest [OF f(2)]
    by (simp add: apply_directly_def ex_meta_def ex_rows source_error_def apply_snapshot_def after_flush_def ex_flush
        ex_in_tx snapshot_tx_def empty_db_def clear_project_def delete_where_def ex_pack_def ex_ids set_head_row_def upsert_def)
  have ct: "check_totals ex_pack ?st = Inr ()" by (simp add: check_totals_def sql_sum_def is_int64_def ex_pack_def)
  obtain w' where "apply_directly ex_env (Suc (length ex_members) + length (pk_snapshots ex_pack)) ex_pack ex_meta
      \<lparr>wd_fs = f, wd_cat = ?c2\<rparr> = (w', Inr ())" using ap by blast
  moreover have ps: "pk_snapshots ex_pack = [ex_meta]" "pk_project ex_pack = ''team a''" "pk_base ex_pack = []" by (simp_all add: ex_pack_def)
  ultimately have fi: "finish_import ex_env (Suc (length ex_members)) None ex_pack None (\<lambda>xs. xs) ?st = (w', [], Inr ex_pack)"
    using ct ad by (simp add: finish_import_def)
  have h: "get_head ''team a'' (wd_cat ex_world) = []" by (simp add: get_head_def ex_world_def empty_db_def)
  show ?thesis
    using rm fi h ps unfolding ex_members_def by (simp add: read_pack_def ex_first)
qed

lemma ex_hyps: "certs_apart (pe_store ex_env) None" "store_wf (pe_store ex_env)" "fs_inv (pe_store ex_env) (wd_fs ex_world)"
  "cat_reaches (wd_cat ex_world)"
  by (simp_all add: certs_apart_def ex_store_wf ex_fs_inv ex_world_def ex_reaches)

lemma import_verified_witness:
  "\<exists>w'. read_pack ex_env None ''team a'' None (\<lambda>xs. xs) ex_members True ex_world = (w', Inr ex_pack) \<and>
     get_head ''team a'' (wd_cat w') = digest_bytes ex_manifest"
proof -
  obtain w' where r: "read_pack ex_env None ''team a'' None (\<lambda>xs. xs) ex_members True ex_world = (w', Inr ex_pack)"
    using ex_run by blast
  have "get_head (pk_project ex_pack) (wd_cat w') = pk_target ex_pack"
    using import_verified [OF ex_hyps(2,1) refl ex_hyps(3,4) r] by blast
  with r show ?thesis by (simp add: ex_pack_def)
qed

definition ex_torn :: "member list" where
  "ex_torn = [whole_member ''pack.json'' ''{}'',
     (whole_member (manifest_member_name (digest_bytes ex_manifest)) ex_manifest)\<lparr>tm_torn := True\<rparr>]"

lemma ex_refused: "\<exists>w'. read_pack ex_env None ''team a'' None (\<lambda>xs. xs) ex_torn True ex_world = (w', Inl PkCopy)"
proof -
  let ?d = "digest_bytes ex_manifest"
  let ?m = "(whole_member (manifest_member_name ?d) ex_manifest)\<lparr>tm_torn := True\<rparr>"
  have "snd (import_blob ex_env 1 ex_fs ?m ?d) = Inl PkCopy"
    using ex_manifest_nonempty
    by (simp add: import_blob_def whole_member_def writer_create_def writer_write_def Let_def lookup_name_def ex_dirs
        ex_store_def [THEN arg_cong [where f = so_staging], simplified])
  then obtain f where f: "import_blob ex_env 1 ex_fs ?m ?d = (f, Inl PkCopy)" by (cases "import_blob ex_env 1 ex_fs ?m ?d") simp
  have m: "tm_name ?m = manifest_member_name ?d" by (simp add: whole_member_def)
  have mt: "meta_by_id ex_pack ?d = Some ex_meta" by (simp add: meta_by_id_def ex_pack_def ex_meta_def)
  have ps: "pk_project ex_pack = ''team a''" "pk_base ex_pack = []" by (simp_all add: ex_pack_def)
  have h: "get_head ''team a'' (wd_cat ex_world) = []" by (simp add: get_head_def ex_world_def empty_db_def)
  have mm: "mt_manifest ex_meta = ?d" by (simp add: ex_meta_def)
  have "\<exists>st. read_members ex_env ex_pack None True 1 [?m] \<lparr>im_world = ex_world, im_manifests = [], im_blobs = [], im_staged = []\<rparr>
      = (st, Inl PkCopy)"
    using f by (simp add: read_member_def read_manifest_member_def m snapshot_member_name ex_ids mt mm ex_world_def)
  then show ?thesis using h ps unfolding ex_torn_def by (auto simp: read_pack_def ex_first)
qed

lemma import_refused_witness:
  "\<exists>w'. read_pack ex_env None ''team a'' None (\<lambda>xs. xs) ex_torn True ex_world = (w', Inl PkCopy) \<and>
     cat_view (wd_cat w') = cat_view (wd_cat ex_world)"
proof -
  obtain w' where r: "read_pack ex_env None ''team a'' None (\<lambda>xs. xs) ex_torn True ex_world = (w', Inl PkCopy)"
    using ex_refused by blast
  have "cat_view (wd_cat w') = cat_view (wd_cat ex_world)"
    using import_refused [OF ex_hyps(2,1) refl ex_hyps(3,4) r] by blast
  with r show ?thesis by blast
qed

end
