(* ===== verification/Restore.thy ===== *)
theory Restore
  imports Pack
begin

text \<open>
  Package ops (go/internal/ops): checkpoints and their restoration, service.go (checkpoint,
  rollbackJob) and managed.go. A checkpoint streams the entries of every registered ecosystem into
  a manifest that becomes a blob; ecosystems that keep directory trees of their own (managed ones)
  contribute an archive per tree. Restoring stages the trees beside the live ones, swaps them in,
  applies the manifest to the catalog and swaps them back when that fails.
\<close>

section \<open>Managed directories\<close>

text \<open>
  A managed directory is the list of its trees by relative path (the *.git directories with a
  HEAD, which is all the code looks at); the content of a tree is a type parameter.
  \<open>'t dirs\<close> is what the file system holds under each directory path.
\<close>

type_synonym 't dirs = "path \<Rightarrow> (path \<times> 't) list option"

text \<open>filepath.Clean of a relative path: leading dot-dots stay.\<close>

definition clean_rel_step :: "path \<Rightarrow> string \<Rightarrow> path" where
  "clean_rel_step p s =
     (if s = [] \<or> s = ''.'' then p
      else if s = ''..'' \<and> p \<noteq> [] \<and> last p \<noteq> ''..'' then butlast p else p @ [s])"

definition clean_rel :: "string \<Rightarrow> path" where
  "clean_rel s = foldl clean_rel_step [] (split_on (CHR ''/'') s)"

definition is_abs :: "string \<Rightarrow> bool" where
  "is_abs s = has_prefix s ''/''"

definition safe_managed_relative :: "string \<Rightarrow> bool" where
  "safe_managed_relative s \<longleftrightarrow>
     (let p = clean_rel s in \<not> is_abs s \<and> p \<noteq> [] \<and> hd p \<noteq> ''..'' \<and> has_suffix (last p) ''.git'')"

text \<open>
  The environment: that of the pack, the registered ecosystems with whether each is managed, the
  inventory index, the archive format of a tree (archive/tar over a directory walk, \<open>None\<close> when
  the tree holds a link or a special file), which directory system calls fail and the random
  parts of temporary names.
\<close>

record 't ops_env =
  oe_pack :: pack_env
  oe_ecos :: "(string \<times> bool) list"
  oe_index :: "entry \<Rightarrow> artifact option"
  oe_sink :: sink
  oe_tar :: "'t \<Rightarrow> string option"
  oe_untar :: "string \<Rightarrow> 't option"
  oe_fail :: "nat \<Rightarrow> bool"
  oe_rnd :: "nat \<Rightarrow> string"

datatype ops_error =
    OpsPack pack_error
  | OpsMessageRequired
  | OpsProject string
  | OpsKeyConflict string string
  | OpsWalk string
  | OpsArchive string string
  | OpsSnapshotRequired
  | OpsForeignSnapshot string string
  | OpsManagedDir
  | OpsStage string
  | OpsMissing digest
  | OpsSize digest
  | OpsUnsafe string
  | OpsDuplicateTree string string
  | OpsExtract string
  | OpsTotals
  | OpsForeign
  | OpsCancelled
  | OpsSwap string
  | OpsInstall string
  | OpsJoined ops_error
  | OpsRemoveOld string

section \<open>checkpoint\<close>

text \<open>
  A body written through a writer of the store; \<open>archiveManagedTree\<close> and the manifest itself use it.
\<close>

definition store_body :: "pack_env \<Rightarrow> nat \<Rightarrow> fs \<Rightarrow> string \<Rightarrow> fs \<times> (pack_error + digest \<times> int64)" where
  "store_body env k f body =
     (let flt = pe_fs env k; st = pe_store env; now = pe_now env k
      in case writer_create flt st f (pe_rnd env k) now of
           (f1, Inl e) \<Rightarrow> (f1, Inl (PkBlob e))
         | (f1, Inr w) \<Rightarrow>
             (case writer_write (pe_accept env k) now f1 w body of
                (f2, w2, Inl e, n) \<Rightarrow> (fst (writer_abort flt f2 w2), Inl PkCopy)
              | (f2, w2, Inr _, n) \<Rightarrow>
                  (case writer_commit flt now st f2 w2 of
                     (f3, w3, r) \<Rightarrow> (fst (writer_abort flt f3 w3), map_sum PkBlob id r))))"

text \<open>What a checkpoint in progress holds: the world and the manifest written so far.\<close>

type_synonym manifest_state = "string \<times> string \<times> nat \<times> int64"

definition yield_entry :: "'t ops_env \<Rightarrow> mentry \<Rightarrow> manifest_state \<Rightarrow> ops_error + manifest_state" where
  "yield_entry env e st = map_sum (\<lambda>x. OpsPack (PkManifest x)) id (write_entry (oe_sink env) e st)"

text \<open>The callback of WalkEntriesEco for one catalog entry.\<close>

definition snapshot_entry :: "entry \<Rightarrow> mentry" where
  "snapshot_entry e =
     \<lparr>me_eco = k_eco (en_key e), me_key = k_key (en_key e), me_digest = en_digest e, me_size = en_size e\<rparr>"

definition yield_row :: "'t ops_env \<Rightarrow> nat \<Rightarrow> string \<Rightarrow> bool \<Rightarrow> entry \<Rightarrow> manifest_state \<Rightarrow> ops_error + manifest_state" where
  "yield_row env k eco managed e st =
     (if pe_cancelled (oe_pack env) k then Inl OpsCancelled
      else if managed \<and> managed_key_prefix \<le> k_key (en_key e) then Inl (OpsKeyConflict eco (k_key (en_key e)))
      else yield_entry env (snapshot_entry e) st)"

definition slash_path :: "path \<Rightarrow> string" where
  "slash_path p = join_with ''/'' p"

text \<open>checkpointManaged, one tree: archive it, record the blob, yield its entry.\<close>

definition checkpoint_tree ::
  "'t ops_env \<Rightarrow> nat \<Rightarrow> gotime \<Rightarrow> string \<Rightarrow> string \<times> 't \<Rightarrow> world \<Rightarrow> manifest_state \<Rightarrow>
   world \<times> (ops_error + manifest_state)" where
  "checkpoint_tree env k created eco rt w st =
     (case oe_tar env (snd rt) of
        None \<Rightarrow> (w, Inl (OpsArchive eco (fst rt)))
      | Some body \<Rightarrow>
          (case store_body (oe_pack env) k (wd_fs w) body of
             (f, Inl e) \<Rightarrow> (w\<lparr>wd_fs := f\<rparr>, Inl (OpsArchive eco (fst rt)))
           | (f, Inr (d, sz)) \<Rightarrow>
               (case upsert_blob (pe_db (oe_pack env) k) (pe_now (oe_pack env) k) d
                       \<lparr>br_size = sz, br_created = created, br_access = created\<rparr> (wd_cat w) of
                  (c, Inl e) \<Rightarrow> (\<lparr>wd_fs = f, wd_cat = c\<rparr>, Inl (OpsPack (PkCat e)))
                | (c, Inr _) \<Rightarrow>
                    (\<lparr>wd_fs = f, wd_cat = c\<rparr>,
                     yield_entry env \<lparr>me_eco = eco, me_key = managed_key_prefix @ fst rt, me_digest = d, me_size = sz\<rparr> st))))"

fun checkpoint_trees ::
  "'t ops_env \<Rightarrow> nat \<Rightarrow> gotime \<Rightarrow> string \<Rightarrow> (string \<times> 't) list \<Rightarrow> world \<Rightarrow> manifest_state \<Rightarrow>
   world \<times> (ops_error + manifest_state)" where
  "checkpoint_trees env k created eco [] w st = (w, Inr st)"
| "checkpoint_trees env k created eco (rt # rts) w st =
     (case checkpoint_tree env k created eco rt w st of
        (w1, Inl e) \<Rightarrow> (w1, Inl e)
      | (w1, Inr st1) \<Rightarrow> checkpoint_trees env (Suc k) created eco rts w1 st1)"

definition checkpoint_managed ::
  "'t ops_env \<Rightarrow> nat \<Rightarrow> gotime \<Rightarrow> string \<Rightarrow> string \<Rightarrow> 't dirs \<Rightarrow> world \<Rightarrow> manifest_state \<Rightarrow>
   world \<times> (ops_error + manifest_state)" where
  "checkpoint_managed env k created p eco dirs w st =
     (case managed_dir (pe_fs (oe_pack env) k) (pe_store (oe_pack env)) (wd_fs w) eco p of
        (f, Inl e) \<Rightarrow> (w\<lparr>wd_fs := f\<rparr>, Inl (OpsPack (PkBlob e)))
      | (f, Inr root) \<Rightarrow>
          if oe_fail env k then (w\<lparr>wd_fs := f\<rparr>, Inl (OpsWalk eco))
          else
            let trees = map (\<lambda>(r, t). (slash_path r, t)) (case dirs root of None \<Rightarrow> [] | Some rs \<Rightarrow> rs)
            in checkpoint_trees env (Suc k) created eco (sort_key fst trees) (w\<lparr>wd_fs := f\<rparr>) st)"

text \<open>One ecosystem: its catalog entries in key order, then its managed trees.\<close>

definition checkpoint_eco ::
  "'t ops_env \<Rightarrow> nat \<Rightarrow> gotime \<Rightarrow> string \<Rightarrow> string \<times> bool \<Rightarrow> 't dirs \<Rightarrow> world \<Rightarrow> manifest_state \<Rightarrow>
   world \<times> (ops_error + manifest_state)" where
  "checkpoint_eco env k created p eco dirs w st =
     (case walk_rows (pe_db (oe_pack env) k) (eco_rows p (fst eco)) (\<lambda>e es. Inr (es @ [e])) [] (wd_cat w) of
        (c, Inl e) \<Rightarrow> (w\<lparr>wd_cat := c\<rparr>, Inl (OpsPack (PkCat e)))
      | (c, Inr es) \<Rightarrow>
          (case fold_res (yield_row env k (fst eco) (snd eco)) es st of
             Inl e \<Rightarrow> (w\<lparr>wd_cat := c\<rparr>, Inl e)
           | Inr st1 \<Rightarrow>
               if snd eco then checkpoint_managed env k created p (fst eco) dirs (w\<lparr>wd_cat := c\<rparr>) st1
               else (w\<lparr>wd_cat := c\<rparr>, Inr st1)))"

definition tree_count :: "'t ops_env \<Rightarrow> string \<Rightarrow> string \<Rightarrow> 't dirs \<Rightarrow> nat" where
  "tree_count env p eco dirs =
     (case dirs (so_managed (pe_store (oe_pack env)) @ [eco, p]) of None \<Rightarrow> 0 | Some rs \<Rightarrow> length rs)"

fun checkpoint_ecos ::
  "'t ops_env \<Rightarrow> nat \<Rightarrow> gotime \<Rightarrow> string \<Rightarrow> (string \<times> bool) list \<Rightarrow> 't dirs \<Rightarrow> world \<Rightarrow> manifest_state \<Rightarrow>
   world \<times> (ops_error + manifest_state)" where
  "checkpoint_ecos env k created p [] dirs w st = (w, Inr st)"
| "checkpoint_ecos env k created p (eco # ecos) dirs w st =
     (case checkpoint_eco env k created p eco dirs w st of
        (w1, Inl e) \<Rightarrow> (w1, Inl e)
      | (w1, Inr st1) \<Rightarrow> checkpoint_ecos env (k + 2 + tree_count env p (fst eco) dirs) created p ecos dirs w1 st1)"

text \<open>
  The whole checkpoint. The manifest's writer is opened first and committed last; every failure in
  between aborts it. \<open>subject\<close> and \<open>author\<close> go to the catalog row.
\<close>

definition sorted_ecos :: "'t ops_env \<Rightarrow> (string \<times> bool) list" where
  "sorted_ecos env = sort_key fst (oe_ecos env)"

definition write_checkpoint ::
  "'t ops_env \<Rightarrow> string \<Rightarrow> 't dirs \<Rightarrow> world \<Rightarrow> world \<times> (ops_error + string \<times> nat \<times> int64)" where
  "write_checkpoint env p dirs w =
     (let created = pe_now (oe_pack env) 0; cx = pe_codec (oe_pack env); sk = oe_sink env
      in if p = [] \<or> created = 0 then (w, Inl (OpsPack (PkManifest MfHeaderRequired)))
         else if sk_header sk then (w, Inl (OpsPack (PkManifest MfWriteHeader)))
         else case checkpoint_ecos env 1 created p (sorted_ecos env) dirs w
                     ([], header_line cx \<lparr>mh_project = p, mh_created = created\<rparr>, 0, 0) of
                (w1, Inl e) \<Rightarrow> (w1, Inl e)
              | (w1, Inr (_, out, n, bytes)) \<Rightarrow>
                  if sk_flush sk then (w1, Inl (OpsPack (PkManifest MfFlush)))
                  else if sk_close sk then (w1, Inl (OpsPack (PkManifest MfClose)))
                  else (w1, Inr (cx_gzip cx out, n, bytes)))"

definition commit_checkpoint ::
  "'t ops_env \<Rightarrow> string \<Rightarrow> string \<Rightarrow> string \<Rightarrow> string \<Rightarrow> digest \<times> int64 \<Rightarrow> nat \<times> int64 \<Rightarrow> catalog \<Rightarrow>
   catalog \<times> (ops_error + string)" where
  "commit_checkpoint env p parent subject author d totals c =
     (let created = pe_now (oe_pack env) 0
      in case upsert_blob (pe_db (oe_pack env) 0) (pe_now (oe_pack env) 0) (fst d)
                \<lparr>br_size = snd d, br_created = created, br_access = created\<rparr> c of
           (c1, Inl e) \<Rightarrow> (c1, Inl (OpsPack (PkCat e)))
         | (c1, Inr _) \<Rightarrow>
             (case commit_snapshot (pe_db (oe_pack env) 1) (pe_now (oe_pack env) 0)
                     \<lparr>sn_id = fst d, sn_project = p, sn_parent = parent, sn_manifest = fst d, sn_count = int (fst totals),
                      sn_bytes = snd totals, sn_created = created, sn_subject = subject, sn_author = author\<rparr> c1 of
                (c2, Inl e) \<Rightarrow> (c2, Inl (OpsPack (PkCat e)))
              | (c2, Inr _) \<Rightarrow> (c2, Inr (fst d))))"

definition checkpoint ::
  "'t ops_env \<Rightarrow> string \<Rightarrow> string \<Rightarrow> string \<Rightarrow> 't dirs \<Rightarrow> world \<Rightarrow> world \<times> (ops_error + string)" where
  "checkpoint env p subject author dirs w =
     (let pe = oe_pack env; flt = pe_fs pe 0; st = pe_store pe; parent = get_head p (wd_cat w)
      in case writer_create flt st (wd_fs w) (oe_rnd env 0) (pe_now pe 0) of
           (f1, Inl e) \<Rightarrow> (w\<lparr>wd_fs := f1\<rparr>, Inl (OpsPack (PkBlob e)))
         | (f1, Inr wr) \<Rightarrow>
             (case write_checkpoint env p dirs (w\<lparr>wd_fs := f1\<rparr>) of
                (w1, Inl e) \<Rightarrow> (w1\<lparr>wd_fs := fst (writer_abort flt (wd_fs w1) wr)\<rparr>, Inl e)
              | (w1, Inr (file, n, bytes)) \<Rightarrow>
                  (case writer_write (pe_accept pe 0) (pe_now pe 0) (wd_fs w1) wr file of
                     (f2, wr2, Inl e, _) \<Rightarrow>
                       (w1\<lparr>wd_fs := fst (writer_abort flt f2 wr2)\<rparr>, Inl (OpsPack (PkManifest MfClose)))
                   | (f2, wr2, Inr _, _) \<Rightarrow>
                       (case writer_commit flt (pe_now pe 0) st f2 wr2 of
                          (f3, wr3, Inl e) \<Rightarrow> (w1\<lparr>wd_fs := f3\<rparr>, Inl (OpsPack (PkBlob e)))
                        | (f3, wr3, Inr d) \<Rightarrow>
                            (case commit_checkpoint env p parent subject author d (n, bytes) (wd_cat w1) of
                               (c, r) \<Rightarrow> (\<lparr>wd_fs = f3, wd_cat = c\<rparr>, r))))))"

text \<open>\<open>checkpointJob\<close>: the parameters of the job and the project's registration.\<close>

definition checkpoint_job ::
  "'t ops_env \<Rightarrow> (string \<Rightarrow> bool) \<Rightarrow> string \<Rightarrow> string \<Rightarrow> string \<Rightarrow> 't dirs \<Rightarrow> world \<Rightarrow> world \<times> (ops_error + string)" where
  "checkpoint_job env known p message actor dirs w =
     (if trim_space message = [] then (w, Inl OpsMessageRequired)
      else if \<not> known p then (w, Inl (OpsProject p))
      else checkpoint env p (trim_space message) actor dirs w)"

section \<open>Staging the managed trees\<close>

record stage =
  sg_eco :: string
  sg_root :: path
  sg_staging :: path
  sg_backup :: "path option"
  sg_swapped :: bool

text \<open>
  The state of a restoration: the world, the managed directories and the number of the
  next directory system call. \<open>os.MkdirTemp\<close> picks an unused name.
\<close>

record 't restore =
  rt_world :: world
  rt_dirs :: "'t dirs"
  rt_step :: nat

definition tick :: "'t restore \<Rightarrow> 't restore" where
  "tick s = s\<lparr>rt_step := Suc (rt_step s)\<rparr>"

definition failing :: "'t ops_env \<Rightarrow> 't restore \<Rightarrow> bool" where
  "failing env s = oe_fail env (rt_step s)"

definition set_dir :: "path \<Rightarrow> (path \<times> 't) list option \<Rightarrow> 't restore \<Rightarrow> 't restore" where
  "set_dir p d s = s\<lparr>rt_dirs := (rt_dirs s)(p := d)\<rparr>"

definition mkdir_temp :: "'t ops_env \<Rightarrow> path \<Rightarrow> string \<Rightarrow> 't restore \<Rightarrow> 't restore \<times> path option" where
  "mkdir_temp env parent name s =
     (let p = parent @ [name @ oe_rnd env (rt_step s)]
      in if failing env s \<or> rt_dirs s p \<noteq> None then (tick s, None) else (tick (set_dir p (Some []) s), Some p))"

definition remove_dir :: "'t ops_env \<Rightarrow> path \<Rightarrow> 't restore \<Rightarrow> 't restore \<times> bool" where
  "remove_dir env p s = (if failing env s then (tick s, False) else (tick (set_dir p None s), True))"

definition rename_dir :: "'t ops_env \<Rightarrow> path \<Rightarrow> path \<Rightarrow> 't restore \<Rightarrow> 't restore \<times> bool" where
  "rename_dir env src dst s =
     (if failing env s \<or> rt_dirs s src = None \<or> rt_dirs s dst \<noteq> None then (tick s, False)
      else (tick (set_dir dst (rt_dirs s src) (set_dir src None s)), True))"

definition drop_stages :: "'t ops_env \<Rightarrow> stage list \<Rightarrow> 't restore \<Rightarrow> 't restore" where
  "drop_stages env stages s = fold (\<lambda>g s. fst (remove_dir env (sg_staging g) s)) stages s"

text \<open>The stages are opened in the order of the registry, one per managed ecosystem; a failure
  here leaves the staging directories opened before it.\<close>

fun open_stages ::
  "'t ops_env \<Rightarrow> string \<Rightarrow> (string \<times> bool) list \<Rightarrow> stage list \<Rightarrow> 't restore \<Rightarrow> 't restore \<times> (ops_error + stage list)" where
  "open_stages env p [] acc s = (s, Inr acc)"
| "open_stages env p ((eco, managed) # ecos) acc s =
     (if \<not> managed then open_stages env p ecos acc s
      else case managed_dir (pe_fs (oe_pack env) (rt_step s)) (pe_store (oe_pack env)) (wd_fs (rt_world s)) eco p of
             (f, Inl e) \<Rightarrow> (s\<lparr>rt_world := (rt_world s)\<lparr>wd_fs := f\<rparr>\<rparr>, Inl OpsManagedDir)
           | (f, Inr root) \<Rightarrow>
               (let s1 = s\<lparr>rt_world := (rt_world s)\<lparr>wd_fs := f\<rparr>,
                           rt_dirs := (rt_dirs s)(root := Some (case rt_dirs s root of None \<Rightarrow> [] | Some d \<Rightarrow> d))\<rparr>
                in case mkdir_temp env (butlast root) (''.'' @ p @ ''-restore-'') s1 of
                     (s2, None) \<Rightarrow> (s2, Inl (OpsStage eco))
                   | (s2, Some staging) \<Rightarrow>
                       open_stages env p ecos
                         (acc @ [\<lparr>sg_eco = eco, sg_root = root, sg_staging = staging, sg_backup = None, sg_swapped = False\<rparr>]) s2))"

definition stage_of :: "stage list \<Rightarrow> string \<Rightarrow> stage option" where
  "stage_of stages eco = map_of (rev (map (\<lambda>g. (sg_eco g, g)) stages)) eco"

text \<open>
  The callback of stageManaged: the blob must be stored at its size; an entry under the managed
  prefix of a managed ecosystem is unpacked into that ecosystem's staging directory.
  What a walk that fails had unpacked goes with that directory.
\<close>

definition stage_entry :: "'t ops_env \<Rightarrow> nat \<Rightarrow> fs \<Rightarrow> stage list \<Rightarrow> mentry \<Rightarrow> 't dirs \<Rightarrow> ops_error + 't dirs" where
  "stage_entry env k f stages e dirs =
     (let pe = oe_pack env
      in if pe_cancelled pe k then Inl OpsCancelled
         else case blob_stat (pe_fs pe k) (pe_store pe) f (me_digest e) of
                None \<Rightarrow> Inl (OpsMissing (me_digest e))
              | Some m \<Rightarrow>
                  if st_size m \<noteq> me_size e then Inl (OpsSize (me_digest e))
                  else (case (managed_key (me_key e), stage_of stages (me_eco e)) of
                          ((relative, True), Some g) \<Rightarrow>
                            (if \<not> safe_managed_relative relative then Inl (OpsUnsafe relative)
                             else
                               let held = (case dirs (sg_staging g) of None \<Rightarrow> [] | Some d \<Rightarrow> d)
                               in if map_of held (clean_rel relative) \<noteq> None then Inl (OpsDuplicateTree (me_eco e) relative)
                                  else (case blob_open (pe_fs pe k) (pe_store pe) f (me_digest e) of
                                          Inl x \<Rightarrow> Inl (OpsPack (PkBlob x))
                                        | Inr (body, _) \<Rightarrow>
                                            (case oe_untar env body of
                                               None \<Rightarrow> Inl (OpsExtract relative)
                                             | Some t \<Rightarrow> Inr (dirs(sg_staging g := Some ((clean_rel relative, t) # held))))))
                        | _ \<Rightarrow> Inr dirs))"

definition stage_managed :: "'t ops_env \<Rightarrow> string \<Rightarrow> meta \<Rightarrow> 't restore \<Rightarrow> 't restore \<times> (ops_error + stage list)" where
  "stage_managed env p target s =
     (case open_stages env p (oe_ecos env) [] s of
        (s1, Inl e) \<Rightarrow> (s1, Inl e)
      | (s1, Inr stages) \<Rightarrow>
          (let k = rt_step s1; f = wd_fs (rt_world s1); bad = (\<lambda>s e. (drop_stages env stages s, Inl e))
           in case open_manifest (oe_pack env) k f (mt_manifest target) of
                Inl e \<Rightarrow> bad s1 (OpsPack e)
              | Inr it \<Rightarrow>
                  if mh_project (it_header it) \<noteq> p then bad s1 OpsForeign
                  else (case walk_manifest (\<lambda>x. OpsPack (PkManifest x)) (stage_entry env k f stages) it (rt_dirs s1) of
                          Inl e \<Rightarrow> bad s1 e
                        | Inr (dirs, n, bytes) \<Rightarrow>
                            if int n \<noteq> mt_count target \<or> bytes \<noteq> mt_bytes target then bad (s1\<lparr>rt_dirs := dirs\<rparr>) OpsTotals
                            else (s1\<lparr>rt_dirs := dirs\<rparr>, Inr stages))))"

section \<open>Swapping in, swapping back\<close>

definition swap_one :: "'t ops_env \<Rightarrow> stage \<Rightarrow> 't restore \<Rightarrow> 't restore \<times> stage \<times> ops_error option" where
  "swap_one env g s =
     (case mkdir_temp env (butlast (sg_root g)) (''.'' @ last (sg_root g) @ ''-previous-'') s of
        (s1, None) \<Rightarrow> (s1, g, Some (OpsSwap (sg_eco g)))
      | (s1, Some backup) \<Rightarrow>
          (case remove_dir env backup s1 of
             (s2, False) \<Rightarrow> (s2, g, Some (OpsSwap (sg_eco g)))
           | (s2, True) \<Rightarrow>
               (let g1 = g\<lparr>sg_backup := Some backup\<rparr>
                in case rename_dir env (sg_root g) backup s2 of
                     (s3, False) \<Rightarrow> (s3, g1, Some (OpsSwap (sg_eco g)))
                   | (s3, True) \<Rightarrow>
                       (case rename_dir env (sg_staging g) (sg_root g) s3 of
                          (s4, False) \<Rightarrow>
                            (fst (rename_dir env backup (sg_root g) s4), g1, Some (OpsInstall (sg_eco g)))
                        | (s4, True) \<Rightarrow> (s4, g1\<lparr>sg_swapped := True\<rparr>, None)))))"

text \<open>swapManaged returns the stages as it left them, those after a failure untouched.\<close>

fun swap_managed :: "'t ops_env \<Rightarrow> stage list \<Rightarrow> 't restore \<Rightarrow> 't restore \<times> stage list \<times> ops_error option" where
  "swap_managed env [] s = (s, [], None)"
| "swap_managed env (g # gs) s =
     (case swap_one env g s of
        (s1, g1, Some e) \<Rightarrow> (s1, g1 # gs, Some e)
      | (s1, g1, None) \<Rightarrow>
          (case swap_managed env gs s1 of (s2, gs2, r) \<Rightarrow> (s2, g1 # gs2, r)))"

definition rollback_one :: "'t ops_env \<Rightarrow> stage \<Rightarrow> 't restore \<Rightarrow> 't restore \<times> stage \<times> bool" where
  "rollback_one env g s =
     (if \<not> sg_swapped g then (s, g, True)
      else case rename_dir env (sg_root g) (sg_staging g) s of
             (s1, False) \<Rightarrow> (s1, g, False)
           | (s1, True) \<Rightarrow>
               (case (case sg_backup g of None \<Rightarrow> (s1, False) | Some b \<Rightarrow> rename_dir env b (sg_root g) s1) of
                  (s2, False) \<Rightarrow> (fst (rename_dir env (sg_staging g) (sg_root g) s2), g, False)
                | (s2, True) \<Rightarrow> (fst (remove_dir env (sg_staging g) s2), g\<lparr>sg_swapped := False\<rparr>, True)))"

text \<open>rollbackManaged goes through the stages from the last to the first.\<close>

fun rollback_rev :: "'t ops_env \<Rightarrow> stage list \<Rightarrow> 't restore \<Rightarrow> 't restore \<times> stage list \<times> bool" where
  "rollback_rev env [] s = (s, [], True)"
| "rollback_rev env (g # gs) s =
     (case rollback_one env g s of
        (s1, g1, ok) \<Rightarrow> (case rollback_rev env gs s1 of (s2, gs2, oks) \<Rightarrow> (s2, g1 # gs2, ok \<and> oks)))"

definition rollback_managed :: "'t ops_env \<Rightarrow> stage list \<Rightarrow> 't restore \<Rightarrow> 't restore \<times> stage list \<times> bool" where
  "rollback_managed env gs s = (case rollback_rev env (rev gs) s of (s1, gs1, ok) \<Rightarrow> (s1, rev gs1, ok))"

text \<open>The deferred clean-up of applySnapshot.\<close>

definition clean_one :: "'t ops_env \<Rightarrow> stage \<Rightarrow> 't restore \<Rightarrow> 't restore" where
  "clean_one env g s =
     (let s1 = fst (remove_dir env (sg_staging g) s)
      in if sg_swapped g then s1
         else case sg_backup g of None \<Rightarrow> s1 | Some b \<Rightarrow> fst (remove_dir env b s1))"

definition clean_stages :: "'t ops_env \<Rightarrow> stage list \<Rightarrow> 't restore \<Rightarrow> 't restore" where
  "clean_stages env gs s = fold (clean_one env) gs s"

section \<open>applyCatalogManifest, applySnapshot, rollbackJob\<close>

definition managed_eco :: "'t ops_env \<Rightarrow> string \<Rightarrow> bool" where
  "managed_eco env eco \<longleftrightarrow> map_of (oe_ecos env) eco = Some True"

text \<open>
  The entries that go back to the catalog: all but those that stand for a managed tree. A
  cancelled context ends the source at its first entry.
\<close>

definition catalog_rows :: "'t ops_env \<Rightarrow> mentry list \<Rightarrow> mentry list" where
  "catalog_rows env es = filter (\<lambda>e. \<not> (snd (managed_key (me_key e)) \<and> managed_eco env (me_eco e))) es"

definition apply_catalog ::
  "'t ops_env \<Rightarrow> nat \<Rightarrow> string \<Rightarrow> string option \<Rightarrow> meta \<Rightarrow> world \<Rightarrow> world \<times> (ops_error + unit)" where
  "apply_catalog env k p expected target w =
     (let pe = oe_pack env
      in case open_manifest pe k (wd_fs w) (mt_manifest target) of
           Inl e \<Rightarrow> (w, Inl (OpsPack e))
         | Inr it \<Rightarrow>
             (let stop = pe_cancelled pe k \<and> fst (rows it) \<noteq> [];
                  src = (if stop then [] else map (manifest_entry p) (catalog_rows env (fst (rows it))));
                  err = (if stop then Some (CatSql ''cancelled'') else source_error (snd (rows it)))
              in case apply_snapshot (pe_db pe k) (pe_now pe k) p (case expected of None \<Rightarrow> [] | Some h \<Rightarrow> h) (mt_id target)
                        (expected \<noteq> None) src err (Some (oe_index env)) (wd_cat w) of
                   (c, Inl e) \<Rightarrow> (w\<lparr>wd_cat := c\<rparr>, Inl (OpsPack (PkCat e)))
                 | (c, Inr _) \<Rightarrow> (w\<lparr>wd_cat := c\<rparr>, Inr ())))"

text \<open>The old trees are removed one after the other; the first that stays ends the call with an error.\<close>

fun remove_old :: "'t ops_env \<Rightarrow> stage list \<Rightarrow> 't restore \<Rightarrow> 't restore \<times> stage list \<times> ops_error option" where
  "remove_old env [] s = (s, [], None)"
| "remove_old env (g # gs) s =
     (case (case sg_backup g of None \<Rightarrow> (s, True) | Some b \<Rightarrow> remove_dir env b s) of
        (s1, False) \<Rightarrow> (s1, g # gs, Some (OpsRemoveOld (sg_eco g)))
      | (s1, True) \<Rightarrow>
          (case remove_old env gs s1 of (s2, gs2, r) \<Rightarrow> (s2, g\<lparr>sg_swapped := False\<rparr> # gs2, r)))"

definition undo :: "'t ops_env \<Rightarrow> ops_error \<Rightarrow> stage list \<Rightarrow> 't restore \<Rightarrow> 't restore \<times> (ops_error + unit)" where
  "undo env e gs s =
     (case rollback_managed env gs s of
        (s1, gs1, ok) \<Rightarrow> (clean_stages env gs1 s1, Inl (if ok then e else OpsJoined e)))"

definition apply_managed ::
  "'t ops_env \<Rightarrow> string \<Rightarrow> string option \<Rightarrow> meta \<Rightarrow> 't restore \<Rightarrow> 't restore \<times> (ops_error + unit)" where
  "apply_managed env p expected target s =
     (case stage_managed env p target s of
        (s1, Inl e) \<Rightarrow> (s1, Inl e)
      | (s1, Inr gs) \<Rightarrow>
          (case swap_managed env gs s1 of
             (s2, gs2, Some e) \<Rightarrow> undo env e gs2 s2
           | (s2, gs2, None) \<Rightarrow>
               (case apply_catalog env (rt_step s2) p expected target (rt_world s2) of
                  (w, Inl e) \<Rightarrow> undo env e gs2 (s2\<lparr>rt_world := w\<rparr>)
                | (w, Inr _) \<Rightarrow>
                    (case remove_old env gs2 (s2\<lparr>rt_world := w\<rparr>) of
                       (s3, gs3, Some e) \<Rightarrow> (clean_stages env gs3 s3, Inl e)
                     | (s3, gs3, None) \<Rightarrow> (clean_stages env gs3 s3, Inr ())))))"

definition rollback_job :: "'t ops_env \<Rightarrow> string \<Rightarrow> string \<Rightarrow> string \<Rightarrow> 't restore \<Rightarrow> 't restore \<times> (ops_error + unit)" where
  "rollback_job env p snap commit s =
     (let i = (if trim_space snap = [] then trim_space commit else trim_space snap)
      in if i = [] then (s, Inl OpsSnapshotRequired)
         else case get_snapshot i (wd_cat (rt_world s)) of
                Inl e \<Rightarrow> (s, Inl (OpsPack (PkCat e)))
              | Inr t \<Rightarrow>
                  if sn_project t \<noteq> p then (s, Inl (OpsForeignSnapshot i (sn_project t)))
                  else apply_managed env p None (meta_of t) s)"

end
