(* ===== verification/Spec2Isabelle.thy ===== *)
theory Spec2Isabelle
  imports Blob Upstream CatalogSpec ServeSpec UsageSpec PackSpec Restore
begin

text \<open>
  A verification development for PKGCache.
\<close>

end
